(* ===== verification/Prelude.thy ===== *)
theory Prelude
  imports Main "HOL-Library.Word" "HOL-Library.Monad_Syntax"
begin

text \<open>
  Shared material of the development: the machine integer types, the error numbers,
  the calculus for programs that may fail, the counting loop of the C code and the
  byte layout of 32 bit words.
\<close>

unbundle bit_operations_syntax

section \<open>Machine integers and error numbers\<close>

type_synonym u8 = "8 word"
type_synonym u32 = "32 word"
type_synonym u64 = "64 word"

text \<open>The values of the error numbers of the Linux kernel that the driver returns (negated).\<close>

definition EIO :: int where "EIO = 5"
definition EAGAIN :: int where "EAGAIN = 11"
definition EFAULT :: int where "EFAULT = 14"
definition EINVAL :: int where "EINVAL = 22"
definition ENOTTY :: int where "ENOTTY = 25"
definition ERESTARTSYS :: int where "ERESTARTSYS = 512"

lemmas errno_defs = EIO_def EAGAIN_def EFAULT_def EINVAL_def ENOTTY_def ERESTARTSYS_def

lemma errno_nonzero [simp]:
  "EIO \<noteq> 0" "EAGAIN \<noteq> 0" "EFAULT \<noteq> 0" "EINVAL \<noteq> 0" "ENOTTY \<noteq> 0" "ERESTARTSYS \<noteq> 0"
  by (simp_all add: errno_defs)

section \<open>Programs that may fail\<close>

text \<open>
  A program fragment maps a state to \<open>Some (result, state')\<close>, or to \<open>None\<close> when the
  C code has no defined behaviour there: a null or stale pointer is followed, an array
  is indexed out of its bounds, a mutex is locked twice by its holder or unlocked by
  somebody who does not hold it. \<open>ensures m P\<close> is total correctness: \<open>m\<close> has a defined
  result, and the result and the state it leaves satisfy \<open>P\<close>.
\<close>

named_theorems wp "weakest preconditions of the primitives"

definition ensures :: "('a \<times> 's) option \<Rightarrow> ('a \<Rightarrow> 's \<Rightarrow> bool) \<Rightarrow> bool" where
  "ensures m P = (case m of None \<Rightarrow> False | Some (x, s) \<Rightarrow> P x s)"

lemma ensures_Some [simp]: "ensures (Some (x, s)) P = P x s"
  by (simp add: ensures_def)

lemma ensures_None [simp]: "ensures None P = False"
  by (simp add: ensures_def)

lemma ensures_bind [wp]:
  "ensures (m \<bind> (\<lambda>(x, s). f x s)) P = ensures m (\<lambda>x s. ensures (f x s) P)"
  by (cases m) (auto simp: ensures_def)

lemma ensures_if [wp]:
  "ensures (if b then m else n) P = ((b \<longrightarrow> ensures m P) \<and> (\<not> b \<longrightarrow> ensures n P))"
  by simp

lemma ensures_Let [wp]: "ensures (Let x f) P = ensures (f x) P"
  by simp

text \<open>A contract with a case in which the code has no defined behaviour.\<close>

lemma if_either: "(b \<Longrightarrow> P) \<Longrightarrow> (\<not> b \<Longrightarrow> Q) \<Longrightarrow> if b then P else Q"
  by simp

lemma ensures_mono: "ensures m P \<Longrightarrow> (\<And>x s. P x s \<Longrightarrow> Q x s) \<Longrightarrow> ensures m Q"
  by (cases m) (auto simp: ensures_def)

lemma ensures_conj: "ensures m P \<Longrightarrow> ensures m Q \<Longrightarrow> ensures m (\<lambda>x s. P x s \<and> Q x s)"
  by (cases m) (auto simp: ensures_def)

lemma ensuresI: "m = Some (x, s) \<Longrightarrow> P x s \<Longrightarrow> ensures m P"
  by simp

lemma ensuresE:
  assumes "ensures m P"
  obtains x s where "m = Some (x, s)" and "P x s"
  using assms by (cases m) (auto simp: ensures_def)

lemma ensuresD: "ensures m P \<Longrightarrow> m = Some (x, s) \<Longrightarrow> P x s"
  by simp

lemma ensures_iff: "ensures m P \<longleftrightarrow> (\<exists>x s. m = Some (x, s) \<and> P x s)"
  by (cases m) (auto simp: ensures_def)

section \<open>Counting loops with an early return\<close>

text \<open>
  \<open>for_loop body i n st\<close> is \<open>for(; i < n; ++i) body\<close>. The body returns 0 to go on; any
  other result leaves the loop (and the C function) with that value.
\<close>

function for_loop :: "(nat \<Rightarrow> 's \<Rightarrow> (int \<times> 's) option) \<Rightarrow> nat \<Rightarrow> nat \<Rightarrow> 's \<Rightarrow> (int \<times> 's) option"
  where
    "for_loop body i n st =
      (if i < n then do {
         (r, st) \<leftarrow> body i st;
         if r \<noteq> 0 then Some (r, st) else for_loop body (Suc i) n st
       }
       else Some (0, st))"
  by pat_completeness auto
termination
  by (relation "measure (\<lambda>(body, i, n, st). n - i)") auto

declare for_loop.simps [simp del]

lemma for_loop_done [simp]: "n \<le> i \<Longrightarrow> for_loop body i n st = Some (0, st)"
  by (simp add: for_loop.simps)

lemma for_loop_step:
  "i < n \<Longrightarrow> for_loop body i n st =
     (body i st) \<bind> (\<lambda>(r, st). if r \<noteq> 0 then Some (r, st) else for_loop body (Suc i) n st)"
  by (subst for_loop.simps) simp

text \<open>
  The interface between a loop and its body: an invariant \<open>I i st\<close> holds before the
  iteration \<open>i\<close>, every iteration either re-establishes it for \<open>i + 1\<close> or leaves with a
  result that satisfies \<open>Q\<close>.
\<close>

locale loop_body =
  fixes body :: "nat \<Rightarrow> 's \<Rightarrow> (int \<times> 's) option"
    and bound :: nat
    and I :: "nat \<Rightarrow> 's \<Rightarrow> bool"
    and Q :: "int \<Rightarrow> 's \<Rightarrow> bool"
  assumes iteration:
    "i < bound \<Longrightarrow> I i st \<Longrightarrow>
      ensures (body i st) (\<lambda>r st'. if r = 0 then I (Suc i) st' else Q r st')"
begin

lemma loop_from:
  "I i st \<Longrightarrow> i \<le> bound \<Longrightarrow>
    ensures (for_loop body i bound st) (\<lambda>r st'. if r = 0 then I bound st' else Q r st')"
proof (induction "bound - i" arbitrary: i st)
  case 0
  then show ?case by simp
next
  case (Suc k)
  then have i: "i < bound" by simp
  have "ensures (body i st)
     (\<lambda>r st'. ensures (if r \<noteq> 0 then Some (r, st') else for_loop body (Suc i) bound st')
       (\<lambda>r st'. if r = 0 then I bound st' else Q r st'))"
    by (rule ensures_mono [OF iteration [OF i Suc.prems(1)]])
      (use Suc i in \<open>auto split: if_splits\<close>)
  then show ?case by (simp add: for_loop_step [OF i] wp)
qed

lemma loop_total:
  "I 0 st \<Longrightarrow>
    ensures (for_loop body 0 bound st) (\<lambda>r st'. if r = 0 then I bound st' else Q r st')"
  by (rule loop_from) simp_all

end

section \<open>Little endian layout of 32 bit words\<close>

definition bytes_of :: "u32 \<Rightarrow> u8 list" where
  "bytes_of w = [ucast w, ucast (drop_bit 8 w), ucast (drop_bit 16 w), ucast (drop_bit 24 w)]"

definition le32 :: "u8 list \<Rightarrow> u32" where
  "le32 bs = (case bs of
      [a, b, c, d] \<Rightarrow>
        ucast a OR push_bit 8 (ucast b) OR push_bit 16 (ucast c) OR push_bit 24 (ucast d)
    | _ \<Rightarrow> 0)"

lemma length_bytes_of [simp]: "length (bytes_of w) = 4"
  by (simp add: bytes_of_def)

lemma le32_bytes_of [simp]: "le32 (bytes_of w) = w"
proof (rule bit_word_eqI)
  fix n
  assume n: "n < LENGTH(32)"
  then consider "n < 8" | "8 \<le> n" "n < 16" | "16 \<le> n" "n < 24" | "24 \<le> n"
    by linarith
  then show "bit (le32 (bytes_of w)) n = bit w n"
    using n by cases (auto simp: bytes_of_def le32_def bit_simps)
qed

lemma bit_u8_high: "8 \<le> n \<Longrightarrow> \<not> bit (a :: u8) n"
  using bit_imp_le_length [of a n] by auto

lemma bytes_of_le32:
  assumes "length bs = 4"
  shows "bytes_of (le32 bs) = bs"
proof -
  from assms obtain a b c d where "bs = [a, b, c, d]"
    by (auto simp: numeral_eq_Suc length_Suc_conv)
  then show ?thesis
    unfolding bytes_of_def le32_def
    by (auto intro!: bit_word_eqI simp: bit_simps bit_u8_high)
qed

lemma bytes_of_inject [simp]: "bytes_of v = bytes_of w \<longleftrightarrow> v = w"
  by (metis le32_bytes_of)

definition bytes_of_words :: "u32 list \<Rightarrow> u8 list" where
  "bytes_of_words ws = concat (map bytes_of ws)"

lemma bytes_of_words_simps [simp]:
  "bytes_of_words [] = []"
  "bytes_of_words (w # ws) = bytes_of w @ bytes_of_words ws"
  "bytes_of_words (vs @ ws) = bytes_of_words vs @ bytes_of_words ws"
  by (simp_all add: bytes_of_words_def)

lemma length_bytes_of_words [simp]: "length (bytes_of_words ws) = 4 * length ws"
  by (induction ws) simp_all

lemma take_bytes_of_words: "take (4 * n) (bytes_of_words ws) = bytes_of_words (take n ws)"
proof (induction ws arbitrary: n)
  case (Cons w ws)
  then show ?case by (cases n) simp_all
qed simp

lemma drop_bytes_of_words: "drop (4 * n) (bytes_of_words ws) = bytes_of_words (drop n ws)"
proof (induction ws arbitrary: n)
  case (Cons w ws)
  then show ?case by (cases n) simp_all
qed simp

lemma nth_bytes_of_words:
  assumes "i < length ws"
  shows "take 4 (drop (4 * i) (bytes_of_words ws)) = bytes_of (ws ! i)"
  using assms by (simp add: drop_bytes_of_words Cons_nth_drop_Suc [symmetric])

end
