(* ===== verification/Driver_State.thy ===== *)
theory Driver_State
  imports Prelude
begin

text \<open>
  The state of the module and of the part of the kernel it works on, the operations of
  the kernel that the module calls, and the well-formedness of the running module.

  The structures of \<open>mtcadummy.h\<close> are records. Kernel memory is an explicit store of
  blocks of 32 bit words, so that the two bars of a device are pointers, as in the code.
  The kernel itself is not part of the repository: its answers (does a lock attempt get
  interrupted, which bytes of user memory can be copied, does an allocation succeed) are
  the fields of a record \<open>kernel\<close> that every operation takes as an argument, and the
  documented behaviour of these fields is stated by the predicates \<open>uaccess_ok\<close> and
  \<open>kmalloc_ok\<close>.
\<close>

section \<open>Sizes and names from mtcadummy.h\<close>

definition MTCADUMMY_NR_DEVS :: nat where "MTCADUMMY_NR_DEVS = 7"
definition MTCADUMMY_N_REGISTERS :: nat where "MTCADUMMY_N_REGISTERS = 32"
definition MTCADUMMY_DMA_SIZE :: nat where "MTCADUMMY_DMA_SIZE = 4096"
definition MTCADUMMY_DMMY_AS_ASCII :: u32 where "MTCADUMMY_DMMY_AS_ASCII = 0x444D4D59"

text \<open>The DMA area in words.\<close>

definition DMA_WORDS :: nat where "DMA_WORDS = MTCADUMMY_DMA_SIZE div 4"

lemmas size_defs = MTCADUMMY_NR_DEVS_def MTCADUMMY_N_REGISTERS_def MTCADUMMY_DMA_SIZE_def
  DMA_WORDS_def

section \<open>Mutexes and the order in which they are taken\<close>

datatype mutex = DevMutex nat | ControlMutex

instantiation mutex :: linorder
begin

fun less_eq_mutex :: "mutex \<Rightarrow> mutex \<Rightarrow> bool" where
  "less_eq_mutex (DevMutex i) (DevMutex j) \<longleftrightarrow> i \<le> j"
| "less_eq_mutex (DevMutex i) ControlMutex \<longleftrightarrow> True"
| "less_eq_mutex ControlMutex (DevMutex j) \<longleftrightarrow> False"
| "less_eq_mutex ControlMutex ControlMutex \<longleftrightarrow> True"

definition less_mutex :: "mutex \<Rightarrow> mutex \<Rightarrow> bool" where
  "less_mutex a b \<longleftrightarrow> a \<le> b \<and> \<not> b \<le> (a :: mutex)"

instance
proof
  fix a b c :: mutex
  show "(a < b) = (a \<le> b \<and> \<not> b \<le> a)" by (rule less_mutex_def)
  show "a \<le> a" by (cases a) simp_all
  show "a \<le> b \<Longrightarrow> b \<le> c \<Longrightarrow> a \<le> c" by (cases a; cases b; cases c) simp_all
  show "a \<le> b \<Longrightarrow> b \<le> a \<Longrightarrow> a = b" by (cases a; cases b) simp_all
  show "a \<le> b \<or> b \<le> a" by (cases a; cases b) auto
qed

end

lemma mutex_less_simps [simp]:
  "DevMutex i < DevMutex j \<longleftrightarrow> i < j"
  "DevMutex i < ControlMutex"
  "\<not> ControlMutex < DevMutex j"
  by (auto simp: less_mutex_def)

section \<open>The data of the module\<close>

text \<open>
  The functions a \<open>struct file_operations\<close> of the module can point to. A missing entry
  is the null pointer a static structure is initialised with.
\<close>

datatype entry_point =
    Mtca_open | Mtca_release
  | Mtca_read | Mtca_write
  | Mtca_read_no_struct | Mtca_write_no_struct
  | Mtca_ioctl | Llrf_ioctl | Pcieuni_ioctl

record file_operations =
  fop_read :: "entry_point option"
  fop_write :: "entry_point option"
  fop_ioctl :: "entry_point option"
  fop_open :: "entry_point option"
  fop_release :: "entry_point option"

type_synonym ptr = nat

definition NULL :: ptr where "NULL = 0"

record mtcaDummyData =
  inUse :: u32
  cdev_ops :: file_operations
  slotNr :: u32
  minor :: u32
  major :: u32
  systemBar :: ptr
  dmaBar :: ptr

record mtcaDummyControl =
  open_error :: bool
  read_error :: bool
  write_error :: bool
  spi_error :: bool

text \<open>What the kernel registers on behalf of the module while it is loaded.\<close>

datatype resource =
  ChrdevRegion | DevClass | MutexInit nat | Cdev nat | DevNode nat | ProcEntry

text \<open>
  Ghost events: every lock operation and every access to shared data appends one, so
  that the locking discipline is a property of the log.
\<close>

datatype event = Acquire mutex | Release mutex | Access ptr | Flags

type_synonym umem = "u64 \<Rightarrow> u8"
type_synonym heap = "ptr \<Rightarrow> u32 list option"

record sys =
  devs :: "mtcaDummyData list"
  control :: mtcaDummyControl
  heap :: heap
  umem :: umem
  held :: "mutex set"
  log :: "event list"
  tick :: nat
  registered :: "resource set"

text \<open>An open file (\<open>struct file\<close>): \<open>private_data\<close> is the index of the device in the array of the module.\<close>

record open_file =
  private_data :: "nat option"

section \<open>The kernel as a parameter\<close>

datatype verify = VERIFY_READ | VERIFY_WRITE

datatype create_result = Created | CreateNull | CreateErrPtr

text \<open>
  The number of the call is an argument where the answer may differ from call to call.
  \<open>access_ok\<close> takes the kind of access as an argument in kernels before 5.0.
  The version numbers come from the generated \<open>version.h\<close>.
\<close>

record kernel =
  k_lock :: "nat \<Rightarrow> mutex \<Rightarrow> int"
  k_copy_from_user :: "nat \<Rightarrow> umem \<Rightarrow> u64 \<Rightarrow> nat \<Rightarrow> u8 list \<times> nat"
  k_copy_to_user :: "nat \<Rightarrow> umem \<Rightarrow> u64 \<Rightarrow> u8 list \<Rightarrow> umem \<times> nat"
  k_access_ok :: "u64 \<Rightarrow> nat \<Rightarrow> bool"
  k_access_ok_4 :: "verify \<Rightarrow> u64 \<Rightarrow> nat \<Rightarrow> bool"
  k_before_5_0 :: bool
  k_kmalloc :: "nat \<Rightarrow> heap \<Rightarrow> nat \<Rightarrow> ptr \<times> u32 list"
  k_alloc_chrdev_region :: int
  k_major :: u32
  k_class_create_ok :: bool
  k_cdev_add :: "nat \<Rightarrow> int"
  k_device_create :: "nat \<Rightarrow> create_result"
  k_proc_create_ok :: bool
  VERSION_MAJ :: u32
  VERSION_MIN :: u32

definition umem_read :: "umem \<Rightarrow> u64 \<Rightarrow> nat \<Rightarrow> u8 list" where
  "umem_read m a n = map (\<lambda>i. m (a + of_nat i)) [0..<n]"

definition umem_write :: "umem \<Rightarrow> u64 \<Rightarrow> u8 list \<Rightarrow> umem" where
  "umem_write m a bs = (\<lambda>x. let i = unat (x - a) in if i < length bs then bs ! i else m x)"

lemma length_umem_read [simp]: "length (umem_read m a n) = n"
  by (simp add: umem_read_def)

text \<open>Reading back what was written behind the first \<open>k\<close> bytes, and these bytes themselves.\<close>

lemma umem_offset:
  assumes "i < 2 ^ 64" "k < 2 ^ 64"
  shows "unat (of_nat i - of_nat k :: u64) = (if k \<le> i then i - k else 2 ^ 64 + i - k)"
proof -
  have "unat (of_nat i :: u64) = i" "unat (of_nat k :: u64) = k"
    using assms by (simp_all add: unat_of_nat)
  then show ?thesis by (auto simp: unat_sub_if_size word_size word_le_nat_alt)
qed

lemma umem_read_write_behind:
  assumes "k + length bs < 2 ^ 64"
  shows "umem_read (umem_write m (a + of_nat k) bs) a k = umem_read m a k"
proof -
  have "\<not> unat (of_nat i - of_nat k :: u64) < length bs" if "i < k" for i
    using that assms umem_offset [of i k] by simp
  then show ?thesis by (simp add: umem_read_def umem_write_def Let_def)
qed

lemma umem_read_write_append:
  assumes "k + length bs < 2 ^ 64"
  shows "umem_read (umem_write m (a + of_nat k) bs) a (k + length bs) = umem_read m a k @ bs"
  using assms
  by (intro nth_equalityI) (auto simp: umem_read_def umem_write_def Let_def umem_offset nth_append)

lemma umem_read_write:
  "length bs < 2 ^ 64 \<Longrightarrow> umem_read (umem_write m a bs) a (length bs) = bs"
  using umem_read_write_append [of 0 bs m a] by (simp add: umem_read_def)

text \<open>Two contents of user memory that agree outside of the \<open>n\<close> bytes from \<open>a\<close> on.\<close>

definition outside_kept :: "u64 \<Rightarrow> nat \<Rightarrow> umem \<Rightarrow> umem \<Rightarrow> bool" where
  "outside_kept a n m m' \<longleftrightarrow> (\<forall>x. n \<le> unat (x - a) \<longrightarrow> m' x = m x)"

lemma outside_kept_refl [simp]: "outside_kept a n m m"
  by (simp add: outside_kept_def)

lemma outside_kept_trans: "outside_kept a n m m' \<Longrightarrow> outside_kept a n m' m'' \<Longrightarrow> outside_kept a n m m''"
  by (simp add: outside_kept_def)

lemma outside_kept_write:
  assumes "k + length bs \<le> n" and "k < 2 ^ 64"
  shows "outside_kept a n m (umem_write m (a + of_nat k) bs)"
proof -
  have "\<not> unat (x - (a + of_nat k)) < length bs" if "n \<le> unat (x - a)" for x
  proof -
    have k: "unat (of_nat k :: u64) = k" using assms(2) by (simp add: unat_of_nat)
    then have "(of_nat k :: u64) \<le> x - a" using that assms(1) by (simp add: word_le_nat_alt)
    then have "unat (x - a - of_nat k) = unat (x - a) - k" by (simp add: unat_sub k)
    then show ?thesis using that assms(1) by (simp add: diff_diff_eq)
  qed
  then show ?thesis by (simp add: outside_kept_def umem_write_def Let_def)
qed

text \<open>
  The contract of \<open>copy_from_user\<close> and \<open>copy_to_user\<close> as the kernel documents it: the
  result is the number of bytes that were not copied, 0 upon success; the bytes before
  that are copied, and the rest of a kernel buffer is filled with zeros.
\<close>

definition uaccess_ok :: "kernel \<Rightarrow> bool" where
  "uaccess_ok K \<longleftrightarrow>
    (\<forall>t m a n. case k_copy_from_user K t m a n of (bs, r) \<Rightarrow>
       r \<le> n \<and> bs = umem_read m a (n - r) @ replicate r 0) \<and>
    (\<forall>t m a bs. case k_copy_to_user K t m a bs of (m', r) \<Rightarrow>
       r \<le> length bs \<and> m' = umem_write m a (take (length bs - r) bs))"

lemma uaccess_from:
  assumes "uaccess_ok K" and "k_copy_from_user K t m a n = (bs, r)"
  shows "r \<le> n" and "bs = umem_read m a (n - r) @ replicate r 0" and "length bs = n"
proof -
  note law = assms(1) [unfolded uaccess_ok_def, THEN conjunct1, rule_format, of n m a t]
  with assms(2) show "r \<le> n" "bs = umem_read m a (n - r) @ replicate r 0" "length bs = n"
    by simp_all
qed

lemma uaccess_to:
  assumes "uaccess_ok K" and "k_copy_to_user K t m a bs = (m', r)"
  shows "r \<le> length bs" and "m' = umem_write m a (take (length bs - r) bs)"
proof -
  note law = assms(1) [unfolded uaccess_ok_def, THEN conjunct2, rule_format, of bs m a t]
  with assms(2) show "r \<le> length bs" "m' = umem_write m a (take (length bs - r) bs)"
    by simp_all
qed

text \<open>\<open>kmalloc\<close> returns NULL or a block of the requested size that nobody else has.\<close>

definition kmalloc_ok :: "kernel \<Rightarrow> bool" where
  "kmalloc_ok K \<longleftrightarrow>
    (\<forall>t h n. case k_kmalloc K t h n of (p, ws) \<Rightarrow>
       p \<noteq> NULL \<longrightarrow> h p = None \<and> length ws = n div 4)"

section \<open>Calls into the kernel and accesses to memory\<close>

definition mutex_lock_interruptible :: "kernel \<Rightarrow> mutex \<Rightarrow> sys \<Rightarrow> (int \<times> sys) option" where
  "mutex_lock_interruptible K m s =
    (if m \<in> held s then None
     else let r = k_lock K (tick s) m; s' = s\<lparr>tick := Suc (tick s)\<rparr> in
       Some (r, if r = 0 then s'\<lparr>held := insert m (held s), log := log s @ [Acquire m]\<rparr> else s'))"

definition mutex_unlock :: "mutex \<Rightarrow> sys \<Rightarrow> (unit \<times> sys) option" where
  "mutex_unlock m s =
    (if m \<in> held s then Some ((), s\<lparr>held := held s - {m}, log := log s @ [Release m]\<rparr>) else None)"

definition copy_from_user :: "kernel \<Rightarrow> u64 \<Rightarrow> nat \<Rightarrow> sys \<Rightarrow> ((u8 list \<times> nat) \<times> sys) option" where
  "copy_from_user K a n s =
    Some (k_copy_from_user K (tick s) (umem s) a n, s\<lparr>tick := Suc (tick s)\<rparr>)"

definition copy_to_user :: "kernel \<Rightarrow> u64 \<Rightarrow> u8 list \<Rightarrow> sys \<Rightarrow> (nat \<times> sys) option" where
  "copy_to_user K a bs s =
    (case k_copy_to_user K (tick s) (umem s) a bs of
       (m', r) \<Rightarrow> Some (r, s\<lparr>umem := m', tick := Suc (tick s)\<rparr>))"

definition read_control :: "(mtcaDummyControl \<Rightarrow> bool) \<Rightarrow> sys \<Rightarrow> (bool \<times> sys) option" where
  "read_control f s = Some (f (control s), s\<lparr>log := log s @ [Flags]\<rparr>)"

text \<open>\<open>p[i]\<close>, \<open>p[i] = v\<close> and the \<open>n\<close> bytes from \<open>p + i\<close> on, for \<open>u32* p\<close>.\<close>

definition load :: "ptr \<Rightarrow> nat \<Rightarrow> sys \<Rightarrow> (u32 \<times> sys) option" where
  "load p i s = (case heap s p of
      None \<Rightarrow> None
    | Some ws \<Rightarrow> if i < length ws then Some (ws ! i, s\<lparr>log := log s @ [Access p]\<rparr>) else None)"

definition store :: "ptr \<Rightarrow> nat \<Rightarrow> u32 \<Rightarrow> sys \<Rightarrow> (unit \<times> sys) option" where
  "store p i v s = (case heap s p of
      None \<Rightarrow> None
    | Some ws \<Rightarrow>
        if i < length ws
        then Some ((), s\<lparr>heap := (heap s)(p \<mapsto> ws[i := v]), log := log s @ [Access p]\<rparr>)
        else None)"

definition load_bytes :: "ptr \<Rightarrow> nat \<Rightarrow> nat \<Rightarrow> sys \<Rightarrow> (u8 list \<times> sys) option" where
  "load_bytes p i n s = (case heap s p of
      None \<Rightarrow> None
    | Some ws \<Rightarrow>
        if 4 * i + n \<le> 4 * length ws
        then Some (take n (drop (4 * i) (bytes_of_words ws)), s\<lparr>log := log s @ [Access p]\<rparr>)
        else None)"

text \<open>Following \<open>filp->private_data\<close>, a pointer into the array of devices.\<close>

definition dev_at :: "sys \<Rightarrow> nat \<Rightarrow> mtcaDummyData option" where
  "dev_at s d = (if d < length (devs s) then Some (devs s ! d) else None)"

section \<open>Well-formed states of the running module\<close>

definition bar_blocks :: "mtcaDummyData list \<Rightarrow> ptr list" where
  "bar_blocks ds = map systemBar ds @ map dmaBar ds"

definition has_block :: "heap \<Rightarrow> ptr \<Rightarrow> nat \<Rightarrow> bool" where
  "has_block h p n = (case h p of None \<Rightarrow> False | Some ws \<Rightarrow> length ws = n)"

definition wf_sys :: "sys \<Rightarrow> bool" where
  "wf_sys s \<longleftrightarrow>
    length (devs s) = MTCADUMMY_NR_DEVS \<and>
    (\<forall>d < MTCADUMMY_NR_DEVS.
       slotNr (devs s ! d) = of_nat d \<and>
       has_block (heap s) (systemBar (devs s ! d)) MTCADUMMY_N_REGISTERS \<and>
       has_block (heap s) (dmaBar (devs s ! d)) DMA_WORDS) \<and>
    distinct (bar_blocks (devs s)) \<and> NULL \<notin> set (bar_blocks (devs s))"

text \<open>The contents of the two bars of a device.\<close>

definition block :: "heap \<Rightarrow> ptr \<Rightarrow> u32 list" where
  "block h p = (case h p of None \<Rightarrow> [] | Some ws \<Rightarrow> ws)"

definition regs :: "sys \<Rightarrow> nat \<Rightarrow> u32 list" where
  "regs s d = block (heap s) (systemBar (devs s ! d))"

definition dma :: "sys \<Rightarrow> nat \<Rightarrow> u32 list" where
  "dma s d = block (heap s) (dmaBar (devs s ! d))"

text \<open>
  The locking discipline. A run over the log keeps the set of mutexes that are held: a
  mutex is taken only by somebody who holds no mutex that is greater or equal, the bars
  of a device are touched under the mutex of this device and the control flags under the
  control mutex.
\<close>

definition guarded :: "mtcaDummyData list \<Rightarrow> mutex set \<Rightarrow> ptr \<Rightarrow> bool" where
  "guarded ds H p \<longleftrightarrow>
    list_all (\<lambda>d. systemBar (ds ! d) = p \<or> dmaBar (ds ! d) = p \<longrightarrow> DevMutex d \<in> H) [0..<length ds]"

fun lock_step :: "mtcaDummyData list \<Rightarrow> event \<Rightarrow> mutex set \<Rightarrow> mutex set option" where
  "lock_step ds (Acquire m) H = (if \<forall>h \<in> H. h < m then Some (insert m H) else None)"
| "lock_step ds (Release m) H = (if m \<in> H then Some (H - {m}) else None)"
| "lock_step ds (Access p) H = (if guarded ds H p then Some H else None)"
| "lock_step ds Flags H = (if ControlMutex \<in> H then Some H else None)"

fun lock_run :: "mtcaDummyData list \<Rightarrow> event list \<Rightarrow> mutex set \<Rightarrow> mutex set option" where
  "lock_run ds [] H = Some H"
| "lock_run ds (e # es) H = lock_step ds e H \<bind> lock_run ds es"

definition disciplined :: "sys \<Rightarrow> bool" where
  "disciplined s \<longleftrightarrow> lock_run (devs s) (log s) {} = Some (held s)"

lemma lock_run_append:
  "lock_run ds (xs @ ys) H = lock_run ds xs H \<bind> lock_run ds ys"
proof (induction xs arbitrary: H)
  case (Cons x xs)
  then show ?case by (cases "lock_step ds x H") simp_all
qed simp

lemma lock_run_snoc [simp]:
  "lock_run ds es H = Some H' \<Longrightarrow> lock_run ds (es @ [e]) H = lock_step ds e H'"
  by (cases "lock_step ds e H'") (simp_all add: lock_run_append)

section \<open>Facts about well-formed states\<close>

lemma wf_length_devs: "wf_sys s \<Longrightarrow> length (devs s) = MTCADUMMY_NR_DEVS"
  by (simp add: wf_sys_def)

lemma wf_slotNr: "wf_sys s \<Longrightarrow> d < MTCADUMMY_NR_DEVS \<Longrightarrow> slotNr (devs s ! d) = of_nat d"
  by (simp add: wf_sys_def)

lemma unat_slot [simp]: "d < MTCADUMMY_NR_DEVS \<Longrightarrow> unat (of_nat d :: u32) = d"
  by (simp add: size_defs unat_of_nat)

lemma wf_unat_slotNr: "wf_sys s \<Longrightarrow> d < MTCADUMMY_NR_DEVS \<Longrightarrow> unat (slotNr (devs s ! d)) = d"
  by (simp add: wf_slotNr)

lemma wf_dev_at: "wf_sys s \<Longrightarrow> d < MTCADUMMY_NR_DEVS \<Longrightarrow> dev_at s d = Some (devs s ! d)"
  by (simp add: dev_at_def wf_length_devs)

lemma has_block_Some: "has_block h p n \<Longrightarrow> h p = Some (block h p)"
  by (auto simp: has_block_def block_def split: option.splits)

lemma has_block_length: "has_block h p n \<Longrightarrow> length (block h p) = n"
  by (auto simp: has_block_def block_def split: option.splits)

lemma wf_system_block:
  "wf_sys s \<Longrightarrow> d < MTCADUMMY_NR_DEVS \<Longrightarrow> heap s (systemBar (devs s ! d)) = Some (regs s d)"
  by (auto simp: wf_sys_def regs_def intro: has_block_Some has_block_length)

lemma wf_dma_block:
  "wf_sys s \<Longrightarrow> d < MTCADUMMY_NR_DEVS \<Longrightarrow> heap s (dmaBar (devs s ! d)) = Some (dma s d)"
  by (auto simp: wf_sys_def dma_def intro: has_block_Some has_block_length)

lemma wf_length_regs: "wf_sys s \<Longrightarrow> d < MTCADUMMY_NR_DEVS \<Longrightarrow> length (regs s d) = MTCADUMMY_N_REGISTERS"
  by (auto simp: wf_sys_def regs_def intro: has_block_Some has_block_length)

lemma wf_length_dma: "wf_sys s \<Longrightarrow> d < MTCADUMMY_NR_DEVS \<Longrightarrow> length (dma s d) = DMA_WORDS"
  by (auto simp: wf_sys_def dma_def intro: has_block_Some has_block_length)

text \<open>No two bars share a block: neither two bars of one device nor bars of two devices.\<close>

lemma wf_system_neq_dma:
  assumes "wf_sys s" "d < MTCADUMMY_NR_DEVS" "e < MTCADUMMY_NR_DEVS"
  shows "systemBar (devs s ! d) \<noteq> dmaBar (devs s ! e)"
proof -
  from assms have "systemBar (devs s ! d) \<in> systemBar ` set (devs s)"
    and "dmaBar (devs s ! e) \<in> dmaBar ` set (devs s)"
    by (auto simp: wf_length_devs)
  with assms(1) show ?thesis by (force simp: wf_sys_def bar_blocks_def)
qed

lemma wf_system_inj:
  assumes "wf_sys s" "d < MTCADUMMY_NR_DEVS" "e < MTCADUMMY_NR_DEVS"
  shows "systemBar (devs s ! d) = systemBar (devs s ! e) \<longleftrightarrow> d = e"
proof -
  from assms(1) have "distinct (map systemBar (devs s))" by (simp add: wf_sys_def bar_blocks_def)
  then show ?thesis
    using assms by (auto simp: distinct_conv_nth wf_length_devs)
qed

lemma wf_dma_inj:
  assumes "wf_sys s" "d < MTCADUMMY_NR_DEVS" "e < MTCADUMMY_NR_DEVS"
  shows "dmaBar (devs s ! d) = dmaBar (devs s ! e) \<longleftrightarrow> d = e"
proof -
  from assms(1) have "distinct (map dmaBar (devs s))" by (simp add: wf_sys_def bar_blocks_def)
  then show ?thesis
    using assms by (auto simp: distinct_conv_nth wf_length_devs)
qed

lemma wf_bar_not_NULL:
  assumes "wf_sys s" "d < MTCADUMMY_NR_DEVS"
  shows "systemBar (devs s ! d) \<noteq> NULL" and "dmaBar (devs s ! d) \<noteq> NULL"
proof -
  have "systemBar (devs s ! d) \<in> set (bar_blocks (devs s))"
    and "dmaBar (devs s ! d) \<in> set (bar_blocks (devs s))"
    using assms by (auto simp: bar_blocks_def wf_length_devs)
  with assms(1) show "systemBar (devs s ! d) \<noteq> NULL" "dmaBar (devs s ! d) \<noteq> NULL"
    by (auto simp: wf_sys_def)
qed

section \<open>Effects of the primitives, named\<close>

text \<open>
  Every primitive leaves one of the following states. Their projections are simplifier
  rules, so that a run of a handler is computed by rewriting.
\<close>

definition count_call :: "sys \<Rightarrow> sys" where
  "count_call s = s\<lparr>tick := Suc (tick s)\<rparr>"

definition take_lock :: "mutex \<Rightarrow> sys \<Rightarrow> sys" where
  "take_lock m s = s\<lparr>tick := Suc (tick s), held := insert m (held s), log := log s @ [Acquire m]\<rparr>"

definition drop_lock :: "mutex \<Rightarrow> sys \<Rightarrow> sys" where
  "drop_lock m s = s\<lparr>held := held s - {m}, log := log s @ [Release m]\<rparr>"

definition note_flags :: "sys \<Rightarrow> sys" where
  "note_flags s = s\<lparr>log := log s @ [Flags]\<rparr>"

definition put_user :: "umem \<Rightarrow> sys \<Rightarrow> sys" where
  "put_user m s = s\<lparr>umem := m, tick := Suc (tick s)\<rparr>"

definition put_block :: "ptr \<Rightarrow> u32 list \<Rightarrow> sys \<Rightarrow> sys" where
  "put_block p ws s = s\<lparr>heap := (heap s)(p \<mapsto> ws), log := log s @ [Access p]\<rparr>"

definition put_regs :: "nat \<Rightarrow> u32 list \<Rightarrow> sys \<Rightarrow> sys" where
  "put_regs d ws s = put_block (systemBar (devs s ! d)) ws s"

definition put_dma :: "nat \<Rightarrow> u32 list \<Rightarrow> sys \<Rightarrow> sys" where
  "put_dma d ws s = put_block (dmaBar (devs s ! d)) ws s"

lemmas effect_defs = count_call_def take_lock_def drop_lock_def note_flags_def put_user_def
  put_regs_def put_dma_def put_block_def

lemma effects_devs [simp]:
  "devs (count_call s) = devs s" "devs (take_lock m s) = devs s" "devs (drop_lock m s) = devs s"
  "devs (note_flags s) = devs s" "devs (put_user u s) = devs s"
  "devs (put_regs d ws s) = devs s" "devs (put_dma d ws s) = devs s"
  by (simp_all add: effect_defs)

lemma effects_control [simp]:
  "control (count_call s) = control s" "control (take_lock m s) = control s"
  "control (drop_lock m s) = control s" "control (note_flags s) = control s"
  "control (put_user u s) = control s"
  "control (put_regs d ws s) = control s" "control (put_dma d ws s) = control s"
  by (simp_all add: effect_defs)

lemma effects_registered [simp]:
  "registered (count_call s) = registered s" "registered (take_lock m s) = registered s"
  "registered (drop_lock m s) = registered s" "registered (note_flags s) = registered s"
  "registered (put_user u s) = registered s"
  "registered (put_regs d ws s) = registered s" "registered (put_dma d ws s) = registered s"
  by (simp_all add: effect_defs)

lemma effects_umem [simp]:
  "umem (count_call s) = umem s" "umem (take_lock m s) = umem s" "umem (drop_lock m s) = umem s"
  "umem (note_flags s) = umem s" "umem (put_user u s) = u"
  "umem (put_regs d ws s) = umem s" "umem (put_dma d ws s) = umem s"
  by (simp_all add: effect_defs)

lemma effects_held [simp]:
  "held (count_call s) = held s" "held (take_lock m s) = insert m (held s)"
  "held (drop_lock m s) = held s - {m}" "held (note_flags s) = held s"
  "held (put_user u s) = held s" "held (put_regs d ws s) = held s" "held (put_dma d ws s) = held s"
  by (simp_all add: effect_defs)

lemma effects_tick [simp]:
  "tick (count_call s) = Suc (tick s)" "tick (take_lock m s) = Suc (tick s)"
  "tick (drop_lock m s) = tick s" "tick (note_flags s) = tick s"
  "tick (put_user u s) = Suc (tick s)" "tick (put_regs d ws s) = tick s"
  "tick (put_dma d ws s) = tick s"
  by (simp_all add: effect_defs)

lemma effects_heap [simp]:
  "heap (count_call s) = heap s" "heap (take_lock m s) = heap s" "heap (drop_lock m s) = heap s"
  "heap (note_flags s) = heap s" "heap (put_user u s) = heap s"
  by (simp_all add: effect_defs)

lemma effects_regs [simp]:
  "regs (count_call s) d = regs s d" "regs (take_lock m s) d = regs s d"
  "regs (drop_lock m s) d = regs s d" "regs (note_flags s) d = regs s d"
  "regs (put_user u s) d = regs s d"
  by (simp_all add: regs_def)

lemma effects_dma [simp]:
  "dma (count_call s) d = dma s d" "dma (take_lock m s) d = dma s d"
  "dma (drop_lock m s) d = dma s d" "dma (note_flags s) d = dma s d"
  "dma (put_user u s) d = dma s d"
  by (simp_all add: dma_def)

lemma effects_wf [simp]:
  "wf_sys (count_call s) = wf_sys s" "wf_sys (take_lock m s) = wf_sys s"
  "wf_sys (drop_lock m s) = wf_sys s" "wf_sys (note_flags s) = wf_sys s"
  "wf_sys (put_user u s) = wf_sys s"
  by (simp_all add: wf_sys_def)

section \<open>The running module and the holder of a device\<close>

definition live :: "sys \<Rightarrow> bool" where
  "live s \<longleftrightarrow> wf_sys s \<and> disciplined s"

text \<open>The caller holds the mutex of the device \<open>d\<close>.\<close>

definition ready :: "nat \<Rightarrow> sys \<Rightarrow> bool" where
  "ready d s \<longleftrightarrow> live s \<and> d < MTCADUMMY_NR_DEVS \<and> DevMutex d \<in> held s"

text \<open>No mutex is held: the state between two calls of the driver.\<close>

definition idle :: "sys \<Rightarrow> bool" where
  "idle s \<longleftrightarrow> live s \<and> held s = {}"

lemma idleD: "idle s \<Longrightarrow> held s = {}" "idle s \<Longrightarrow> live s"
  by (simp_all add: idle_def)

lemma less_ControlMutex [simp]: "m < ControlMutex \<longleftrightarrow> m \<noteq> ControlMutex"
  by (cases m) simp_all

lemma live_count_call [simp]: "live (count_call s) = live s"
  by (simp add: live_def disciplined_def) (simp add: effect_defs)

lemma live_put_user [simp]: "live (put_user u s) = live s"
  by (simp add: live_def disciplined_def) (simp add: effect_defs)

lemma live_take_lock [simp]: "live s \<Longrightarrow> \<forall>h \<in> held s. h < m \<Longrightarrow> live (take_lock m s)"
  by (simp add: live_def disciplined_def take_lock_def wf_sys_def)

lemma live_drop_lock [simp]: "live s \<Longrightarrow> m \<in> held s \<Longrightarrow> live (drop_lock m s)"
  by (simp add: live_def disciplined_def drop_lock_def wf_sys_def)

lemma live_note_flags [simp]: "live s \<Longrightarrow> ControlMutex \<in> held s \<Longrightarrow> live (note_flags s)"
  by (simp add: live_def disciplined_def note_flags_def wf_sys_def)

lemma ready_keeps [simp]:
  "ready d (count_call s) = ready d s" "ready d (put_user u s) = ready d s"
  "ready d s \<Longrightarrow> \<forall>h \<in> held s. h < m \<Longrightarrow> ready d (take_lock m s)"
  "ready d s \<Longrightarrow> m \<in> held s \<Longrightarrow> m \<noteq> DevMutex d \<Longrightarrow> ready d (drop_lock m s)"
  "ready d s \<Longrightarrow> ControlMutex \<in> held s \<Longrightarrow> ready d (note_flags s)"
  by (auto simp: ready_def)

lemma readyD:
  assumes "ready d s"
  shows "wf_sys s" and "live s" and "d < MTCADUMMY_NR_DEVS" and "DevMutex d \<in> held s"
    and "dev_at s d = Some (devs s ! d)" and "unat (slotNr (devs s ! d)) = d"
    and "slotNr (devs s ! d) = of_nat d"
    and "heap s (systemBar (devs s ! d)) = Some (regs s d)"
    and "heap s (dmaBar (devs s ! d)) = Some (dma s d)"
    and "length (regs s d) = MTCADUMMY_N_REGISTERS" and "length (dma s d) = DMA_WORDS"
    and "systemBar (devs s ! d) \<noteq> NULL" and "dmaBar (devs s ! d) \<noteq> NULL"
  using assms
  by (auto simp: ready_def live_def wf_dev_at wf_unat_slotNr wf_slotNr wf_system_block wf_dma_block
      wf_length_regs wf_length_dma wf_bar_not_NULL)

section \<open>Writing the bars of a device\<close>

lemma guarded_bars:
  assumes "ready d s"
  shows "guarded (devs s) (held s) (systemBar (devs s ! d))"
    and "guarded (devs s) (held s) (dmaBar (devs s ! d))"
proof -
  note w = readyD(1,3,4) [OF assms]
  have "e = d" if "e < length (devs s)" "systemBar (devs s ! e) = systemBar (devs s ! d) \<or>
      dmaBar (devs s ! e) = systemBar (devs s ! d)" for e
    using that w by (metis wf_length_devs wf_system_inj wf_system_neq_dma)
  with w(3) show "guarded (devs s) (held s) (systemBar (devs s ! d))"
    unfolding guarded_def list_all_iff by (metis atLeastLessThan_iff set_upt)
  have "e = d" if "e < length (devs s)" "systemBar (devs s ! e) = dmaBar (devs s ! d) \<or>
      dmaBar (devs s ! e) = dmaBar (devs s ! d)" for e
    using that w by (metis wf_length_devs wf_dma_inj wf_system_neq_dma)
  with w(3) show "guarded (devs s) (held s) (dmaBar (devs s ! d))"
    unfolding guarded_def list_all_iff by (metis atLeastLessThan_iff set_upt)
qed

lemma wf_put_block:
  assumes "wf_sys s" and "heap s p = Some vs" and "length ws = length vs"
  shows "wf_sys (put_block p ws s)"
proof -
  have "has_block ((heap s)(p \<mapsto> ws)) q n = has_block (heap s) q n" for q n
    using assms(2,3) by (simp add: has_block_def)
  with assms(1) show ?thesis by (simp add: wf_sys_def put_block_def)
qed

lemma disciplined_put_block:
  "disciplined s \<Longrightarrow> guarded (devs s) (held s) p \<Longrightarrow> disciplined (put_block p ws s)"
  by (simp add: disciplined_def put_block_def)

lemma ready_put [simp]:
  assumes "ready d s"
  shows "length ws = MTCADUMMY_N_REGISTERS \<Longrightarrow> ready d (put_regs d ws s)"
    and "length ws = DMA_WORDS \<Longrightarrow> ready d (put_dma d ws s)"
  using assms guarded_bars [OF assms] readyD(8-11) [OF assms]
  by (auto simp: ready_def live_def put_regs_def put_dma_def
      intro: wf_put_block disciplined_put_block) (simp_all add: put_block_def)

lemma wf_put [simp]:
  assumes "ready d s"
  shows "length ws = MTCADUMMY_N_REGISTERS \<Longrightarrow> wf_sys (put_regs d ws s)"
    and "length ws = DMA_WORDS \<Longrightarrow> wf_sys (put_dma d ws s)"
  by (rule readyD(1) [of d], simp add: assms)+

lemma bars_put [simp]:
  assumes "ready d s"
  shows "regs (put_regs d ws s) d = ws" and "dma (put_regs d ws s) d = dma s d"
    and "dma (put_dma d ws s) d = ws" and "regs (put_dma d ws s) d = regs s d"
  using wf_system_neq_dma [OF readyD(1,3,3) [OF assms]]
  by (simp_all add: regs_def dma_def block_def effect_defs)

lemma bars_put_other [simp]:
  assumes "ready d s" and "e < MTCADUMMY_NR_DEVS" and "e \<noteq> d"
  shows "regs (put_regs d ws s) e = regs s e" and "dma (put_regs d ws s) e = dma s e"
    and "dma (put_dma d ws s) e = dma s e" and "regs (put_dma d ws s) e = regs s e"
proof -
  note w = readyD(1) [OF assms(1)] and d = readyD(3) [OF assms(1)]
  from wf_system_inj [OF w assms(2) d] wf_dma_inj [OF w assms(2) d]
    wf_system_neq_dma [OF w assms(2) d] wf_system_neq_dma [OF w d assms(2)] assms(3)
  show "regs (put_regs d ws s) e = regs s e" and "dma (put_regs d ws s) e = dma s e"
    and "dma (put_dma d ws s) e = dma s e" and "regs (put_dma d ws s) e = regs s e"
    by (auto simp: regs_def dma_def block_def effect_defs)
qed

section \<open>Running the primitives\<close>

named_theorems exec "results of the primitives in a good state"

lemma lock_exec [exec]:
  "m \<notin> held s \<Longrightarrow> k_lock K (tick s) m = 0 \<Longrightarrow>
    mutex_lock_interruptible K m s = Some (0, take_lock m s)"
  "m \<notin> held s \<Longrightarrow> k_lock K (tick s) m \<noteq> 0 \<Longrightarrow>
    mutex_lock_interruptible K m s = Some (k_lock K (tick s) m, count_call s)"
  by (simp_all add: mutex_lock_interruptible_def effect_defs)

lemma lock_wp [wp]:
  "ensures (mutex_lock_interruptible K m s) P \<longleftrightarrow>
    m \<notin> held s \<and>
    (k_lock K (tick s) m = 0 \<longrightarrow> P 0 (take_lock m s)) \<and>
    (k_lock K (tick s) m \<noteq> 0 \<longrightarrow> P (k_lock K (tick s) m) (count_call s))"
  by (simp add: mutex_lock_interruptible_def effect_defs Let_def)

lemma unlock_exec [exec]: "m \<in> held s \<Longrightarrow> mutex_unlock m s = Some ((), drop_lock m s)"
  by (simp add: mutex_unlock_def drop_lock_def)

lemma unlock_wp [wp]: "ensures (mutex_unlock m s) P \<longleftrightarrow> m \<in> held s \<and> P () (drop_lock m s)"
  by (simp add: mutex_unlock_def drop_lock_def)

lemma read_control_exec [exec]: "read_control f s = Some (f (control s), note_flags s)"
  by (simp add: read_control_def note_flags_def)

lemma copy_from_user_exec [exec]:
  "copy_from_user K a n s = Some (k_copy_from_user K (tick s) (umem s) a n, count_call s)"
  by (simp add: copy_from_user_def count_call_def)

lemma copy_to_user_exec [exec]:
  "copy_to_user K a bs s =
    Some (snd (k_copy_to_user K (tick s) (umem s) a bs),
      put_user (fst (k_copy_to_user K (tick s) (umem s) a bs)) s)"
  by (simp add: copy_to_user_def put_user_def split: prod.split)

lemma load_exec [exec]:
  assumes "ready d s" and "devs s = ds"
  shows "i < MTCADUMMY_N_REGISTERS \<Longrightarrow>
      load (systemBar (ds ! d)) i s = Some (regs s d ! i, put_regs d (regs s d) s)"
    and "i < DMA_WORDS \<Longrightarrow>
      load (dmaBar (ds ! d)) i s = Some (dma s d ! i, put_dma d (dma s d) s)"
  using assms readyD(8-11) [OF assms(1)]
  by (auto simp: load_def effect_defs fun_upd_idem)

lemma store_exec [exec]:
  assumes "ready d s" and "devs s = ds"
  shows "i < MTCADUMMY_N_REGISTERS \<Longrightarrow>
      store (systemBar (ds ! d)) i v s = Some ((), put_regs d ((regs s d)[i := v]) s)"
    and "i < DMA_WORDS \<Longrightarrow>
      store (dmaBar (ds ! d)) i v s = Some ((), put_dma d ((dma s d)[i := v]) s)"
  using assms readyD(8-11) [OF assms(1)]
  by (auto simp: store_def effect_defs)

lemma load_bytes_exec [exec]:
  assumes "ready d s" and "devs s = ds" and "4 * i + n \<le> MTCADUMMY_DMA_SIZE"
  shows "load_bytes (dmaBar (ds ! d)) i n s =
    Some (take n (drop (4 * i) (bytes_of_words (dma s d))), put_dma d (dma s d) s)"
  using assms readyD(8-11) [OF assms(1)]
  by (auto simp: load_bytes_def effect_defs fun_upd_idem size_defs)

section \<open>The interface of a store of words\<close>

text \<open>
  What the firmware relies on when it works on a bar through a pointer: a load gives the
  cell and a store changes this cell only, as long as the index is within the block;
  outside of it both have no defined result.
\<close>

locale word_store =
  fixes ld :: "'p \<Rightarrow> nat \<Rightarrow> 's \<Rightarrow> (u32 \<times> 's) option"
    and st :: "'p \<Rightarrow> nat \<Rightarrow> u32 \<Rightarrow> 's \<Rightarrow> (unit \<times> 's) option"
    and cells :: "'s \<Rightarrow> 'p \<Rightarrow> u32 list option"
    and rest :: "'s \<Rightarrow> 'r"
    and licensed :: "'s \<Rightarrow> 'p \<Rightarrow> bool"
  assumes ld_law: "cells s p = Some ws \<Longrightarrow> i < length ws \<Longrightarrow> licensed s p \<Longrightarrow>
      ensures (ld p i s) (\<lambda>v t. v = ws ! i \<and> cells t = cells s \<and> rest t = rest s \<and> licensed t p)"
    and st_law: "cells s p = Some ws \<Longrightarrow> i < length ws \<Longrightarrow> licensed s p \<Longrightarrow>
      ensures (st p i v s)
        (\<lambda>_ t. cells t = (cells s)(p \<mapsto> ws[i := v]) \<and> rest t = rest s \<and> licensed t p)"
    and ld_bound: "ensures (ld p i s) P \<Longrightarrow> \<exists>ws. cells s p = Some ws \<and> i < length ws"
    and st_bound: "ensures (st p i v s) R \<Longrightarrow> \<exists>ws. cells s p = Some ws \<and> i < length ws"
begin

text \<open>A loop that assigns \<open>f i\<close> to the first \<open>n\<close> cells of a block.\<close>

lemma fill_loop:
  assumes "cells s p = Some ws" and "n \<le> length ws" and "licensed s p"
  shows "ensures (for_loop (\<lambda>i s. do { (_, s) \<leftarrow> st p i (f i) s; Some (0, s) }) 0 n s)
    (\<lambda>r t. r = 0 \<and> cells t = (cells s)(p \<mapsto> map f [0..<n] @ drop n ws) \<and>
      rest t = rest s \<and> licensed t p)"
proof -
  let ?ws = "\<lambda>i. map f [0..<i] @ drop i ws"
  let ?I = "\<lambda>i t. cells t = (cells s)(p \<mapsto> ?ws i) \<and> rest t = rest s \<and> licensed t p"
  have upd: "(?ws i)[i := f i] = ?ws (Suc i)" if "i < n" for i
    using that assms(2) by (simp add: list_update_append Cons_nth_drop_Suc [symmetric])
  have body: "loop_body (\<lambda>i s. do { (_, s) \<leftarrow> st p i (f i) s; Some (0, s) }) n ?I (\<lambda>r t. False)"
  proof
    fix i t assume i: "i < n" and I: "?I i t"
    then have "ensures (st p i (f i) t)
      (\<lambda>_ u. cells u = (cells t)(p \<mapsto> (?ws i)[i := f i]) \<and> rest u = rest t \<and> licensed u p)"
      by (intro st_law) (use assms(2) in auto)
    then have "ensures (st p i (f i) t) (\<lambda>_ u. ?I (Suc i) u)"
      by (rule ensures_mono) (use I upd [OF i] in simp)
    then show "ensures (do { (_, s) \<leftarrow> st p i (f i) t; Some (0, s) })
        (\<lambda>r t'. if r = 0 then ?I (Suc i) t' else False)"
      by (simp only: wp) simp
  qed
  have "(cells s)(p \<mapsto> ws) = cells s"
    using assms(1) by (rule fun_upd_idem)
  then have "?I 0 s" using assms by simp
  from loop_body.loop_total [OF body this] show ?thesis
    by (rule ensures_mono) (simp add: fun_upd_def split: if_splits)
qed

end

definition rest_of :: "sys \<Rightarrow> sys" where
  "rest_of s = s\<lparr>heap := Map.empty, log := []\<rparr>"

definition licensed :: "sys \<Rightarrow> ptr \<Rightarrow> bool" where
  "licensed s p \<longleftrightarrow> disciplined s \<and> guarded (devs s) (held s) p"

interpretation mem: word_store load store heap rest_of licensed
proof
  fix s p ws i v
  assume *: "heap s p = Some ws" "i < length ws" "licensed s p"
  then show "ensures (load p i s)
      (\<lambda>v t. v = ws ! i \<and> heap t = heap s \<and> rest_of t = rest_of s \<and> licensed t p)"
    by (simp add: load_def rest_of_def licensed_def disciplined_def)
  from * show "ensures (store p i v s)
      (\<lambda>_ t. heap t = (heap s)(p \<mapsto> ws[i := v]) \<and> rest_of t = rest_of s \<and> licensed t p)"
    by (simp add: store_def rest_of_def licensed_def disciplined_def)
next
  fix s p i P
  assume "ensures (load p i s) P"
  then show "\<exists>ws. heap s p = Some ws \<and> i < length ws"
    by (auto simp: load_def split: option.splits if_splits)
next
  fix s p i v R
  assume "ensures (store p i v s) R"
  then show "\<exists>ws. heap s p = Some ws \<and> i < length ws"
    by (auto simp: store_def split: option.splits if_splits)
qed

lemma rest_of_D:
  assumes "rest_of t = rest_of s"
  shows "devs t = devs s" and "control t = control s" and "umem t = umem s"
    and "held t = held s" and "tick t = tick s" and "registered t = registered s"
  using assms by (auto simp: rest_of_def dest: arg_cong [where f = devs] arg_cong [where f = control]
      arg_cong [where f = umem] arg_cong [where f = held] arg_cong [where f = tick]
      arg_cong [where f = registered])

lemma ready_licensed: "ready d s \<Longrightarrow> licensed s (systemBar (devs s ! d)) \<and> licensed s (dmaBar (devs s ! d))"
  by (simp add: licensed_def guarded_bars) (simp add: ready_def live_def)

section \<open>Steps that touch one device only\<close>

text \<open>
  \<open>on_device d s t\<close>: between \<open>s\<close> and \<open>t\<close> at most the bars of the device \<open>d\<close> have
  changed (and the log), and the caller still holds the mutex of \<open>d\<close> and nothing else
  than before.
\<close>

definition on_device :: "nat \<Rightarrow> sys \<Rightarrow> sys \<Rightarrow> bool" where
  "on_device d s t \<longleftrightarrow>
    ready d t \<and> devs t = devs s \<and> control t = control s \<and> umem t = umem s \<and>
    held t = held s \<and> registered t = registered s \<and>
    (\<forall>e < MTCADUMMY_NR_DEVS. e \<noteq> d \<longrightarrow> regs t e = regs s e \<and> dma t e = dma s e)"

lemma on_device_refl [simp]: "on_device d s s = ready d s"
  by (auto simp: on_device_def)

lemma on_device_trans: "on_device d s t \<Longrightarrow> on_device d t u \<Longrightarrow> on_device d s u"
  by (auto simp: on_device_def)

lemma on_device_put [simp]:
  "on_device d s t \<Longrightarrow> length ws = MTCADUMMY_N_REGISTERS \<Longrightarrow> on_device d s (put_regs d ws t)"
  "on_device d s t \<Longrightarrow> length ws = DMA_WORDS \<Longrightarrow> on_device d s (put_dma d ws t)"
  by (auto simp: on_device_def)

lemma on_device_count_call [simp]: "on_device d s (count_call t) = on_device d s t"
  by (auto simp: on_device_def)

text \<open>A step through a pointer to one of the bars of the device.\<close>

lemma on_device_dma_block:
  assumes "ready d s" and "heap t = (heap s)(dmaBar (devs s ! d) \<mapsto> ws)"
    and "rest_of t = rest_of s" and "licensed t (dmaBar (devs s ! d))" and "length ws = DMA_WORDS"
  shows "on_device d s t \<and> regs t d = regs s d \<and> dma t d = ws"
proof -
  let ?u = "put_dma d ws s"
  have h: "heap t = heap ?u" and "devs t = devs ?u" "held t = held ?u" "control t = control ?u"
    "umem t = umem ?u" "registered t = registered ?u"
    using assms(2) rest_of_D [OF assms(3)] by (simp_all add: put_dma_def put_block_def)
  moreover from this have "regs t e = regs ?u e" "dma t e = dma ?u e" for e
    by (simp_all add: regs_def dma_def)
  moreover have "ready d ?u" using assms by simp
  ultimately show ?thesis
    using assms(1,4) by (auto simp: on_device_def ready_def live_def wf_sys_def licensed_def)
qed

end
