(* ===== verification/Firmware.thy ===== *)
theory Firmware
  imports Driver_State
begin

text \<open>
  The simulated firmware of \<open>mtcadummy_firmware.c\<close>: the meaning of the registers, the
  initial contents of the system bar and the actions that reads and writes of registers
  trigger. The specification \<open>spec_action\<close> describes the actions on plain register
  lists; \<open>performActionOnWrite_refines\<close> shows that the C function, with its pointers,
  its loop and its lock, implements it.
\<close>

section \<open>The register map of mtcadummy_firmware.h\<close>

definition MTCADUMMY_WORD_FIRMWARE :: u32 where "MTCADUMMY_WORD_FIRMWARE = 0x00"
definition MTCADUMMY_WORD_COMPILATION :: u32 where "MTCADUMMY_WORD_COMPILATION = 0x04"
definition MTCADUMMY_WORD_STATUS :: u32 where "MTCADUMMY_WORD_STATUS = 0x08"
definition MTCADUMMY_WORD_USER :: u32 where "MTCADUMMY_WORD_USER = 0x0C"
definition MTCADUMMY_WORD_CLK_CNT_0 :: u32 where "MTCADUMMY_WORD_CLK_CNT_0 = 0x10"
definition MTCADUMMY_WORD_CLK_CNT_1 :: u32 where "MTCADUMMY_WORD_CLK_CNT_1 = 0x14"
definition MTCADUMMY_WORD_CLK_MUX_0 :: u32 where "MTCADUMMY_WORD_CLK_MUX_0 = 0x20"
definition MTCADUMMY_WORD_CLK_MUX_1 :: u32 where "MTCADUMMY_WORD_CLK_MUX_1 = 0x24"
definition MTCADUMMY_WORD_CLK_MUX_2 :: u32 where "MTCADUMMY_WORD_CLK_MUX_2 = 0x28"
definition MTCADUMMY_WORD_CLK_MUX_3 :: u32 where "MTCADUMMY_WORD_CLK_MUX_3 = 0x2C"
definition MTCADUMMY_WORD_DUMMY :: u32 where "MTCADUMMY_WORD_DUMMY = 0x3C"
definition MTCADUMMY_WORD_CLK_RST :: u32 where "MTCADUMMY_WORD_CLK_RST = 0x40"
definition MTCADUMMY_WORD_ADC_ENA :: u32 where "MTCADUMMY_WORD_ADC_ENA = 0x44"
definition MTCADUMMY_BROKEN_REGISTER :: u32 where "MTCADUMMY_BROKEN_REGISTER = 0x48"
definition MTCADUMMY_BROKEN_WRITE :: u32 where "MTCADUMMY_BROKEN_WRITE = 0x4C"
definition MTCADUMMY_WORD_SPI_WRITE :: u32 where "MTCADUMMY_WORD_SPI_WRITE = 0x50"
definition MTCADUMMY_WORD_SPI_READ :: u32 where "MTCADUMMY_WORD_SPI_READ = 0x54"
definition MTCADUMMY_WORD_SPI_SYNC :: u32 where "MTCADUMMY_WORD_SPI_SYNC = 0x58"

definition MTCADUMMY_SPI_SYNC_OK :: u32 where "MTCADUMMY_SPI_SYNC_OK = 0"
definition MTCADUMMY_SPI_SYNC_REQUESTED :: u32 where "MTCADUMMY_SPI_SYNC_REQUESTED = 0xFF"
definition MTCADUMMY_SPI_SYNC_ERROR :: u32 where "MTCADUMMY_SPI_SYNC_ERROR = 0xAA"

lemmas register_defs =
  MTCADUMMY_WORD_FIRMWARE_def MTCADUMMY_WORD_COMPILATION_def MTCADUMMY_WORD_STATUS_def
  MTCADUMMY_WORD_USER_def MTCADUMMY_WORD_CLK_CNT_0_def MTCADUMMY_WORD_CLK_CNT_1_def
  MTCADUMMY_WORD_CLK_MUX_0_def MTCADUMMY_WORD_CLK_MUX_1_def MTCADUMMY_WORD_CLK_MUX_2_def
  MTCADUMMY_WORD_CLK_MUX_3_def MTCADUMMY_WORD_DUMMY_def MTCADUMMY_WORD_CLK_RST_def
  MTCADUMMY_WORD_ADC_ENA_def MTCADUMMY_BROKEN_REGISTER_def MTCADUMMY_BROKEN_WRITE_def
  MTCADUMMY_WORD_SPI_WRITE_def MTCADUMMY_WORD_SPI_READ_def MTCADUMMY_WORD_SPI_SYNC_def

text \<open>The index of the word at a byte address: \<open>REG(mem, addr)\<close> is \<open>mem[REG addr]\<close>.\<close>

definition REG :: "u32 \<Rightarrow> nat" where
  "REG addr = unat (addr div 4)"

lemma REG_simps [simp]:
  "REG MTCADUMMY_WORD_FIRMWARE = 0" "REG MTCADUMMY_WORD_COMPILATION = 1"
  "REG MTCADUMMY_WORD_STATUS = 2" "REG MTCADUMMY_WORD_USER = 3"
  "REG MTCADUMMY_WORD_CLK_CNT_0 = 4" "REG MTCADUMMY_WORD_CLK_CNT_1 = 5"
  "REG MTCADUMMY_WORD_CLK_MUX_0 = 8" "REG MTCADUMMY_WORD_CLK_MUX_1 = 9"
  "REG MTCADUMMY_WORD_CLK_MUX_2 = 10" "REG MTCADUMMY_WORD_CLK_MUX_3 = 11"
  "REG MTCADUMMY_WORD_DUMMY = 15" "REG MTCADUMMY_WORD_CLK_RST = 16"
  "REG MTCADUMMY_WORD_ADC_ENA = 17" "REG MTCADUMMY_BROKEN_REGISTER = 18"
  "REG MTCADUMMY_BROKEN_WRITE = 19" "REG MTCADUMMY_WORD_SPI_WRITE = 20"
  "REG MTCADUMMY_WORD_SPI_READ = 21" "REG MTCADUMMY_WORD_SPI_SYNC = 22"
  by (simp_all add: REG_def register_defs unat_div)

section \<open>The functions of mtcadummy_firmware.c\<close>

definition mtcadummy_initialiseSystemBar :: "kernel \<Rightarrow> ptr \<Rightarrow> sys \<Rightarrow> (unit \<times> sys) option" where
  "mtcadummy_initialiseSystemBar K systemBarBaseAddress s = do {
     (_, s) \<leftarrow> store systemBarBaseAddress (REG MTCADUMMY_WORD_FIRMWARE) (VERSION_MAJ K) s;
     (_, s) \<leftarrow> store systemBarBaseAddress (REG MTCADUMMY_WORD_COMPILATION) (VERSION_MIN K) s;
     (_, s) \<leftarrow> store systemBarBaseAddress (REG MTCADUMMY_WORD_STATUS) 0 s;
     (_, s) \<leftarrow> store systemBarBaseAddress (REG MTCADUMMY_WORD_USER) 0 s;
     (_, s) \<leftarrow> store systemBarBaseAddress (REG MTCADUMMY_WORD_DUMMY) MTCADUMMY_DMMY_AS_ASCII s;
     (_, s) \<leftarrow> store systemBarBaseAddress (REG MTCADUMMY_WORD_CLK_RST) 1 s;
     store systemBarBaseAddress (REG MTCADUMMY_BROKEN_WRITE) MTCADUMMY_BROKEN_WRITE s
   }"

definition nSamples :: nat where "nSamples = 25"

text \<open>The loop that writes the samples. \<open>sample * sample\<close> is an unsigned 32 bit product.\<close>

definition dummy_sampling :: "ptr \<Rightarrow> sys \<Rightarrow> (int \<times> sys) option" where
  "dummy_sampling dmaBarBaseAddress =
     for_loop (\<lambda>sample s. do {
       (_, s) \<leftarrow> store dmaBarBaseAddress sample (of_nat sample * of_nat sample) s;
       Some (0, s) }) 0 nSamples"

definition mtcadummy_performActionOnWrite ::
    "kernel \<Rightarrow> u32 \<Rightarrow> u32 \<Rightarrow> u32 \<Rightarrow> sys \<Rightarrow> (int \<times> sys) option" where
  "mtcadummy_performActionOnWrite K offset barNumber slotNumber s =
    (if barNumber \<noteq> 0 then Some (0, s) else do {
     (locked, s) \<leftarrow> mutex_lock_interruptible K ControlMutex s;
     if locked \<noteq> 0 then Some (- ERESTARTSYS, s) else do {
     (spiFail, s) \<leftarrow> read_control spi_error s;
     (_, s) \<leftarrow> mutex_unlock ControlMutex s;
     data \<leftarrow> dev_at s (unat slotNumber);
     let bar = systemBar data;
     let dmaBarBaseAddress = dmaBar data;
     if offset = MTCADUMMY_WORD_CLK_RST then do {
       (clk_rst, s) \<leftarrow> load bar (REG MTCADUMMY_WORD_CLK_RST) s;
       if clk_rst \<noteq> 0 then do {
         (_, s) \<leftarrow> store bar (REG MTCADUMMY_WORD_CLK_CNT_0) 0 s;
         (_, s) \<leftarrow> store bar (REG MTCADUMMY_WORD_CLK_CNT_1) 0 s;
         (_, s) \<leftarrow> store bar (REG MTCADUMMY_WORD_CLK_MUX_0) 0 s;
         (_, s) \<leftarrow> store bar (REG MTCADUMMY_WORD_CLK_MUX_1) 0 s;
         (_, s) \<leftarrow> store bar (REG MTCADUMMY_WORD_CLK_MUX_2) 0 s;
         (_, s) \<leftarrow> store bar (REG MTCADUMMY_WORD_CLK_MUX_3) 0 s;
         Some (0, s)
       } else Some (0, s)
     }
     else if offset = MTCADUMMY_WORD_ADC_ENA then do {
       (adc_ena, s) \<leftarrow> load bar (REG MTCADUMMY_WORD_ADC_ENA) s;
       if adc_ena \<noteq> 0 then do {
         (_, s) \<leftarrow> dummy_sampling dmaBarBaseAddress s;
         (_, s) \<leftarrow> store bar (REG MTCADUMMY_WORD_CLK_CNT_0) (of_nat nSamples) s;
         (_, s) \<leftarrow> store bar (REG MTCADUMMY_WORD_CLK_RST) 0 s;
         Some (0, s)
       } else Some (0, s)
     }
     else if offset = MTCADUMMY_WORD_FIRMWARE then do {
       (_, s) \<leftarrow> store bar (REG MTCADUMMY_WORD_FIRMWARE) (VERSION_MAJ K) s;
       Some (0, s)
     }
     else if offset = MTCADUMMY_WORD_COMPILATION then do {
       (_, s) \<leftarrow> store bar (REG MTCADUMMY_WORD_COMPILATION) (VERSION_MIN K) s;
       Some (0, s)
     }
     else if offset = MTCADUMMY_WORD_DUMMY then do {
       (_, s) \<leftarrow> store bar (REG MTCADUMMY_WORD_DUMMY) MTCADUMMY_DMMY_AS_ASCII s;
       Some (0, s)
     }
     else if offset = MTCADUMMY_BROKEN_REGISTER \<or> offset = MTCADUMMY_BROKEN_WRITE then
       Some (- 1, s)
     else if offset = MTCADUMMY_WORD_SPI_WRITE then do {
       (spi_sync, s) \<leftarrow> load bar (REG MTCADUMMY_WORD_SPI_SYNC) s;
       if spi_sync = MTCADUMMY_SPI_SYNC_REQUESTED \<and> \<not> spiFail then do {
         (spi_write, s) \<leftarrow> load bar (REG MTCADUMMY_WORD_SPI_WRITE) s;
         (_, s) \<leftarrow> store bar (REG MTCADUMMY_WORD_SPI_READ) spi_write s;
         (_, s) \<leftarrow> store bar (REG MTCADUMMY_WORD_SPI_SYNC) MTCADUMMY_SPI_SYNC_OK s;
         Some (0, s)
       } else do {
         (_, s) \<leftarrow> store bar (REG MTCADUMMY_WORD_SPI_SYNC) MTCADUMMY_SPI_SYNC_ERROR s;
         Some (0, s)
       }
     }
     else Some (0, s)
   }})"

definition mtcadummy_performPreReadAction :: "u32 \<Rightarrow> u32 \<Rightarrow> u32 \<Rightarrow> int" where
  "mtcadummy_performPreReadAction offset barNumber slotNumber =
    (if barNumber \<noteq> 0 then 0
     else if offset = MTCADUMMY_BROKEN_REGISTER then - 1
     else 0)"

section \<open>What the actions do to the bars\<close>

text \<open>
  The contract of a write action on the contents of the two bars of one device: the
  result of the C function, the registers and the DMA area afterwards.
\<close>

definition parabola :: "u32 list \<Rightarrow> u32 list" where
  "parabola ds = map (\<lambda>i. of_nat (i * i)) [0..<nSamples] @ drop nSamples ds"

definition clear_clocks :: "u32 list \<Rightarrow> u32 list" where
  "clear_clocks rs = rs[4 := 0, 5 := 0, 8 := 0, 9 := 0, 10 := 0, 11 := 0]"

definition spec_action ::
    "kernel \<Rightarrow> bool \<Rightarrow> u32 \<Rightarrow> u32 list \<Rightarrow> u32 list \<Rightarrow> int \<times> u32 list \<times> u32 list" where
  "spec_action K spiFail offset rs ds =
    (if offset = MTCADUMMY_WORD_CLK_RST then
       (0, if rs ! 16 = 0 then rs else clear_clocks rs, ds)
     else if offset = MTCADUMMY_WORD_ADC_ENA then
       (if rs ! 17 = 0 then (0, rs, ds) else (0, rs[4 := 25, 16 := 0], parabola ds))
     else if offset = MTCADUMMY_WORD_FIRMWARE then (0, rs[0 := VERSION_MAJ K], ds)
     else if offset = MTCADUMMY_WORD_COMPILATION then (0, rs[1 := VERSION_MIN K], ds)
     else if offset = MTCADUMMY_WORD_DUMMY then (0, rs[15 := MTCADUMMY_DMMY_AS_ASCII], ds)
     else if offset \<in> {MTCADUMMY_BROKEN_REGISTER, MTCADUMMY_BROKEN_WRITE} then (- 1, rs, ds)
     else if offset = MTCADUMMY_WORD_SPI_WRITE then
       (0, if rs ! 22 = MTCADUMMY_SPI_SYNC_REQUESTED \<and> \<not> spiFail
           then rs[21 := rs ! 20, 22 := MTCADUMMY_SPI_SYNC_OK]
           else rs[22 := MTCADUMMY_SPI_SYNC_ERROR], ds)
     else (0, rs, ds))"

lemma length_parabola: "length ds = DMA_WORDS \<Longrightarrow> length (parabola ds) = DMA_WORDS"
  by (simp add: parabola_def nSamples_def size_defs)

lemma dummy_sampling_ok:
  assumes "ready d s" and "devs s = ds"
  shows "ensures (dummy_sampling (dmaBar (ds ! d)) s)
    (\<lambda>r t. r = 0 \<and> on_device d s t \<and> regs t d = regs s d \<and> dma t d = parabola (dma s d))"
proof -
  note r = readyD [OF assms(1)]
  have "nSamples \<le> length (dma s d)" by (simp add: r(11) nSamples_def size_defs)
  from mem.fill_loop [OF r(9) this, of "\<lambda>i. of_nat i * of_nat i"] ready_licensed [OF assms(1)]
  have "ensures (dummy_sampling (dmaBar (ds ! d)) s)
    (\<lambda>r t. r = 0 \<and> heap t = (heap s)(dmaBar (devs s ! d) \<mapsto> parabola (dma s d)) \<and>
      rest_of t = rest_of s \<and> licensed t (dmaBar (devs s ! d)))"
    by (simp add: dummy_sampling_def parabola_def assms(2))
  then show ?thesis
    by (rule ensures_mono) (use on_device_dma_block [OF assms(1)] length_parabola [OF r(11)] in blast)
qed

section \<open>The C functions implement the contract\<close>

lemma register_lt [simp]:
  "0 < MTCADUMMY_N_REGISTERS" "numeral k < MTCADUMMY_N_REGISTERS \<longleftrightarrow> numeral k < (32 :: nat)"
  "Suc 0 < MTCADUMMY_N_REGISTERS"
  by (simp_all add: size_defs)

text \<open>The lock protocol around \<open>controlData.spi_error\<close> leaves the device as it was.\<close>

lemma ready_control_section [simp]:
  assumes "ready d s" and "ControlMutex \<notin> held s"
  shows "ready d (take_lock ControlMutex s)" and "ready d (note_flags (take_lock ControlMutex s))"
    and "ready d (drop_lock ControlMutex (note_flags (take_lock ControlMutex s)))"
proof -
  have "\<forall>h \<in> held s. h < ControlMutex" using assms(2) by (metis less_ControlMutex)
  with assms(1) show "ready d (take_lock ControlMutex s)" by simp
  then show "ready d (note_flags (take_lock ControlMutex s))" by simp
  then show "ready d (drop_lock ControlMutex (note_flags (take_lock ControlMutex s)))" by simp
qed

lemma on_device_control_section [simp]:
  assumes "ready d s" and "ControlMutex \<notin> held s"
  shows "on_device d s (drop_lock ControlMutex (note_flags (take_lock ControlMutex s)))"
  using assms by (simp add: on_device_def)

lemma performActionOnWrite_refines:
  assumes "ready d s" and "ControlMutex \<notin> held s"
  shows "ensures (mtcadummy_performActionOnWrite K off bar (of_nat d) s)
    (\<lambda>r t. on_device d s t \<and>
      (r, regs t d, dma t d) =
        (if bar \<noteq> 0 then (0, regs s d, dma s d)
         else if k_lock K (tick s) ControlMutex \<noteq> 0 then (- ERESTARTSYS, regs s d, dma s d)
         else spec_action K (spi_error (control s)) off (regs s d) (dma s d)))"
    (is "ensures ?m ?P")
proof -
  let ?u = "drop_lock ControlMutex (note_flags (take_lock ControlMutex s))"
  let ?v = "put_regs d (regs s d) ?u"
  have r: "ready d ?u" "on_device d s ?u" using assms by simp_all
  note rd = readyD (3-11) [OF assms(1)]
  have da: "dev_at ?u d = Some (devs s ! d)" using readyD(5) [OF r(1)] by simp
  note run = mtcadummy_performActionOnWrite_def spec_action_def exec wp
  show ?thesis
  proof (cases "off = MTCADUMMY_WORD_ADC_ENA")
    case True
    have v: "ready d ?v" "on_device d s ?v" using r rd by simp_all
    have adc: "ensures (dummy_sampling (dmaBar (devs s ! d)) ?v)
        (\<lambda>_ w. ensures (store (systemBar (devs s ! d)) 4 (of_nat nSamples) w)
          (\<lambda>_ w. ensures (store (systemBar (devs s ! d)) 16 0 w)
            (\<lambda>_ w. on_device d s w \<and> regs w d = (regs s d)[4 := 25, 16 := 0] \<and>
              dma w d = parabola (dma s d))))"
    proof (rule ensures_mono [OF dummy_sampling_ok [OF v(1)]])
      fix x w
      assume w: "x = 0 \<and> on_device d ?v w \<and> regs w d = regs ?v d \<and> dma w d = parabola (dma ?v d)"
      then have "on_device d s w" using v(2) on_device_trans by blast
      moreover from this have "ready d w" "devs w = devs s" by (simp_all add: on_device_def)
      ultimately show "ensures (store (systemBar (devs s ! d)) 4 (of_nat nSamples) w)
          (\<lambda>_ w. ensures (store (systemBar (devs s ! d)) 16 0 w)
            (\<lambda>_ w. on_device d s w \<and> regs w d = (regs s d)[4 := 25, 16 := 0] \<and>
              dma w d = parabola (dma s d)))"
        using w r rd by (simp add: exec nSamples_def)
    qed simp
    have "MTCADUMMY_WORD_ADC_ENA \<noteq> MTCADUMMY_WORD_CLK_RST" by (simp add: register_defs)
    with True adc show ?thesis
      using assms r rd da by (simp add: run del: ready_control_section)
  next
    case False
    then show ?thesis
      using assms r rd da
      by (simp add: run clear_clocks_def del: ready_control_section)
  qed
qed

text \<open>The system bar of a fresh device, on a block that was cleared before.\<close>

definition initial_regs :: "kernel \<Rightarrow> u32 list" where
  "initial_regs K = (replicate MTCADUMMY_N_REGISTERS 0)
     [0 := VERSION_MAJ K, 1 := VERSION_MIN K, 15 := MTCADUMMY_DMMY_AS_ASCII, 16 := 1,
      19 := MTCADUMMY_BROKEN_WRITE]"

lemma initialiseSystemBar_eq:
  assumes "heap s p = Some (replicate MTCADUMMY_N_REGISTERS 0)"
  shows "mtcadummy_initialiseSystemBar K p s =
    Some ((), s\<lparr>heap := (heap s)(p \<mapsto> initial_regs K), log := log s @ replicate 7 (Access p)\<rparr>)"
proof -
  have "(replicate MTCADUMMY_N_REGISTERS 0)[0 := a, 1 := b, 2 := 0, 3 := 0, 15 := c, 16 := 1, 19 := e] =
      (replicate MTCADUMMY_N_REGISTERS 0)[0 := a, 1 := b, 15 := c, 16 := 1, 19 := e]"
    for a b c e :: u32
    by (rule nth_equalityI) (auto simp: nth_list_update)
  moreover have "replicate 7 (Access p) =
      [Access p, Access p, Access p, Access p, Access p, Access p, Access p]"
    by (simp add: numeral_eq_Suc)
  ultimately show ?thesis
    using assms by (simp add: mtcadummy_initialiseSystemBar_def store_def initial_regs_def)
qed

lemma length_initial_regs [simp]: "length (initial_regs K) = MTCADUMMY_N_REGISTERS"
  by (simp add: initial_regs_def)

end
