(* ===== verification/Reference_Machine.thy ===== *)
theory Reference_Machine
  imports Firmware
begin

text \<open>
  A concrete kernel and a concrete state of the loaded module, on which the theorems of the
  development are applied: the kernel never interrupts a lock attempt, every user address
  is mapped, and an allocation returns uninitialised memory. The state is the one the
  module is in right after it was loaded (\<open>Module_Init\<close> proves the same for any kernel).
\<close>

definition ref_kernel :: kernel where
  "ref_kernel =
    \<lparr>k_lock = (\<lambda>_ _. 0),
     k_copy_from_user = (\<lambda>_ m a n. (umem_read m a n, 0)),
     k_copy_to_user = (\<lambda>_ m a bs. (umem_write m a bs, 0)),
     k_access_ok = (\<lambda>_ _. True),
     k_access_ok_4 = (\<lambda>_ _ _. True),
     k_before_5_0 = False,
     k_kmalloc = (\<lambda>t h n. if h (Suc t) = None then (Suc t, replicate (n div 4) 0xDEADBEEF) else (NULL, [])),
     k_alloc_chrdev_region = 0,
     k_major = 240,
     k_class_create_ok = True,
     k_cdev_add = (\<lambda>_. 0),
     k_device_create = (\<lambda>_. Created),
     k_proc_create_ok = True,
     VERSION_MAJ = 0,
     VERSION_MIN = 10\<rparr>"

lemma ref_kernel_simps [simp]:
  "k_lock ref_kernel t m = 0"
  "k_copy_from_user ref_kernel t u a n = (umem_read u a n, 0)"
  "k_copy_to_user ref_kernel t u a bs = (umem_write u a bs, 0)"
  "k_access_ok ref_kernel a n" "k_access_ok_4 ref_kernel v a n" "\<not> k_before_5_0 ref_kernel"
  "VERSION_MAJ ref_kernel = 0" "VERSION_MIN ref_kernel = 10"
  by (simp_all add: ref_kernel_def)

lemma ref_uaccess_ok [simp]: "uaccess_ok ref_kernel"
  by (simp add: uaccess_ok_def)

lemma ref_kmalloc_ok [simp]: "kmalloc_ok ref_kernel"
  by (simp add: kmalloc_ok_def ref_kernel_def)

text \<open>A kernel in which every lock attempt is interrupted by a signal.\<close>

definition signalled_kernel :: kernel where
  "signalled_kernel = ref_kernel\<lparr>k_lock := (\<lambda>_ _. - 4)\<rparr>"

definition no_ops :: file_operations where
  "no_ops = \<lparr>fop_read = None, fop_write = None, fop_ioctl = None, fop_open = None, fop_release = None\<rparr>"

definition no_errors :: mtcaDummyControl where
  "no_errors = \<lparr>open_error = False, read_error = False, write_error = False, spi_error = False\<rparr>"

definition ref_dev :: "nat \<Rightarrow> mtcaDummyData" where
  "ref_dev d =
    \<lparr>inUse = 0, cdev_ops = no_ops, slotNr = of_nat d, minor = of_nat d, major = 240,
     systemBar = 2 * d + 1, dmaBar = 2 * d + 2\<rparr>"

definition ref_heap :: heap where
  "ref_heap p =
    (if p = NULL \<or> 14 < p then None
     else if odd p then Some (initial_regs ref_kernel) else Some (replicate DMA_WORDS 0))"

definition ref_sys :: sys where
  "ref_sys =
    \<lparr>devs = map ref_dev [0..<MTCADUMMY_NR_DEVS], control = no_errors, heap = ref_heap,
     umem = (\<lambda>_. 0), held = {}, log = [], tick = 0, registered = {}\<rparr>"

lemma ref_sys_simps [simp]:
  "control ref_sys = no_errors" "held ref_sys = {}" "log ref_sys = []" "tick ref_sys = 0"
  "umem ref_sys a = 0" "length (devs ref_sys) = MTCADUMMY_NR_DEVS"
  "d < MTCADUMMY_NR_DEVS \<Longrightarrow> devs ref_sys ! d = ref_dev d"
  by (simp_all add: ref_sys_def)

lemma no_errors_simps [simp]:
  "\<not> open_error no_errors" "\<not> read_error no_errors" "\<not> write_error no_errors" "\<not> spi_error no_errors"
  by (simp_all add: no_errors_def)

lemma ref_wf [simp]: "wf_sys ref_sys"
proof -
  have "distinct (map (\<lambda>d. 2 * d + 1) [0..<7] @ map (\<lambda>d. 2 * d + 2 :: nat) [0..<7])"
    by (simp add: upt_rec)
  then show ?thesis
    by (auto simp: wf_sys_def bar_blocks_def ref_sys_def ref_dev_def has_block_def ref_heap_def
        size_defs NULL_def comp_def)
qed

lemma ref_idle [simp]: "idle ref_sys"
  by (simp add: idle_def live_def disciplined_def)

lemma ref_bars [simp]:
  assumes "d < MTCADUMMY_NR_DEVS"
  shows "regs ref_sys d = initial_regs ref_kernel" and "dma ref_sys d = replicate DMA_WORDS 0"
  using assms
  by (simp_all add: regs_def dma_def block_def ref_dev_def)
     (simp_all add: ref_sys_def ref_heap_def NULL_def size_defs)

text \<open>The reference state with other contents of user memory, of the switches and of the bars.\<close>

definition with_umem :: "u64 \<Rightarrow> u8 list \<Rightarrow> sys \<Rightarrow> sys" where
  "with_umem a bs s = s\<lparr>umem := umem_write (umem s) a bs\<rparr>"

definition with_control :: "mtcaDummyControl \<Rightarrow> sys \<Rightarrow> sys" where
  "with_control c s = s\<lparr>control := c\<rparr>"

lemma with_simps [simp]:
  "devs (with_umem a bs s) = devs s" "control (with_umem a bs s) = control s"
  "tick (with_umem a bs s) = tick s" "held (with_umem a bs s) = held s"
  "umem (with_umem a bs s) = umem_write (umem s) a bs" "registered (with_umem a bs s) = registered s"
  "regs (with_umem a bs s) d = regs s d" "dma (with_umem a bs s) d = dma s d"
  "devs (with_control c s) = devs s" "control (with_control c s) = c"
  "tick (with_control c s) = tick s" "held (with_control c s) = held s"
  "umem (with_control c s) = umem s"
  "regs (with_control c s) d = regs s d" "dma (with_control c s) d = dma s d"
  "idle (with_umem a bs s) = idle s" "idle (with_control c s) = idle s"
  by (simp_all add: with_umem_def with_control_def regs_def dma_def idle_def live_def
      disciplined_def wf_sys_def)

definition opened :: "nat \<Rightarrow> open_file" where
  "opened d = \<lparr>private_data = Some d\<rparr>"

lemma opened_simps [simp]: "private_data (opened d) = Some d"
  by (simp add: opened_def)

end
