(* ===== verification/Struct_Io.thy ===== *)
theory Struct_Io
  imports Reference_Machine
begin

text \<open>
  Opening and closing a device and the structure based transfers of
  \<open>mtcadummy_drv.c\<close>: \<open>read\<close> and \<open>write\<close> take a \<open>device_rw\<close> structure at the start of
  the user buffer that names the operation, the bar and the offset.
\<close>

section \<open>The transfer structure of pciedev_io.h\<close>

definition RW_D8 :: u32 where "RW_D8 = 0"
definition RW_D16 :: u32 where "RW_D16 = 1"
definition RW_D32 :: u32 where "RW_D32 = 2"
definition RW_DMA :: u32 where "RW_DMA = 3"
definition RW_INFO :: u32 where "RW_INFO = 4"

lemmas rw_mode_defs = RW_D8_def RW_D16_def RW_D32_def RW_DMA_def RW_INFO_def

lemma rw_modes_distinct [simp]:
  "RW_D8 \<noteq> RW_D16" "RW_D8 \<noteq> RW_D32" "RW_D8 \<noteq> RW_DMA" "RW_D8 \<noteq> RW_INFO"
  "RW_D16 \<noteq> RW_D8" "RW_D16 \<noteq> RW_D32" "RW_D16 \<noteq> RW_DMA" "RW_D16 \<noteq> RW_INFO"
  "RW_D32 \<noteq> RW_D8" "RW_D32 \<noteq> RW_D16" "RW_D32 \<noteq> RW_DMA" "RW_D32 \<noteq> RW_INFO"
  "RW_DMA \<noteq> RW_D8" "RW_DMA \<noteq> RW_D16" "RW_DMA \<noteq> RW_D32" "RW_DMA \<noteq> RW_INFO"
  "RW_INFO \<noteq> RW_D8" "RW_INFO \<noteq> RW_D16" "RW_INFO \<noteq> RW_D32" "RW_INFO \<noteq> RW_DMA"
  by (simp_all add: rw_mode_defs)

record device_rw =
  offset_rw :: u32
  data_rw :: u32
  mode_rw :: u32
  barx_rw :: u32
  size_rw :: u32
  rsrvd_rw :: u32

definition sizeof_device_rw :: nat where "sizeof_device_rw = 24"

text \<open>The structure in memory: six unsigned integers without padding.\<close>

definition word_at :: "u8 list \<Rightarrow> nat \<Rightarrow> u32" where
  "word_at bs i = le32 (take 4 (drop (4 * i) bs))"

definition decode_device_rw :: "u8 list \<Rightarrow> device_rw" where
  "decode_device_rw bs =
    \<lparr>offset_rw = word_at bs 0, data_rw = word_at bs 1, mode_rw = word_at bs 2,
     barx_rw = word_at bs 3, size_rw = word_at bs 4, rsrvd_rw = word_at bs 5\<rparr>"

definition encode_device_rw :: "device_rw \<Rightarrow> u8 list" where
  "encode_device_rw r =
    bytes_of_words [offset_rw r, data_rw r, mode_rw r, barx_rw r, size_rw r, rsrvd_rw r]"

section \<open>open and release\<close>

definition atomic_add :: "nat \<Rightarrow> u32 \<Rightarrow> sys \<Rightarrow> (unit \<times> sys) option" where
  "atomic_add d k s = do {
     data \<leftarrow> dev_at s d;
     Some ((), s\<lparr>devs := (devs s)[d := data\<lparr>inUse := inUse data + k\<rparr>]\<rparr>)
   }"

text \<open>
  \<open>i_cdev\<close> is the character device of the inode, given by the index of the device that
  contains it (\<open>container_of\<close>).
\<close>

definition mtcaDummy_open ::
    "kernel \<Rightarrow> nat \<Rightarrow> open_file \<Rightarrow> sys \<Rightarrow> ((int \<times> open_file) \<times> sys) option" where
  "mtcaDummy_open K i_cdev filp s = do {
     (locked, s) \<leftarrow> mutex_lock_interruptible K ControlMutex s;
     if locked \<noteq> 0 then Some ((- ERESTARTSYS, filp), s) else do {
     (openFail, s) \<leftarrow> read_control open_error s;
     (_, s) \<leftarrow> mutex_unlock ControlMutex s;
     if openFail then Some ((- EINVAL, filp), s) else do {
     (_, s) \<leftarrow> atomic_add i_cdev 1 s;
     Some ((0, filp\<lparr>private_data := Some i_cdev\<rparr>), s)
   }}}"

definition mtcaDummy_release :: "open_file \<Rightarrow> sys \<Rightarrow> (int \<times> sys) option" where
  "mtcaDummy_release filp s = do {
     d \<leftarrow> private_data filp;
     (_, s) \<leftarrow> atomic_add d (- 1) s;
     Some (0, s)
   }"

section \<open>read and write\<close>

text \<open>\<open>mutex_unlock(&m); return r;\<close>\<close>

definition unlock_return :: "mutex \<Rightarrow> int \<Rightarrow> sys \<Rightarrow> (int \<times> sys) option" where
  "unlock_return m r s = do { (_, s) \<leftarrow> mutex_unlock m s; Some (r, s) }"

text \<open>The \<open>switch\<close> over \<open>barx_rw\<close>: base address and size in bytes of the bar.\<close>

definition select_bar :: "mtcaDummyData \<Rightarrow> u32 \<Rightarrow> (ptr \<times> nat) option" where
  "select_bar privData barx =
    (if barx = 0 then Some (systemBar privData, MTCADUMMY_N_REGISTERS * 4)
     else if barx = 2 then Some (dmaBar privData, MTCADUMMY_DMA_SIZE)
     else None)"

definition mtcaDummy_read ::
    "kernel \<Rightarrow> open_file \<Rightarrow> u64 \<Rightarrow> u64 \<Rightarrow> sys \<Rightarrow> (int \<times> sys) option" where
  "mtcaDummy_read K filp buf count s = do {
     (locked, s) \<leftarrow> mutex_lock_interruptible K ControlMutex s;
     if locked \<noteq> 0 then Some (- ERESTARTSYS, s) else do {
     (readFail, s) \<leftarrow> read_control read_error s;
     (_, s) \<leftarrow> mutex_unlock ControlMutex s;
     if readFail then Some (- EFAULT, s) else do {
     d \<leftarrow> private_data filp;
     (locked, s) \<leftarrow> mutex_lock_interruptible K (DevMutex d) s;
     if locked \<noteq> 0 then Some (- ERESTARTSYS, s) else do {
     privData \<leftarrow> dev_at s d;
     if unat count < sizeof_device_rw then unlock_return (DevMutex d) (- EFAULT) s else do {
     ((bytes, missing), s) \<leftarrow> copy_from_user K buf sizeof_device_rw s;
     if missing \<noteq> 0 then unlock_return (DevMutex d) (- EFAULT) s else do {
     let readReqInfo = decode_device_rw bytes;
     if mode_rw readReqInfo = RW_INFO then do {
       let readReqInfo = readReqInfo
         \<lparr>offset_rw := VERSION_MIN K, data_rw := VERSION_MAJ K, barx_rw := slotNr privData,
          mode_rw := VERSION_MAJ K + 1, size_rw := VERSION_MIN K + 1\<rparr>;
       (missing, s) \<leftarrow> copy_to_user K buf (encode_device_rw readReqInfo) s;
       if missing \<noteq> 0 then unlock_return (DevMutex d) (- EFAULT) s
       else unlock_return (DevMutex d) (int sizeof_device_rw) s
     }
     else if mode_rw readReqInfo = RW_D32 then
       (case select_bar privData (barx_rw readReqInfo) of
          None \<Rightarrow> unlock_return (DevMutex d) (- EFAULT) s
        | Some (barBaseAddress, barSize) \<Rightarrow>
            if offset_rw readReqInfo mod 4 \<noteq> 0 \<or> barSize \<le> unat (offset_rw readReqInfo)
            then unlock_return (DevMutex d) (- EFAULT) s
            else if mtcadummy_performPreReadAction (offset_rw readReqInfo)
                      (barx_rw readReqInfo) (slotNr privData) \<noteq> 0
            then unlock_return (DevMutex d) (- EIO) s
            else do {
              (data, s) \<leftarrow> load barBaseAddress (unat (offset_rw readReqInfo div 4)) s;
              (missing, s) \<leftarrow> copy_to_user K buf
                (encode_device_rw (readReqInfo\<lparr>data_rw := data\<rparr>)) s;
              if missing \<noteq> 0 then unlock_return (DevMutex d) (- EFAULT) s
              else unlock_return (DevMutex d) (int sizeof_device_rw) s
            })
     else if mode_rw readReqInfo = RW_D8 \<or> mode_rw readReqInfo = RW_D16 then
       unlock_return (DevMutex d) (- EFAULT) s
     else if mode_rw readReqInfo = RW_DMA then do {
       let dma_size = size_rw readReqInfo;
       let dma_offset = offset_rw readReqInfo;
       if dma_size = 0 then unlock_return (DevMutex d) 0 s
       else if MTCADUMMY_DMA_SIZE < unat (dma_size + dma_offset) then
         unlock_return (DevMutex d) (- EFAULT) s
       else do {
         (bytes, s) \<leftarrow> load_bytes (dmaBar privData) (unat (dma_offset div 4)) (unat dma_size) s;
         (missing, s) \<leftarrow> copy_to_user K buf bytes s;
         if missing \<noteq> 0 then unlock_return (DevMutex d) (- EFAULT) s
         else unlock_return (DevMutex d) (int (unat dma_size)) s
       }
     }
     else unlock_return (DevMutex d) (- EFAULT) s
   }}}}}}"

definition mtcaDummy_write ::
    "kernel \<Rightarrow> open_file \<Rightarrow> u64 \<Rightarrow> u64 \<Rightarrow> sys \<Rightarrow> (int \<times> sys) option" where
  "mtcaDummy_write K filp buf count s = do {
     (locked, s) \<leftarrow> mutex_lock_interruptible K ControlMutex s;
     if locked \<noteq> 0 then Some (- ERESTARTSYS, s) else do {
     (writeFail, s) \<leftarrow> read_control write_error s;
     (_, s) \<leftarrow> mutex_unlock ControlMutex s;
     if writeFail then Some (- EFAULT, s) else do {
     d \<leftarrow> private_data filp;
     (locked, s) \<leftarrow> mutex_lock_interruptible K (DevMutex d) s;
     if locked \<noteq> 0 then Some (- ERESTARTSYS, s) else do {
     privData \<leftarrow> dev_at s d;
     if unat count < sizeof_device_rw then unlock_return (DevMutex d) (- EFAULT) s else do {
     ((bytes, missing), s) \<leftarrow> copy_from_user K buf sizeof_device_rw s;
     if missing \<noteq> 0 then unlock_return (DevMutex d) (- EFAULT) s else do {
     let writeReqInfo = decode_device_rw bytes;
     if mode_rw writeReqInfo = RW_D32 then
       (case select_bar privData (barx_rw writeReqInfo) of
          None \<Rightarrow> unlock_return (DevMutex d) (- EFAULT) s
        | Some (barBaseAddress, barSize) \<Rightarrow>
            if offset_rw writeReqInfo mod 4 \<noteq> 0 \<or> barSize \<le> unat (offset_rw writeReqInfo)
            then unlock_return (DevMutex d) (- EFAULT) s
            else do {
              (_, s) \<leftarrow> store barBaseAddress (unat (offset_rw writeReqInfo div 4))
                (data_rw writeReqInfo) s;
              (failed, s) \<leftarrow> mtcadummy_performActionOnWrite K (offset_rw writeReqInfo)
                (barx_rw writeReqInfo) (slotNr privData) s;
              if failed \<noteq> 0 then unlock_return (DevMutex d) (- EIO) s
              else unlock_return (DevMutex d) (int sizeof_device_rw) s
            })
     else if mode_rw writeReqInfo = RW_D8 \<or> mode_rw writeReqInfo = RW_D16 then
       unlock_return (DevMutex d) (- EFAULT) s
     else if mode_rw writeReqInfo = RW_DMA then unlock_return (DevMutex d) (- EFAULT) s
     else unlock_return (DevMutex d) (- EFAULT) s
   }}}}}}"

section \<open>The contract of the transfers\<close>

text \<open>
  What a device promises on the contents of its two bars: which word a read returns and
  what a write does, with the error numbers. \<open>interrupted\<close> says that the attempt to take
  the control mutex inside the firmware action is interrupted by a signal.
\<close>

definition bar_words :: "u32 \<Rightarrow> u32 list \<Rightarrow> u32 list \<Rightarrow> u32 list option" where
  "bar_words bar rs ds = (if bar = 0 then Some rs else if bar = 2 then Some ds else None)"

definition valid_offset :: "u32 \<Rightarrow> u32 list \<Rightarrow> bool" where
  "valid_offset off ws \<longleftrightarrow> off mod 4 = 0 \<and> unat off < 4 * length ws"

definition spec_read :: "u32 \<Rightarrow> u32 \<Rightarrow> u32 list \<Rightarrow> u32 list \<Rightarrow> int + u32" where
  "spec_read bar off rs ds =
    (case bar_words bar rs ds of
       None \<Rightarrow> Inl (- EFAULT)
     | Some ws \<Rightarrow>
         if \<not> valid_offset off ws then Inl (- EFAULT)
         else if bar = 0 \<and> off = MTCADUMMY_BROKEN_REGISTER then Inl (- EIO)
         else Inr (ws ! REG off))"

definition spec_write ::
    "kernel \<Rightarrow> bool \<Rightarrow> bool \<Rightarrow> u32 \<Rightarrow> u32 \<Rightarrow> u32 \<Rightarrow> u32 list \<Rightarrow> u32 list \<Rightarrow> int \<times> u32 list \<times> u32 list"
  where
    "spec_write K interrupted spiFail bar off v rs ds =
      (case bar_words bar rs ds of
         None \<Rightarrow> (- EFAULT, rs, ds)
       | Some ws \<Rightarrow>
           if \<not> valid_offset off ws then (- EFAULT, rs, ds)
           else if bar \<noteq> 0 then (0, rs, ds[REG off := v])
           else if interrupted then (- EIO, rs[REG off := v], ds)
           else (case spec_action K spiFail off (rs[REG off := v]) ds of
                   (r, rs', ds') \<Rightarrow> (if r = 0 then 0 else - EIO, rs', ds')))"

text \<open>
  The way into every read and write: the error switch is read under the control mutex,
  then the mutex of the device is taken. \<open>Some r\<close> is an early return.
\<close>

definition entry_gate :: "kernel \<Rightarrow> bool \<Rightarrow> nat \<Rightarrow> nat \<Rightarrow> int option" where
  "entry_gate K switched_off d t =
    (if k_lock K t ControlMutex \<noteq> 0 then Some (- ERESTARTSYS)
     else if switched_off then Some (- EFAULT)
     else if k_lock K (Suc t) (DevMutex d) \<noteq> 0 then Some (- ERESTARTSYS)
     else None)"

text \<open>What a call on the device \<open>d\<close> leaves alone, whatever it returns.\<close>

definition call_on :: "nat \<Rightarrow> sys \<Rightarrow> sys \<Rightarrow> bool" where
  "call_on d s t \<longleftrightarrow>
    idle t \<and> devs t = devs s \<and> control t = control s \<and> registered t = registered s \<and>
    (\<forall>e < MTCADUMMY_NR_DEVS. e \<noteq> d \<longrightarrow> regs t e = regs s e \<and> dma t e = dma s e)"

section \<open>Entering and leaving the critical section of a device\<close>

definition flag_read :: "sys \<Rightarrow> sys" where
  "flag_read s = drop_lock ControlMutex (note_flags (take_lock ControlMutex s))"

definition entered :: "nat \<Rightarrow> sys \<Rightarrow> sys" where
  "entered d s = take_lock (DevMutex d) (flag_read s)"

lemma flag_read_fold:
  "drop_lock ControlMutex (note_flags (take_lock ControlMutex s)) = flag_read s"
  by (simp add: flag_read_def)

lemma flag_read_simps [simp]:
  "devs (flag_read s) = devs s" "control (flag_read s) = control s"
  "registered (flag_read s) = registered s" "umem (flag_read s) = umem s"
  "held (flag_read s) = held s - {ControlMutex}" "tick (flag_read s) = Suc (tick s)"
  "heap (flag_read s) = heap s" "regs (flag_read s) e = regs s e" "dma (flag_read s) e = dma s e"
  "idle s \<Longrightarrow> idle (flag_read s)"
  by (auto simp: flag_read_def idle_def)

lemma entered_simps [simp]:
  "devs (entered d s) = devs s" "control (entered d s) = control s"
  "registered (entered d s) = registered s" "umem (entered d s) = umem s"
  "tick (entered d s) = Suc (Suc (tick s))"
  "regs (entered d s) e = regs s e" "dma (entered d s) e = dma s e"
  "idle s \<Longrightarrow> held (entered d s) = {DevMutex d}"
  by (auto simp: entered_def idle_def)

lemma entered_ready [simp]: "idle s \<Longrightarrow> d < MTCADUMMY_NR_DEVS \<Longrightarrow> ready d (entered d s)"
  using flag_read_simps(10) [of s]
  by (auto simp: entered_def idle_def ready_def)

lemma call_on_idle [simp]: "idle s \<Longrightarrow> call_on d s (count_call s)" "idle s \<Longrightarrow> call_on d s (flag_read s)"
  "idle s \<Longrightarrow> call_on d s (count_call (flag_read s))"
  using flag_read_simps(10) [of s] by (auto simp: call_on_def idle_def)

text \<open>Leaving after steps on the device and copies to user memory.\<close>

lemma call_on_leave:
  assumes "idle s" and "on_device d (entered d s) t"
  shows "call_on d s (drop_lock (DevMutex d) t)"
    and "call_on d s (drop_lock (DevMutex d) (put_user u t))"
    and "call_on d s (drop_lock (DevMutex d) (count_call t))"
  using assms by (auto simp: call_on_def idle_def on_device_def ready_def)

section \<open>Writing one word and running its action\<close>

lemma REG_less: "valid_offset off ws \<Longrightarrow> REG off < length ws"
  by (auto simp: valid_offset_def REG_def unat_div)

lemma select_bar_None:
  "bar_words bar rs ds = None \<Longrightarrow> select_bar data bar = None"
  by (simp add: select_bar_def bar_words_def split: if_splits)

lemma select_bar_Some:
  assumes "ready d s" and "bar_words bar (regs s d) (dma s d) = Some ws"
  obtains p where "select_bar (devs s ! d) bar = Some (p, 4 * length ws)"
  using assms(2) readyD(10,11) [OF assms(1)]
  by (auto simp: select_bar_def bar_words_def size_defs split: if_splits)

lemma bar_words_cases:
  assumes "bar_words bar rs ds = Some ws"
  obtains "bar = 0" "ws = rs" | "bar = 2" "ws = ds"
  using assms by (auto simp: bar_words_def split: if_splits)

lemma write_word:
  assumes s: "ready d s" "ControlMutex \<notin> held s" "devs s = dvs"
    and ws: "bar_words bar (regs s d) (dma s d) = Some ws" "valid_offset off ws"
    and p: "select_bar (dvs ! d) bar = Some (p, n)"
  shows "ensures
    (store p (REG off) v s \<bind>
      (\<lambda>(_, s). mtcadummy_performActionOnWrite K off bar (slotNr (dvs ! d)) s))
    (\<lambda>r t. on_device d s t \<and>
      (if r = 0 then 0 else - EIO, regs t d, dma t d) =
        spec_write K (k_lock K (tick s) ControlMutex \<noteq> 0) (spi_error (control s)) bar off v
          (regs s d) (dma s d))"
proof -
  note rd = readyD [OF s(1)]
  have slot: "slotNr (dvs ! d) = of_nat d" using rd(7) s(3) by simp
  have lt: "REG off < length ws" using REG_less [OF ws(2)] .
  from ws(1) show ?thesis
  proof (cases rule: bar_words_cases)
    case 1
    let ?u = "put_regs d ((regs s d)[REG off := v]) s"
    have u: "ready d ?u" "on_device d s ?u" "ControlMutex \<notin> held ?u"
      using s rd by simp_all
    have "store (systemBar (dvs ! d)) (REG off) v s = Some ((), ?u)"
      using lt 1 rd(10) by (simp add: store_exec(1) [OF s(1,3)])
    moreover have "ensures (mtcadummy_performActionOnWrite K off 0 (of_nat d) ?u)
      (\<lambda>r t. on_device d s t \<and>
      (if r = 0 then 0 else - EIO, regs t d, dma t d) =
        spec_write K (k_lock K (tick s) ControlMutex \<noteq> 0) (spi_error (control s)) 0 off v
          (regs s d) (dma s d))"
      by (rule ensures_mono [OF performActionOnWrite_refines [OF u(1,3)]])
        (use 1 s ws u(2) in \<open>auto simp: spec_write_def errno_defs intro: on_device_trans
          split: if_splits prod.splits\<close>)
    moreover have "p = systemBar (dvs ! d)" using p 1 by (simp add: select_bar_def)
    ultimately show ?thesis using 1 by (simp add: slot)
  next
    case 2
    moreover from this have "p = dmaBar (dvs ! d)" using p by (simp add: select_bar_def)
    ultimately show ?thesis
      using s ws lt rd(10,11)
      by (simp add: slot store_exec(2) [OF s(1,3)] mtcadummy_performActionOnWrite_def spec_write_def)
  qed
qed

text \<open>The same, as a run whose states are named.\<close>

lemma write_word_run:
  assumes "ready d s" "ControlMutex \<notin> held s" "devs s = dvs"
    and "bar_words bar (regs s d) (dma s d) = Some ws" "valid_offset off ws"
    and "select_bar (dvs ! d) bar = Some (p, n)"
  obtains u r t where
    "store p (REG off) v s = Some ((), u)"
    and "mtcadummy_performActionOnWrite K off bar (slotNr (dvs ! d)) u = Some (r, t)"
    and "on_device d s t"
    and "spec_write K (k_lock K (tick s) ControlMutex \<noteq> 0) (spi_error (control s)) bar off v
      (regs s d) (dma s d) = (if r = 0 then 0 else - EIO, regs t d, dma t d)"
  using write_word [OF assms, of v K]
  by (auto simp: ensures_iff split: Option.bind_splits)

lemma load_word:
  assumes "ready d s" "devs s = dvs" "bar_words bar (regs s d) (dma s d) = Some ws"
    and "select_bar (dvs ! d) bar = Some (p, n)" and "i < length ws"
  obtains u where "load p i s = Some (ws ! i, u)" and "on_device d s u"
    and "regs u d = regs s d" and "dma u d = dma s d" and "tick u = tick s"
proof -
  note rd = readyD [OF assms(1)]
  from assms(3) consider "bar = 0" "ws = regs s d" | "bar = 2" "ws = dma s d"
    by (rule bar_words_cases)
  then show thesis
  proof cases
    case 1
    then have "p = systemBar (dvs ! d)" using assms(4) by (simp add: select_bar_def)
    with assms rd 1 show ?thesis
      by (intro that [of "put_regs d (regs s d) s"]) (simp_all add: load_exec)
  next
    case 2
    then have "p = dmaBar (dvs ! d)" using assms(4) by (simp add: select_bar_def)
    with assms rd 2 show ?thesis
      by (intro that [of "put_dma d (dma s d) s"]) (simp_all add: load_exec)
  qed
qed

section \<open>read and write implement the contract\<close>

lemma entered_fold: "take_lock (DevMutex d) (flag_read s) = entered d s"
  by (simp add: entered_def)

lemmas handler_run = exec wp flag_read_fold entered_fold entry_gate_def unlock_return_def

text \<open>The structure that a call finds at the start of its user buffer.\<close>

definition read_request :: "kernel \<Rightarrow> u64 \<Rightarrow> sys \<Rightarrow> device_rw \<times> nat" where
  "read_request K buf s =
    (case k_copy_from_user K (Suc (Suc (tick s))) (umem s) buf sizeof_device_rw of
       (bytes, missing) \<Rightarrow> (decode_device_rw bytes, missing))"

lemma mtcaDummy_write_refines:
  assumes "idle s" and "private_data filp = Some d" and "d < MTCADUMMY_NR_DEVS"
  shows "ensures (mtcaDummy_write K filp buf count s)
    (\<lambda>r t. call_on d s t \<and> umem t = umem s \<and>
      (r, regs t d, dma t d) =
        (case entry_gate K (write_error (control s)) d (tick s) of
           Some e \<Rightarrow> (e, regs s d, dma s d)
         | None \<Rightarrow>
            (case read_request K buf s of (req, missing) \<Rightarrow>
              if unat count < sizeof_device_rw \<or> missing \<noteq> 0 \<or> mode_rw req \<noteq> RW_D32
              then (- EFAULT, regs s d, dma s d)
              else case spec_write K (k_lock K (tick s + 3) ControlMutex \<noteq> 0)
                     (spi_error (control s)) (barx_rw req) (offset_rw req) (data_rw req)
                     (regs s d) (dma s d) of
                (e, rs, ds) \<Rightarrow> (if e = 0 then int sizeof_device_rw else e, rs, ds))))"
proof -
  let ?e = "entered d s"
  have r: "ready d ?e" "held ?e = {DevMutex d}" using assms by simp_all
  note leave = call_on_leave [OF assms(1), of d] on_device_refl [of d ?e]
  obtain bytes missing where copy:
    "k_copy_from_user K (Suc (Suc (tick s))) (umem s) buf sizeof_device_rw = (bytes, missing)"
    by fastforce
  let ?req = "decode_device_rw bytes"
  show ?thesis
  proof (cases "bar_words (barx_rw ?req) (regs s d) (dma s d)")
    case None
    then have "select_bar (devs s ! d) (barx_rw ?req) = None" by (rule select_bar_None)
    with None assms readyD(3-11) [OF r(1)] r leave copy show ?thesis
      by (simp add: mtcaDummy_write_def handler_run read_request_def spec_write_def idleD)
  next
    case (Some ws)
    then obtain p where p: "select_bar (devs s ! d) (barx_rw ?req) = Some (p, 4 * length ws)"
      using select_bar_Some [OF r(1)] by auto
    note facts = assms readyD(3-6,8-11) [OF r(1)] r leave copy p Some
    note defs = mtcaDummy_write_def handler_run read_request_def idleD REG_def [symmetric]
    show ?thesis
    proof (cases "valid_offset (offset_rw ?req) ws")
      case False
      with facts show ?thesis
        by (simp add: defs spec_write_def valid_offset_def not_less)
    next
      case True
      obtain u x t where
        "store p (REG (offset_rw ?req)) (data_rw ?req) (count_call ?e) = Some ((), u)"
        "mtcadummy_performActionOnWrite K (offset_rw ?req) (barx_rw ?req) (slotNr (devs s ! d)) u =
           Some (x, t)"
        "on_device d (count_call ?e) t"
        "spec_write K (k_lock K (tick s + 3) ControlMutex \<noteq> 0) (spi_error (control s))
           (barx_rw ?req) (offset_rw ?req) (data_rw ?req) (regs s d) (dma s d) =
           (if x = 0 then 0 else - EIO, regs t d, dma t d)"
        using True Some r assms p
        by (rule_tac write_word_run [where d = d and s = "count_call ?e" and dvs = "devs s"
             and bar = "barx_rw ?req" and ws = ws and off = "offset_rw ?req" and p = p
             and v = "data_rw ?req" and K = K]) (simp_all add: eval_nat_numeral)
      moreover have "on_device d ?e t" "umem t = umem s" "DevMutex d \<in> held t"
        using calculation(3) r by (auto simp: on_device_def)
      ultimately show ?thesis
        using True facts by (simp add: defs valid_offset_def not_le)
    qed
  qed
qed

text \<open>
  What \<open>read\<close> copies to the user for a request, with the value it returns when the copy
  succeeds; \<open>Inl r\<close> when nothing is copied.
\<close>

definition spec_reply ::
    "kernel \<Rightarrow> u32 \<Rightarrow> device_rw \<Rightarrow> u32 list \<Rightarrow> u32 list \<Rightarrow> int + (u8 list \<times> int)" where
  "spec_reply K slot req rs ds =
    (if mode_rw req = RW_INFO then
       Inr (encode_device_rw
         (req\<lparr>offset_rw := VERSION_MIN K, data_rw := VERSION_MAJ K, barx_rw := slot,
            mode_rw := VERSION_MAJ K + 1, size_rw := VERSION_MIN K + 1\<rparr>), 24)
     else if mode_rw req = RW_D32 then
       (case spec_read (barx_rw req) (offset_rw req) rs ds of
          Inl e \<Rightarrow> Inl e
        | Inr v \<Rightarrow> Inr (encode_device_rw (req\<lparr>data_rw := v\<rparr>), 24))
     else if mode_rw req = RW_DMA then
       (if size_rw req = 0 then Inl 0
        else if MTCADUMMY_DMA_SIZE < unat (size_rw req + offset_rw req) then Inl (- EFAULT)
        else Inr (take (unat (size_rw req)) (drop (4 * REG (offset_rw req)) (bytes_of_words ds)),
               int (unat (size_rw req))))
     else Inl (- EFAULT))"

text \<open>
  The sum in the bound check of a DMA request wraps around to a number that passes it. A read
  with such a request leaves the DMA area once it has got that far.
\<close>

definition dma_wraps :: "u32 \<Rightarrow> u32 \<Rightarrow> bool" where
  "dma_wraps n off \<longleftrightarrow> 2 ^ 32 \<le> unat n + unat off \<and> unat (n + off) \<le> MTCADUMMY_DMA_SIZE"

definition read_escapes :: "kernel \<Rightarrow> nat \<Rightarrow> u64 \<Rightarrow> u64 \<Rightarrow> sys \<Rightarrow> bool" where
  "read_escapes K d buf count s \<longleftrightarrow>
    entry_gate K (read_error (control s)) d (tick s) = None \<and> sizeof_device_rw \<le> unat count \<and>
    (case read_request K buf s of (req, missing) \<Rightarrow>
      missing = 0 \<and> mode_rw req = RW_DMA \<and> dma_wraps (size_rw req) (offset_rw req))"

definition send_reply :: "kernel \<Rightarrow> u64 \<Rightarrow> sys \<Rightarrow> int + (u8 list \<times> int) \<Rightarrow> int \<times> umem" where
  "send_reply K buf s reply =
    (case reply of
       Inl e \<Rightarrow> (e, umem s)
     | Inr (bs, n) \<Rightarrow>
         (case k_copy_to_user K (tick s + 3) (umem s) buf bs of
            (m, missing) \<Rightarrow> (if missing = 0 then n else - EFAULT, m)))"

lemma not_escaping:
  assumes "snd (read_request K buf s) = 0 \<longrightarrow> mode_rw (fst (read_request K buf s)) \<noteq> RW_DMA"
  shows "\<not> read_escapes K d buf count s"
  using assms by (auto simp: read_escapes_def split: prod.splits)

lemma dma_in_bounds:
  assumes "\<not> dma_wraps n off" and "unat (n + off :: u32) \<le> MTCADUMMY_DMA_SIZE"
  shows "4 * REG off + unat n \<le> MTCADUMMY_DMA_SIZE"
proof -
  have "unat n + unat off < 2 ^ 32" using assms by (auto simp: dma_wraps_def)
  then have "unat (n + off) = unat n + unat off" by (simp add: unat_word_ariths)
  moreover have "4 * REG off \<le> unat off" by (simp add: REG_def unat_div)
  ultimately show ?thesis using assms(2) by simp
qed

lemma mtcaDummy_read_refines:
  assumes "idle s" and "private_data filp = Some d" and "d < MTCADUMMY_NR_DEVS"
    and "\<not> read_escapes K d buf count s"
  shows "ensures (mtcaDummy_read K filp buf count s)
    (\<lambda>r t. call_on d s t \<and> regs t d = regs s d \<and> dma t d = dma s d \<and>
      (r, umem t) =
        (case entry_gate K (read_error (control s)) d (tick s) of
           Some e \<Rightarrow> (e, umem s)
         | None \<Rightarrow>
            (case read_request K buf s of (req, missing) \<Rightarrow>
              if unat count < sizeof_device_rw \<or> missing \<noteq> 0 then (- EFAULT, umem s)
              else send_reply K buf s (spec_reply K (of_nat d) req (regs s d) (dma s d)))))"
proof -
  let ?e = "entered d s"
  have r: "ready d ?e" "held ?e = {DevMutex d}" using assms by simp_all
  note leave = call_on_leave [OF assms(1), of d] on_device_refl [of d ?e]
  obtain bytes missing where copy:
    "k_copy_from_user K (Suc (Suc (tick s))) (umem s) buf sizeof_device_rw = (bytes, missing)"
    by fastforce
  let ?req = "decode_device_rw bytes"
  note facts = assms(1-3) readyD(3-11) [OF r(1)] r leave copy
  note defs = mtcaDummy_read_def handler_run read_request_def idleD REG_def [symmetric]
  have tk: "Suc (Suc (Suc (tick s))) = tick s + 3" by simp
  show ?thesis
  proof (cases "mode_rw ?req = RW_D32")
    case False
    note defs = defs spec_reply_def send_reply_def read_escapes_def sizeof_device_rw_def tk case_prod_beta
    show ?thesis
    proof (cases "mode_rw ?req = RW_DMA \<and> dma_wraps (size_rw ?req) (offset_rw ?req)")
      case True
      with facts assms(4) show ?thesis by (auto simp: defs rw_mode_defs)
    next
      case wraps: False
      with False facts dma_in_bounds [of "size_rw ?req" "offset_rw ?req"] show ?thesis by (simp add: defs)
    qed
  next
    case True
    show ?thesis
    proof (cases "bar_words (barx_rw ?req) (regs s d) (dma s d)")
      case None
      then have "select_bar (devs s ! d) (barx_rw ?req) = None" by (rule select_bar_None)
      with None True facts show ?thesis
        by (simp add: defs spec_reply_def send_reply_def spec_read_def sizeof_device_rw_def rw_mode_defs)
    next
      case (Some ws)
      then obtain p where p: "select_bar (devs s ! d) (barx_rw ?req) = Some (p, 4 * length ws)"
        using select_bar_Some [OF r(1)] by auto
      note facts = facts p Some True
      note defs = defs spec_reply_def send_reply_def spec_read_def sizeof_device_rw_def tk case_prod_beta
      show ?thesis
      proof (cases "valid_offset (offset_rw ?req) ws")
        case False
        with facts show ?thesis by (simp add: defs valid_offset_def not_less)
      next
        case valid: True
        obtain u where u: "load p (REG (offset_rw ?req)) (count_call ?e) = Some (ws ! REG (offset_rw ?req), u)"
          "on_device d (count_call ?e) u" "regs u d = regs s d" "dma u d = dma s d"
          "tick u = Suc (Suc (Suc (tick s)))"
          using load_word [of d "count_call ?e" "devs s" "barx_rw ?req" ws p "4 * length ws"]
            r Some assms p REG_less [OF valid] by auto
        moreover have "on_device d ?e u" "umem u = umem s" "DevMutex d \<in> held u"
          using u(2) r by (auto simp: on_device_def)
        ultimately show ?thesis
          using valid facts
          by (simp add: defs valid_offset_def not_le mtcadummy_performPreReadAction_def)
      qed
    qed
  qed
qed

text \<open>
  The bound check of the DMA branch adds two 32 bit numbers. A request whose sum wraps
  around passes it, and the copy leaves the DMA area.
\<close>

lemma mtcaDummy_read_dma_wrap:
  assumes "idle s" and "private_data filp = Some d" and "d < MTCADUMMY_NR_DEVS"
    and "entry_gate K (read_error (control s)) d (tick s) = None"
    and "sizeof_device_rw \<le> unat count" and "read_request K buf s = (req, 0)"
    and "mode_rw req = RW_DMA" and "2 ^ 32 \<le> unat (size_rw req) + unat (offset_rw req)"
    and "unat (size_rw req + offset_rw req) \<le> MTCADUMMY_DMA_SIZE"
  shows "mtcaDummy_read K filp buf count s = None"
proof -
  let ?e = "entered d s"
  have r: "ready d ?e" using assms by simp
  note rd = readyD(3-11) [OF r]
  obtain bytes where copy: "k_copy_from_user K (Suc (Suc (tick s))) (umem s) buf sizeof_device_rw = (bytes, 0)"
    and req: "req = decode_device_rw bytes"
    using assms(6) by (auto simp: read_request_def split: prod.splits)
  have gate: "k_lock K (tick s) ControlMutex = 0" "\<not> read_error (control s)"
      "k_lock K (Suc (tick s)) (DevMutex d) = 0"
    using assms(4) by (auto simp: entry_gate_def split: if_splits)
  have "unat (offset_rw req) < 2 ^ LENGTH(32)" by (rule unsigned_less)
  with assms(8) have "size_rw req \<noteq> 0" by auto
  moreover have "load_bytes (dmaBar (devs s ! d)) (REG (offset_rw req)) (unat (size_rw req)) (count_call ?e) = None"
  proof -
    have "unat (offset_rw req) < 4 * REG (offset_rw req) + 4" by (simp add: REG_def unat_div)
    with assms(8) have "\<not> 4 * REG (offset_rw req) + unat (size_rw req) \<le> 4 * DMA_WORDS"
      by (simp add: size_defs)
    with rd show ?thesis by (simp add: load_bytes_def)
  qed
  ultimately show ?thesis
    using assms(1-3,5,7,9) rd copy gate idleD [OF assms(1)]
    by (simp add: mtcaDummy_read_def exec flag_read_fold entered_fold req REG_def [symmetric])
qed

lemma mtcaDummy_read_escapes:
  assumes "idle s" and "private_data filp = Some d" and "d < MTCADUMMY_NR_DEVS"
    and "read_escapes K d buf count s"
  shows "mtcaDummy_read K filp buf count s = None"
  using assms(4) mtcaDummy_read_dma_wrap [OF assms(1-3)]
  by (auto simp: read_escapes_def dma_wraps_def split: prod.splits)

section \<open>The open count\<close>

text \<open>Changing \<open>inUse\<close> does not move the bars of any device.\<close>

definition count_opens :: "nat \<Rightarrow> u32 \<Rightarrow> sys \<Rightarrow> sys" where
  "count_opens d k s = s\<lparr>devs := (devs s)[d := (devs s ! d)\<lparr>inUse := inUse (devs s ! d) + k\<rparr>]\<rparr>"

lemma count_opens_nth:
  "e < length (devs s) \<Longrightarrow> devs (count_opens d k s) ! e =
    (if e = d then (devs s ! d)\<lparr>inUse := inUse (devs s ! d) + k\<rparr> else devs s ! e)"
  by (auto simp: count_opens_def nth_list_update)

lemma count_opens_bars [simp]:
  "map systemBar (devs (count_opens d k s)) = map systemBar (devs s)"
  "map dmaBar (devs (count_opens d k s)) = map dmaBar (devs s)"
  "map slotNr (devs (count_opens d k s)) = map slotNr (devs s)"
  "length (devs (count_opens d k s)) = length (devs s)"
  by (cases "d < length (devs s)";
      auto simp: count_opens_def map_update list_update_same_conv list_update_beyond)+

lemma count_opens_fields [simp]:
  "control (count_opens d k s) = control s" "heap (count_opens d k s) = heap s"
  "umem (count_opens d k s) = umem s" "held (count_opens d k s) = held s"
  "log (count_opens d k s) = log s" "tick (count_opens d k s) = tick s"
  "registered (count_opens d k s) = registered s"
  by (simp_all add: count_opens_def)

lemma count_opens_pointers:
  assumes "e < length (devs s)"
  shows "systemBar (devs (count_opens d k s) ! e) = systemBar (devs s ! e)"
    and "dmaBar (devs (count_opens d k s) ! e) = dmaBar (devs s ! e)"
    and "slotNr (devs (count_opens d k s) ! e) = slotNr (devs s ! e)"
  using assms by (simp_all add: count_opens_nth)

lemma live_count_opens [simp]: "live (count_opens d k s) = live s"
proof -
  have "guarded (devs (count_opens d k s)) = guarded (devs s)"
    by (intro ext) (auto simp: guarded_def list_all_iff count_opens_pointers)
  then have "lock_step (devs (count_opens d k s)) e H = lock_step (devs s) e H" for e H
    by (cases e) simp_all
  then have "lock_run (devs (count_opens d k s)) es = lock_run (devs s) es" for es
    by (induction es) (auto intro!: ext)
  moreover have "wf_sys (count_opens d k s) = wf_sys s"
    by (auto simp: wf_sys_def bar_blocks_def count_opens_pointers)
  ultimately show ?thesis by (simp add: live_def disciplined_def)
qed

lemma idle_count_opens [simp]: "idle (count_opens d k s) = idle s"
  by (simp add: idle_def)

lemma bars_count_opens [simp]:
  assumes "wf_sys s" and "e < MTCADUMMY_NR_DEVS"
  shows "regs (count_opens d k s) e = regs s e" and "dma (count_opens d k s) e = dma s e"
  using assms by (simp_all add: regs_def dma_def count_opens_pointers wf_length_devs)

lemma atomic_add_exec [exec]:
  "d < length (devs s) \<Longrightarrow> atomic_add d k s = Some ((), count_opens d k s)"
  by (simp add: atomic_add_def dev_at_def count_opens_def)

lemma idle_length_devs: "idle s \<Longrightarrow> length (devs s) = MTCADUMMY_NR_DEVS"
  by (simp add: idle_def live_def wf_length_devs)

lemma mtcaDummy_open_refines:
  assumes "idle s" and "i < MTCADUMMY_NR_DEVS"
  shows "ensures (mtcaDummy_open K i filp s)
    (\<lambda>(r, filp') t.
      if k_lock K (tick s) ControlMutex \<noteq> 0 then
        r = - ERESTARTSYS \<and> filp' = filp \<and> t = count_call s
      else if open_error (control s) then
        r = - EINVAL \<and> filp' = filp \<and> t = flag_read s
      else r = 0 \<and> filp' = filp\<lparr>private_data := Some i\<rparr> \<and> t = count_opens i 1 (flag_read s))"
proof -
  have "i < length (devs (flag_read s))" using assms by (simp add: idle_length_devs)
  with assms show ?thesis
    by (simp add: mtcaDummy_open_def handler_run atomic_add_exec idleD)
qed

lemma mtcaDummy_release_refines:
  assumes "idle s" and "private_data filp = Some d" and "d < MTCADUMMY_NR_DEVS"
  shows "mtcaDummy_release filp s = Some (0, count_opens d (- 1) s)"
  using assms by (simp add: mtcaDummy_release_def exec idle_length_devs)

section \<open>Requests in user memory\<close>

lemma word_at_append:
  "word_at (bytes_of w @ bs) 0 = w"
  "word_at (bytes_of w @ bs) (Suc i) = word_at bs i"
  by (simp_all add: word_at_def)

lemma word_at_encode:
  "word_at (bytes_of_words (w # ws)) 0 = w"
  "word_at (bytes_of_words (w # ws)) (Suc i) = word_at (bytes_of_words ws) i"
  by (simp_all add: word_at_append)

lemma decode_encode_device_rw [simp]: "decode_device_rw (encode_device_rw r) = r"
  by (simp add: decode_device_rw_def encode_device_rw_def word_at_encode eval_nat_numeral
      del: bytes_of_words_simps)

lemma length_encode_device_rw [simp]: "length (encode_device_rw r) = sizeof_device_rw"
  by (simp add: encode_device_rw_def sizeof_device_rw_def)

text \<open>A user buffer that holds a request; the request that is in a user buffer.\<close>

definition buffer_holds :: "umem \<Rightarrow> u64 \<Rightarrow> device_rw \<Rightarrow> bool" where
  "buffer_holds m buf r \<longleftrightarrow> umem_read m buf sizeof_device_rw = encode_device_rw r"

lemma read_request_holds:
  assumes "uaccess_ok K" and "buffer_holds (umem s) buf r" and "read_request K buf s = (req, 0)"
  shows "req = r"
proof -
  obtain bytes where c:
    "k_copy_from_user K (Suc (Suc (tick s))) (umem s) buf sizeof_device_rw = (bytes, 0)"
    "req = decode_device_rw bytes"
    using assms(3) by (auto simp: read_request_def split: prod.splits)
  from uaccess_from(2) [OF assms(1) c(1)] assms(2) c(2) show ?thesis
    by (simp add: buffer_holds_def)
qed

text \<open>What a transfer that returned its full length has done.\<close>

lemma write_returned:
  assumes "idle s" "private_data filp = Some d" "d < MTCADUMMY_NR_DEVS" "uaccess_ok K"
    and "buffer_holds (umem s) buf r" and "mtcaDummy_write K filp buf count s = Some (24, t)"
  shows "call_on d s t" and "mode_rw r = RW_D32"
    and "\<exists>ws. bar_words (barx_rw r) (regs s d) (dma s d) = Some ws \<and> valid_offset (offset_rw r) ws"
    and "spec_write K False (spi_error (control s)) (barx_rw r) (offset_rw r) (data_rw r)
      (regs s d) (dma s d) = (0, regs t d, dma t d)"
proof -
  obtain req missing where rq: "read_request K buf s = (req, missing)" by fastforce
  note run = mtcaDummy_write_refines [OF assms(1-3), of K buf count, unfolded assms(6) rq, simplified]
  then show "call_on d s t" by simp
  have gate: "entry_gate K (write_error (control s)) d (tick s) = None"
    using run by (auto simp: entry_gate_def errno_defs split: if_splits)
  have ok: "\<not> (unat count < sizeof_device_rw \<or> missing \<noteq> 0 \<or> mode_rw req \<noteq> RW_D32)"
    using run gate by (auto simp: errno_defs split: if_splits)
  with rq assms(4,5) have req: "req = r" using read_request_holds by simp
  with ok show "mode_rw r = RW_D32" by simp
  let ?i = "k_lock K (tick s + 3) ControlMutex \<noteq> 0"
  obtain e rs ds where e: "spec_write K ?i (spi_error (control s)) (barx_rw r) (offset_rw r) (data_rw r)
      (regs s d) (dma s d) = (e, rs, ds)" by (metis prod.exhaust)
  have eq: "24 = (if e = 0 then int sizeof_device_rw else e)" "regs t d = rs" "dma t d = ds"
    using run gate ok req e by (simp_all add: add.commute)
  have e0: "e = 0"
    using eq(1) e by (auto simp: spec_write_def errno_defs split: option.splits if_splits prod.splits)
  then show ws: "\<exists>ws. bar_words (barx_rw r) (regs s d) (dma s d) = Some ws \<and> valid_offset (offset_rw r) ws"
    using e by (auto simp: spec_write_def errno_defs split: option.splits if_splits)
  show "spec_write K False (spi_error (control s)) (barx_rw r) (offset_rw r) (data_rw r)
      (regs s d) (dma s d) = (0, regs t d, dma t d)"
    using e e0 eq by (auto simp: spec_write_def errno_defs split: option.splits if_splits prod.splits)
qed

lemma read_returned:
  assumes "idle s" "private_data filp = Some d" "d < MTCADUMMY_NR_DEVS" "uaccess_ok K"
    and "buffer_holds (umem s) buf r" and "mode_rw r = RW_D32"
    and "mtcaDummy_read K filp buf count s = Some (24, t)"
  shows "call_on d s t" and "regs t d = regs s d" and "dma t d = dma s d"
    and "\<exists>v. spec_read (barx_rw r) (offset_rw r) (regs s d) (dma s d) = Inr v \<and>
      buffer_holds (umem t) buf (r\<lparr>data_rw := v\<rparr>)"
proof -
  obtain req missing where rq: "read_request K buf s = (req, missing)" by fastforce
  have req: "missing = 0 \<Longrightarrow> req = r" using rq assms(4,5) read_request_holds by simp
  with rq assms(6) have "\<not> read_escapes K d buf count s"
    by (auto simp: read_escapes_def rw_mode_defs)
  note ref = mtcaDummy_read_refines [OF assms(1-3) this, unfolded assms(7) rq, simplified]
  have gate: "entry_gate K (read_error (control s)) d (tick s) = None"
    using ref by (auto simp: entry_gate_def errno_defs split: if_splits)
  with ref req have run: "call_on d s t \<and> regs t d = regs s d \<and> dma t d = dma s d \<and> missing = 0 \<and>
      (24, umem t) = send_reply K buf s (spec_reply K (of_nat d) r (regs s d) (dma s d))"
    by (auto simp: errno_defs split: if_splits)
  then show "call_on d s t" "regs t d = regs s d" "dma t d = dma s d" by simp_all
  obtain v where v: "spec_read (barx_rw r) (offset_rw r) (regs s d) (dma s d) = Inr v"
    using run assms(6)
    by (auto simp: send_reply_def spec_reply_def spec_read_def errno_defs rw_mode_defs split: sum.splits option.splits if_splits)
  let ?bs = "encode_device_rw (r\<lparr>data_rw := v\<rparr>)"
  obtain m missing where c: "k_copy_to_user K (tick s + 3) (umem s) buf ?bs = (m, missing)" by fastforce
  have "missing = 0" "umem t = m"
    using run assms(6) v c by (auto simp: send_reply_def spec_reply_def rw_mode_defs errno_defs split: if_splits)
  with uaccess_to [OF assms(4) c] have "umem t = umem_write (umem s) buf ?bs" by simp
  moreover have "umem_read (umem_write (umem s) buf ?bs) buf (length ?bs) = ?bs"
    by (rule umem_read_write) (simp add: sizeof_device_rw_def)
  ultimately have "buffer_holds (umem t) buf (r\<lparr>data_rw := v\<rparr>)"
    by (simp add: buffer_holds_def)
  with v show "\<exists>v. spec_read (barx_rw r) (offset_rw r) (regs s d) (dma s d) = Inr v \<and>
      buffer_holds (umem t) buf (r\<lparr>data_rw := v\<rparr>)" by blast
qed

section \<open>A concrete request\<close>

definition request :: "u32 \<Rightarrow> u32 \<Rightarrow> u32 \<Rightarrow> u32 \<Rightarrow> u32 \<Rightarrow> device_rw" where
  "request mode bar off data n =
    \<lparr>offset_rw = off, data_rw = data, mode_rw = mode, barx_rw = bar, size_rw = n, rsrvd_rw = 0\<rparr>"

lemma request_simps [simp]:
  "offset_rw (request mode bar off v n) = off" "data_rw (request mode bar off v n) = v"
  "mode_rw (request mode bar off v n) = mode" "barx_rw (request mode bar off v n) = bar"
  "size_rw (request mode bar off v n) = n"
  "(request mode bar off v n)\<lparr>data_rw := w\<rparr> = request mode bar off w n"
  by (simp_all add: request_def)

text \<open>A state with a request at the user address 0.\<close>

definition ask :: "device_rw \<Rightarrow> sys \<Rightarrow> sys" where
  "ask r s = with_umem 0 (encode_device_rw r) s"

lemma ask_simps [simp]:
  "devs (ask r s) = devs s" "control (ask r s) = control s" "tick (ask r s) = tick s"
  "regs (ask r s) d = regs s d" "dma (ask r s) d = dma s d" "idle (ask r s) = idle s"
  by (simp_all add: ask_def)

lemma ask_holds [simp]: "buffer_holds (umem (ask r s)) 0 r"
  using umem_read_write [of "encode_device_rw r" "umem s" 0]
  by (simp add: ask_def buffer_holds_def sizeof_device_rw_def)

lemma ref_read_request [simp]: "read_request ref_kernel 0 (ask r s) = (r, 0)"
  using ask_holds [of r s] by (simp add: read_request_def buffer_holds_def)

lemma ref_gate [simp]: "entry_gate ref_kernel b d t = (if b then Some (- EFAULT) else None)"
  by (simp add: entry_gate_def)

lemma ref_write:
  assumes "idle s" "d < MTCADUMMY_NR_DEVS" "\<not> write_error (control s)"
    and "spec_write ref_kernel False (spi_error (control s)) bar off v (regs s d) (dma s d) = (0, rs, ds)"
  obtains t where
    "mtcaDummy_write ref_kernel (opened d) 0 24 (ask (request RW_D32 bar off v n) s) = Some (24, t)"
    "regs t d = rs" "dma t d = ds" "call_on d (ask (request RW_D32 bar off v n) s) t"
    "umem t = umem (ask (request RW_D32 bar off v n) s)"
proof -
  have "idle (ask (request RW_D32 bar off v n) s)" using assms(1) by simp
  from mtcaDummy_write_refines [OF this opened_simps assms(2), of ref_kernel 0 24] show thesis
    using assms(3,4) that by (auto simp: ensures_iff sizeof_device_rw_def rw_mode_defs)
qed

lemma ref_read:
  assumes "idle s" "d < MTCADUMMY_NR_DEVS" "\<not> read_error (control s)"
    and "spec_read bar off (regs s d) (dma s d) = Inr w"
  obtains t where
    "mtcaDummy_read ref_kernel (opened d) 0 24 (ask (request RW_D32 bar off v n) s) = Some (24, t)"
    "regs t d = regs s d" "dma t d = dma s d" "call_on d (ask (request RW_D32 bar off v n) s) t"
proof -
  have "idle (ask (request RW_D32 bar off v n) s)" using assms(1) by simp
  from mtcaDummy_read_refines [OF this opened_simps assms(2), of ref_kernel 0 24] show thesis
    using assms(3,4) that
    by (auto simp: ensures_iff sizeof_device_rw_def rw_mode_defs read_escapes_def send_reply_def spec_reply_def)
qed

lemma ref_regs_nth:
  "i < MTCADUMMY_N_REGISTERS \<Longrightarrow> initial_regs ref_kernel ! i =
    (if i = 1 then 10 else if i = 15 then MTCADUMMY_DMMY_AS_ASCII else if i = 16 then 1
     else if i = 19 then MTCADUMMY_BROKEN_WRITE else 0)"
  by (auto simp: initial_regs_def size_defs nth_list_update)

lemmas ref_eval = spec_write_def spec_read_def spec_action_def bar_words_def valid_offset_def
  register_defs size_defs initial_regs_def

lemma spec_write_then_read:
  assumes "spec_write K False spiFail bar off x rs ds = (0, rs', ds')"
    and "valid_offset off ws" and "bar_words bar rs ds = Some ws"
    and "spec_read bar off rs' ds' = Inr v"
    and "bar = 0 \<longrightarrow> off \<notin> {MTCADUMMY_WORD_FIRMWARE, MTCADUMMY_WORD_COMPILATION, MTCADUMMY_WORD_DUMMY}"
  shows "v = x"
  using assms(3)
proof (cases rule: bar_words_cases)
  case 2
  with assms REG_less [OF assms(2)] show ?thesis
    by (auto simp: spec_write_def spec_read_def bar_words_def split: if_splits)
next
  case 1
  note lt = REG_less [OF assms(2)]
  consider "off = MTCADUMMY_WORD_CLK_RST" | "off = MTCADUMMY_WORD_ADC_ENA"
    | "off = MTCADUMMY_WORD_SPI_WRITE"
    | "off \<notin> {MTCADUMMY_WORD_CLK_RST, MTCADUMMY_WORD_ADC_ENA, MTCADUMMY_WORD_SPI_WRITE}" by blast
  then show ?thesis
    by cases (use assms 1 lt in \<open>auto simp: spec_write_def spec_read_def bar_words_def
      spec_action_def clear_clocks_def register_defs REG_def unat_div split: if_splits\<close>)
qed

end
