(* ===== verification/Proc.thy ===== *)
theory Proc
  imports Struct_Io
begin

text \<open>
  The proc file of \<open>mtcadummy_proc.c\<close>: writing to it sets the error switches, reading it
  dumps the bars of the devices that are in use as text.
\<close>

section \<open>strsep and sscanf\<close>

text \<open>
  \<open>strsep(&iter, " ")\<close>: \<open>None\<close> is the null pointer. The result is the token and the new
  value of \<open>iter\<close>.
\<close>

definition strsep :: "string option \<Rightarrow> (string \<times> string option) option" where
  "strsep iter = (case iter of
      None \<Rightarrow> None
    | Some str \<Rightarrow>
        Some (takeWhile (\<lambda>c. c \<noteq> CHR '' '') str,
          case dropWhile (\<lambda>c. c \<noteq> CHR '' '') str of [] \<Rightarrow> None | _ # rest \<Rightarrow> Some rest))"

definition is_digit :: "char \<Rightarrow> bool" where
  "is_digit c \<longleftrightarrow> 48 \<le> (of_char c :: nat) \<and> (of_char c :: nat) \<le> 57"

text \<open>\<open>isspace\<close> of the kernel: tab, line feed, vertical tab, form feed, return, the two spaces.\<close>

definition is_space :: "char \<Rightarrow> bool" where
  "is_space c \<longleftrightarrow> (of_char c :: nat) \<in> {9, 10, 11, 12, 13, 32, 160}"

definition digit_value :: "char \<Rightarrow> nat option" where
  "digit_value c = (let n = of_char c :: nat in
     if 48 \<le> n \<and> n \<le> 57 then Some (n - 48)
     else if 97 \<le> n \<and> n \<le> 102 then Some (n - 87)
     else if 65 \<le> n \<and> n \<le> 70 then Some (n - 55)
     else None)"

text \<open>The digits at the start of a string; the 64 bit result wraps around.\<close>

fun parse_digits :: "nat \<Rightarrow> u64 \<Rightarrow> string \<Rightarrow> u64" where
  "parse_digits base acc [] = acc"
| "parse_digits base acc (c # cs) =
    (case digit_value c of
       None \<Rightarrow> acc
     | Some v \<Rightarrow>
         if base \<le> v then acc else parse_digits base (acc * of_nat base + of_nat v) cs)"

text \<open>\<open>simple_strtoull\<close> and \<open>simple_strtoll\<close> with base 0: a prefix selects the base.\<close>

definition hex_prefix :: "string \<Rightarrow> bool" where
  "hex_prefix str \<longleftrightarrow> 2 < length str \<and> str ! 0 = CHR ''0'' \<and>
    (str ! 1 = CHR ''x'' \<or> str ! 1 = CHR ''X'') \<and> digit_value (str ! 2) \<noteq> None"

definition simple_strtoull :: "string \<Rightarrow> u64" where
  "simple_strtoull str =
    (if hex_prefix str then parse_digits 16 0 (drop 2 str)
     else if take 1 str = ''0'' then parse_digits 8 0 str
     else parse_digits 10 0 str)"

definition simple_strtoll :: "string \<Rightarrow> u64" where
  "simple_strtoll str =
    (if take 1 str = ''-'' then - simple_strtoull (drop 1 str) else simple_strtoull str)"

text \<open>
  \<open>sscanf(token, "<prefix>%i", &value) == 1\<close> with the value: the literal prefix, then
  white space, an optional sign and at least one digit. The value is cut to an \<open>int\<close>.
\<close>

definition sscanf_i :: "string \<Rightarrow> string \<Rightarrow> int option" where
  "sscanf_i prefix token =
    (if take (length prefix) token \<noteq> prefix then None
     else
       let str = dropWhile is_space (drop (length prefix) token);
           digit = take 1 (if take 1 str = ''-'' then drop 1 str else str)
       in
         if list_all is_digit digit \<and> digit \<noteq> []
         then Some (sint (ucast (simple_strtoll str) :: u32)) else None)"

section \<open>Writing to the proc file\<close>

record parameters =
  p_open :: int
  p_spi :: int
  p_read :: int
  p_write :: int

definition no_parameters :: parameters where
  "no_parameters = \<lparr>p_open = - 1, p_spi = - 1, p_read = - 1, p_write = - 1\<rparr>"

definition take_token :: "string \<Rightarrow> parameters \<Rightarrow> parameters" where
  "take_token token p =
    (case sscanf_i ''open:'' token of Some v \<Rightarrow> p\<lparr>p_open := v\<rparr> | None \<Rightarrow>
     case sscanf_i ''read:'' token of Some v \<Rightarrow> p\<lparr>p_read := v\<rparr> | None \<Rightarrow>
     case sscanf_i ''write:'' token of Some v \<Rightarrow> p\<lparr>p_write := v\<rparr> | None \<Rightarrow>
     case sscanf_i ''spi:'' token of Some v \<Rightarrow> p\<lparr>p_spi := v\<rparr> | None \<Rightarrow> p)"

text \<open>\<open>while ((token = strsep(&iter, " ")) != NULL)\<close>\<close>

definition iter_length :: "string option \<Rightarrow> nat" where
  "iter_length iter = (case iter of None \<Rightarrow> 0 | Some str \<Rightarrow> Suc (length str))"

lemma dropWhile_Cons_length: "dropWhile P xs = y # ys \<Longrightarrow> length ys < length xs"
  using length_dropWhile_le [of P xs] by simp

lemma strsep_shorter: "strsep iter = Some (token, iter') \<Longrightarrow> iter_length iter' < iter_length iter"
  by (cases iter)
    (auto simp: strsep_def iter_length_def dest: dropWhile_Cons_length split: list.splits)

function collect :: "string option \<Rightarrow> parameters \<Rightarrow> parameters" where
  "collect iter p = (case strsep iter of
      None \<Rightarrow> p
    | Some (token, iter') \<Rightarrow> collect iter' (take_token token p))"
  by pat_completeness auto
termination
  by (relation "measure (\<lambda>(iter, p). iter_length iter)") (auto dest: strsep_shorter)

declare collect.simps [simp del]

definition update_control ::
    "(mtcaDummyControl \<Rightarrow> mtcaDummyControl) \<Rightarrow> sys \<Rightarrow> (unit \<times> sys) option" where
  "update_control f s = Some ((), s\<lparr>control := f (control s), log := log s @ [Flags]\<rparr>)"

text \<open>\<open>if(v > -1) d->flag = v; else v = d->flag;\<close>, where the flag is a one bit \<open>bool\<close>.\<close>

definition set_switch ::
    "int \<Rightarrow> (mtcaDummyControl \<Rightarrow> bool) \<Rightarrow> (bool \<Rightarrow> mtcaDummyControl \<Rightarrow> mtcaDummyControl) \<Rightarrow> sys \<Rightarrow>
      (unit \<times> sys) option" where
  "set_switch v get put s =
    (if v > - 1 then update_control (put (v \<noteq> 0)) s
     else do { (_, s) \<leftarrow> read_control get s; Some ((), s) })"

text \<open>The C string in a buffer of bytes.\<close>

definition c_string :: "u8 list \<Rightarrow> string" where
  "c_string bs = map (\<lambda>b. char_of (unat b)) (takeWhile (\<lambda>b. b \<noteq> 0) bs)"

definition sizeof_cmd :: nat where "sizeof_cmd = 255"

definition mtcadummy_proc_write :: "kernel \<Rightarrow> u64 \<Rightarrow> u64 \<Rightarrow> sys \<Rightarrow> (int \<times> sys) option" where
  "mtcadummy_proc_write K ubuf count s = do {
     let len = min (unat count) (sizeof_cmd - 1);
     ((bytes, missing), s) \<leftarrow> copy_from_user K ubuf len s;
     if missing \<noteq> 0 then Some (- EFAULT, s) else do {
     let p = collect (Some (c_string (bytes @ [0]))) no_parameters;
     (locked, s) \<leftarrow> mutex_lock_interruptible K ControlMutex s;
     if locked \<noteq> 0 then Some (- EAGAIN, s) else do {
     (_, s) \<leftarrow> set_switch (p_open p) open_error (\<lambda>b c. c\<lparr>open_error := b\<rparr>) s;
     (_, s) \<leftarrow> set_switch (p_read p) read_error (\<lambda>b c. c\<lparr>read_error := b\<rparr>) s;
     (_, s) \<leftarrow> set_switch (p_write p) write_error (\<lambda>b c. c\<lparr>write_error := b\<rparr>) s;
     (_, s) \<leftarrow> set_switch (p_spi p) spi_error (\<lambda>b c. c\<lparr>spi_error := b\<rparr>) s;
     (_, s) \<leftarrow> mutex_unlock ControlMutex s;
     Some (sint count, s)
   }}}"

section \<open>Reading the proc file\<close>

text \<open>The position is the number of the device; the iterator is a pointer to it.\<close>

definition mtcadummy_seq_start :: "nat \<Rightarrow> nat option" where
  "mtcadummy_seq_start pos = (if pos \<ge> MTCADUMMY_NR_DEVS then None else Some pos)"

definition mtcadummy_seq_next :: "nat \<Rightarrow> nat \<times> nat option" where
  "mtcadummy_seq_next pos =
    (let pos = Suc pos in (pos, if pos \<ge> MTCADUMMY_NR_DEVS then None else Some pos))"

text \<open>\<open>%d\<close>, and \<open>%08X\<close> of a value below \<open>2 ^ 32\<close>\<close>

fun dec_digits :: "nat \<Rightarrow> string" where
  "dec_digits n =
    (if n < 10 then [char_of (48 + n)] else dec_digits (n div 10) @ [char_of (48 + n mod 10)])"

declare dec_digits.simps [simp del]

definition show_int :: "int \<Rightarrow> string" where
  "show_int n = (if n < 0 then ''-'' @ dec_digits (nat (- n)) else dec_digits (nat n))"

definition hex_digit :: "nat \<Rightarrow> char" where
  "hex_digit n = char_of (if n < 10 then 48 + n else 55 + n)"

definition hex8 :: "nat \<Rightarrow> string" where
  "hex8 n = map (\<lambda>k. hex_digit (n div 16 ^ k mod 16)) [7, 6, 5, 4, 3, 2, 1, 0]"

definition newline :: string where "newline = [char_of (10 :: nat)]"
definition tab :: string where "tab = [char_of (9 :: nat)]"

definition show_register :: "nat \<Rightarrow> u32 \<Rightarrow> u32 \<Rightarrow> string" where
  "show_register reg v w =
    ''0x'' @ hex8 reg @ tab @ ''0x'' @ hex8 (unat v) @ tab @ show_int (sint w) @ newline"

definition show_dma_row :: "nat \<Rightarrow> u32 \<Rightarrow> u32 \<Rightarrow> u32 \<Rightarrow> u32 \<Rightarrow> string" where
  "show_dma_row bytes a b c d =
    ''0x'' @ hex8 bytes @ tab @ ''0x'' @ hex8 (unat a) @ tab @ ''0x'' @ hex8 (unat b) @ tab @
    ''0x'' @ hex8 (unat c) @ tab @ ''0x'' @ hex8 (unat d) @ newline"

definition not_in_use_text :: "u32 \<Rightarrow> string" where
  "not_in_use_text slot = ''Device '' @ show_int (sint slot) @ '' not in use.'' @ newline @ newline"

definition register_header :: "u32 \<Rightarrow> string" where
  "register_header slot =
    ''Device '' @ show_int (sint slot) @ '' System Bar:'' @ newline @
    ''Register Content_hex Content_dec:'' @ newline"

definition dma_header :: "u32 \<Rightarrow> string" where
  "dma_header slot =
    newline @ ''Device '' @ show_int (sint slot) @ '' DMA Bar:'' @ newline @
    ''Offset Content[offset]  Content[offset+0x4]  Content[offset+0x8] Content[offset+0xC]:'' @ newline"

text \<open>
  The loops work on the text printed so far and the state. The second one runs over
  \<open>index = 0, 4, 8, \<dots>\<close>, here \<open>index = 4 * i\<close>.
\<close>

definition show_register_body ::
    "ptr \<Rightarrow> nat \<Rightarrow> string \<times> sys \<Rightarrow> (int \<times> string \<times> sys) option" where
  "show_register_body bar reg st = (case st of (out, s) \<Rightarrow> do {
     (v, s) \<leftarrow> load bar reg s;
     (w, s) \<leftarrow> load bar reg s;
     Some (0, out @ show_register reg v w, s)
   })"

definition show_dma_body ::
    "ptr \<Rightarrow> nat \<Rightarrow> string \<times> sys \<Rightarrow> (int \<times> string \<times> sys) option" where
  "show_dma_body bar i st = (case st of (out, s) \<Rightarrow> do {
     let index = 4 * i;
     (a, s) \<leftarrow> load bar index s;
     (b, s) \<leftarrow> load bar (index + 1) s;
     (c, s) \<leftarrow> load bar (index + 2) s;
     (d, s) \<leftarrow> load bar (index + 3) s;
     Some (0, out @ show_dma_row (index * 4) a b c d, s)
   })"

definition mtcadummy_seq_show :: "kernel \<Rightarrow> nat \<Rightarrow> sys \<Rightarrow> ((int \<times> string) \<times> sys) option" where
  "mtcadummy_seq_show K v s = do {
     data \<leftarrow> dev_at s v;
     if inUse data = 0 then Some ((0, not_in_use_text (slotNr data)), s) else do {
     (locked, s) \<leftarrow> mutex_lock_interruptible K (DevMutex v) s;
     if locked \<noteq> 0 then Some ((- ERESTARTSYS, []), s) else do {
     (_, out, s) \<leftarrow> for_loop (show_register_body (systemBar data)) 0 MTCADUMMY_N_REGISTERS
       (register_header (slotNr data), s);
     (_, out, s) \<leftarrow> for_loop (show_dma_body (dmaBar data)) 0 ((MTCADUMMY_DMA_SIZE div 4 - 4) div 4 + 1)
       (out @ dma_header (slotNr data), s);
     (_, s) \<leftarrow> mutex_unlock (DevMutex v) s;
     Some ((0, out @ newline), s)
   }}}"

section \<open>The switches a command sets\<close>

definition switched :: "int \<Rightarrow> bool \<Rightarrow> bool" where
  "switched v b = (if v > - 1 then v \<noteq> 0 else b)"

definition switch_all :: "parameters \<Rightarrow> mtcaDummyControl \<Rightarrow> mtcaDummyControl" where
  "switch_all p c =
    \<lparr>open_error = switched (p_open p) (open_error c),
     read_error = switched (p_read p) (read_error c),
     write_error = switched (p_write p) (write_error c),
     spi_error = switched (p_spi p) (spi_error c)\<rparr>"

definition put_control :: "mtcaDummyControl \<Rightarrow> sys \<Rightarrow> sys" where
  "put_control c s = s\<lparr>control := c, log := log s @ [Flags]\<rparr>"

lemma put_control_simps [simp]:
  "devs (put_control c s) = devs s" "control (put_control c s) = c"
  "registered (put_control c s) = registered s" "umem (put_control c s) = umem s"
  "held (put_control c s) = held s" "tick (put_control c s) = tick s"
  "heap (put_control c s) = heap s" "regs (put_control c s) e = regs s e"
  "dma (put_control c s) e = dma s e" "wf_sys (put_control c s) = wf_sys s"
  by (simp_all add: put_control_def regs_def dma_def wf_sys_def)

lemma live_put_control [simp]: "live s \<Longrightarrow> ControlMutex \<in> held s \<Longrightarrow> live (put_control c s)"
  by (simp add: live_def) (simp add: disciplined_def put_control_def)

lemma set_switch_exec [exec]:
  "set_switch v get put s =
    Some ((), put_control (if v > - 1 then put (v \<noteq> 0) (control s) else control s) s)"
  by (simp add: set_switch_def update_control_def put_control_def read_control_exec note_flags_def)

text \<open>What a write to the proc file leaves alone: everything but the switches.\<close>

definition call_on_switches :: "sys \<Rightarrow> sys \<Rightarrow> bool" where
  "call_on_switches s t \<longleftrightarrow>
    idle t \<and> devs t = devs s \<and> umem t = umem s \<and> registered t = registered s \<and>
    (\<forall>e < MTCADUMMY_NR_DEVS. regs t e = regs s e \<and> dma t e = dma s e)"

definition command_of :: "u8 list \<Rightarrow> parameters" where
  "command_of bytes = collect (Some (c_string bytes)) no_parameters"

lemma c_string_terminated: "c_string (bytes @ [0]) = c_string bytes"
  by (induction bytes) (simp_all add: c_string_def)

lemma mtcadummy_proc_write_refines:
  assumes "idle s"
  shows "ensures (mtcadummy_proc_write K ubuf count s)
    (\<lambda>r t. call_on_switches s t \<and>
      (r, control t) =
        (case k_copy_from_user K (tick s) (umem s) ubuf (min (unat count) 254) of (bytes, missing) \<Rightarrow>
          if missing \<noteq> 0 then (- EFAULT, control s)
          else if k_lock K (Suc (tick s)) ControlMutex \<noteq> 0 then (- EAGAIN, control s)
          else (sint count, switch_all (command_of bytes) (control s))))"
proof -
  obtain bytes missing where c:
    "k_copy_from_user K (tick s) (umem s) ubuf (min (unat count) 254) = (bytes, missing)"
    by fastforce
  let ?e = "take_lock ControlMutex (count_call s)"
  have e: "live ?e" "ControlMutex \<in> held ?e" using assms by (simp_all add: idle_def)
  have i: "held s = {}" "live s" using assms by (simp_all add: idle_def)
  have sw: "switch_all p q = q\<lparr>open_error := switched (p_open p) (open_error q),
      read_error := switched (p_read p) (read_error q),
      write_error := switched (p_write p) (write_error q),
      spi_error := switched (p_spi p) (spi_error q)\<rparr>" for p q
    by (simp add: switch_all_def)
  show ?thesis
    using e i c
    by (simp add: mtcadummy_proc_write_def exec wp sizeof_cmd_def c_string_terminated
        call_on_switches_def idle_def command_of_def [symmetric] sw switched_def)
qed

section \<open>Tokens\<close>

fun tokens :: "string \<Rightarrow> string list" where
  "tokens [] = [[]]"
| "tokens (c # cs) =
    (if c = CHR '' '' then [] # tokens cs
     else case tokens cs of [] \<Rightarrow> [[c]] | w # ws \<Rightarrow> (c # w) # ws)"

lemma tokens_not_Nil [simp]: "tokens cs \<noteq> []"
  by (induction cs) (auto split: list.splits)

lemma tokens_word: "CHR '' '' \<notin> set w \<Longrightarrow> tokens w = [w]"
  by (induction w) auto

lemma tokens_append: "CHR '' '' \<notin> set w \<Longrightarrow> tokens (w @ CHR '' '' # cs) = w # tokens cs"
  by (induction w) auto

lemma collect_step:
  "collect (Some str) p =
    collect (case dropWhile (\<lambda>c. c \<noteq> CHR '' '') str of [] \<Rightarrow> None | _ # rest \<Rightarrow> Some rest)
      (take_token (takeWhile (\<lambda>c. c \<noteq> CHR '' '') str) p)"
  by (simp add: collect.simps [of "Some str"] strsep_def)

lemma collect_None [simp]: "collect None p = p"
  by (simp add: collect.simps strsep_def)

lemma tokens_split:
  "tokens str = takeWhile (\<lambda>c. c \<noteq> CHR '' '') str #
    (case dropWhile (\<lambda>c. c \<noteq> CHR '' '') str of [] \<Rightarrow> [] | _ # rest \<Rightarrow> tokens rest)"
  by (induction str) (auto split: list.splits)

text \<open>The loop over \<open>strsep\<close> handles the tokens from left to right.\<close>

lemma collect_tokens: "collect (Some str) p = foldl (\<lambda>p token. take_token token p) p (tokens str)"
proof (induction str arbitrary: p rule: measure_induct_rule [where f = length])
  case (less str)
  show ?case
  proof (cases "dropWhile (\<lambda>c. c \<noteq> CHR '' '') str")
    case Nil
    show ?thesis unfolding collect_step [of str] tokens_split [of str] Nil by simp
  next
    case (Cons c rest)
    show ?thesis
      unfolding collect_step [of str] tokens_split [of str] Cons
      by (simp add: less dropWhile_Cons_length [OF Cons])
  qed
qed

section \<open>Printed numbers can be read back\<close>

lemma digit_value_dec: "k < 10 \<Longrightarrow> digit_value (char_of (48 + k)) = Some k"
  by (simp add: digit_value_def)

lemma digit_value_hex: "k < 16 \<Longrightarrow> digit_value (hex_digit k) = Some k"
  by (auto simp: digit_value_def hex_digit_def)

definition valid_digit :: "nat \<Rightarrow> char \<Rightarrow> bool" where
  "valid_digit base c \<longleftrightarrow> (case digit_value c of None \<Rightarrow> False | Some v \<Rightarrow> v < base)"

lemma parse_digits_append:
  "list_all (valid_digit base) xs \<Longrightarrow>
    parse_digits base acc (xs @ ys) = parse_digits base (parse_digits base acc xs) ys"
  by (induction xs arbitrary: acc) (auto simp: valid_digit_def split: option.splits)

lemma dec_digits_valid: "list_all (\<lambda>c. is_digit c \<and> valid_digit 10 c) (dec_digits n)"
proof (induction n rule: dec_digits.induct)
  case (1 n)
  have "is_digit (char_of (48 + k)) \<and> valid_digit 10 (char_of (48 + k))" if "k < 10" for k :: nat
    using that by (simp add: is_digit_def valid_digit_def digit_value_dec)
  with 1 show ?case by (simp add: dec_digits.simps [of n])
qed

lemma dec_digits_not_Nil [simp]: "dec_digits n \<noteq> []"
  by (simp add: dec_digits.simps [of n])

lemma parse_dec: "parse_digits 10 0 (dec_digits n) = of_nat n"
proof (induction n rule: dec_digits.induct)
  case (1 n)
  show ?case
  proof (cases "n < 10")
    case True
    then show ?thesis by (simp add: dec_digits.simps [of n] digit_value_dec)
  next
    case False
    have "list_all (valid_digit 10) (dec_digits (n div 10))"
      using dec_digits_valid [of "n div 10"] by (auto simp: list_all_iff)
    then have "parse_digits 10 0 (dec_digits n) = of_nat (n div 10) * 10 + of_nat (n mod 10)"
      using 1 False
      by (simp add: dec_digits.simps [of n] parse_digits_append digit_value_dec)
    also have "\<dots> = of_nat (n div 10 * 10 + n mod 10)"
      by (simp only: of_nat_add of_nat_mult of_nat_numeral)
    finally show ?thesis by (simp only: div_mult_mod_eq)
  qed
qed

lemma hd_dec_digits: "hd (dec_digits n) = CHR ''0'' \<longleftrightarrow> n = 0"
proof (induction n rule: dec_digits.induct)
  case (1 n)
  have "char_of (48 + k) = CHR ''0'' \<longleftrightarrow> k = 0" if "k < 10" for k :: nat
  proof -
    have "CHR ''0'' = char_of (48 :: nat)" by (simp add: char_of_def bit_0)
    then show ?thesis using that by (metis add_0_right digit_value_dec option.inject zero_less_numeral)
  qed
  with 1 show ?case by (cases "n < 10") (simp_all add: dec_digits.simps [of n])
qed

lemma is_digit_x: "is_digit c \<Longrightarrow> c \<noteq> CHR ''x'' \<and> c \<noteq> CHR ''X'' \<and> c \<noteq> CHR ''-'' \<and> \<not> is_space c"
  by (auto simp: is_digit_def is_space_def)

lemma strtoull_dec: "simple_strtoull (dec_digits n) = of_nat n"
proof -
  have d: "list_all is_digit (dec_digits n)"
    using dec_digits_valid [of n] by (auto simp: list_all_iff)
  have "is_digit (dec_digits n ! 1)" if "2 < length (dec_digits n)"
    using d that by (simp add: list_all_length)
  then have "\<not> hex_prefix (dec_digits n)"
    by (auto simp: hex_prefix_def dest: is_digit_x)
  moreover have "n = 0" if "take 1 (dec_digits n) = ''0''"
    using that hd_dec_digits [of n] by (cases "dec_digits n") auto
  moreover have "parse_digits 8 0 (dec_digits 0) = 0"
    by (simp add: dec_digits.simps digit_value_def)
  ultimately show ?thesis
    by (auto simp: simple_strtoull_def parse_dec)
qed

lemma sint_ucast_of_int:
  assumes "- (2 ^ 31) \<le> v" and "v < 2 ^ 31"
  shows "sint (ucast (word_of_int v :: u64) :: u32) = v"
proof -
  have "ucast (word_of_int v :: u64) = (word_of_int v :: u32)"
    by (rule bit_word_eqI) (simp add: bit_simps)
  then show ?thesis using assms by (simp add: signed_of_int signed_take_bit_int_eq_self)
qed

lemma sscanf_i_print:
  assumes "- (2 ^ 31) \<le> v" and "v < 2 ^ 31"
  shows "sscanf_i prefix (prefix @ show_int v) = Some v"
proof -
  define n where "n = nat (if v < 0 then - v else v)"
  obtain c cs where d: "dec_digits n = c # cs" by (cases "dec_digits n") simp_all
  then have c: "is_digit c" using dec_digits_valid [of n] by simp
  have m: "\<not> is_space (CHR ''-'')" by (simp add: is_space_def)
  have shown: "show_int v = (if v < 0 then CHR ''-'' # c # cs else c # cs)"
    using d by (auto simp: show_int_def n_def)
  have "simple_strtoll (show_int v) = word_of_int v"
  proof (cases "v < 0")
    case True
    then have "simple_strtoll (show_int v) = - of_nat n"
      using d strtoull_dec [of n] shown by (simp add: simple_strtoll_def)
    with True show ?thesis by (simp add: n_def of_nat_nat)
  next
    case False
    then have "simple_strtoll (show_int v) = of_nat n"
      using d strtoull_dec [of n] shown is_digit_x [OF c] by (simp add: simple_strtoll_def)
    with False show ?thesis by (simp add: n_def of_nat_nat)
  qed
  then show ?thesis
    using shown c m is_digit_x [OF c] sint_ucast_of_int [OF assms]
    by (cases "v < 0") (simp_all add: sscanf_i_def Let_def)
qed

lemma sscanf_i_other:
  "take (length prefix) token \<noteq> prefix \<Longrightarrow> sscanf_i prefix token = None"
  by (simp add: sscanf_i_def)

text \<open>The command that sets all four switches, as a shell script would write it.\<close>

definition switch_command :: "mtcaDummyControl \<Rightarrow> string" where
  "switch_command c =
    (let b = (\<lambda>x. show_int (if x then 1 else 0)) in
      ''open:'' @ b (open_error c) @ '' '' @ ''read:'' @ b (read_error c) @ '' '' @
      ''write:'' @ b (write_error c) @ '' '' @ ''spi:'' @ b (spi_error c))"

lemma show_bit [simp]: "show_int 0 = ''0''" "show_int 1 = ''1''"
  by (simp_all add: show_int_def dec_digits.simps char_of_def bit_0)

lemma take_token_switch:
  assumes "v \<in> {0, 1}"
  shows "take_token (''open:'' @ show_int v) p = p\<lparr>p_open := v\<rparr>"
    and "take_token (''read:'' @ show_int v) p = p\<lparr>p_read := v\<rparr>"
    and "take_token (''write:'' @ show_int v) p = p\<lparr>p_write := v\<rparr>"
    and "take_token (''spi:'' @ show_int v) p = p\<lparr>p_spi := v\<rparr>"
  using assms sscanf_i_print [of v "''open:''"] sscanf_i_print [of v "''read:''"]
    sscanf_i_print [of v "''write:''"] sscanf_i_print [of v "''spi:''"]
  by (auto simp: take_token_def sscanf_i_other)

lemma command_switch:
  "collect (Some (switch_command c)) no_parameters =
    \<lparr>p_open = (if open_error c then 1 else 0), p_spi = (if spi_error c then 1 else 0),
     p_read = (if read_error c then 1 else 0), p_write = (if write_error c then 1 else 0)\<rparr>"
proof -
  let ?b = "\<lambda>x. if x then 1 else 0 :: int"
  have b: "?b x \<in> {0, 1}" for x by simp
  have s: "CHR '' '' \<notin> set (show_int (?b x))" for x by simp
  have "tokens (switch_command c) = [''open:'' @ show_int (?b (open_error c)),
     ''read:'' @ show_int (?b (read_error c)), ''write:'' @ show_int (?b (write_error c)),
     ''spi:'' @ show_int (?b (spi_error c))]"
    by (simp add: switch_command_def Let_def)
  then show ?thesis
    by (simp only: collect_tokens foldl.simps take_token_switch [OF b])
      (simp add: no_parameters_def)
qed

section \<open>The dump\<close>

text \<open>The text for the contents \<open>rs\<close> and \<open>ds\<close> of the two bars.\<close>

definition dump_registers :: "u32 list \<Rightarrow> nat \<Rightarrow> string" where
  "dump_registers rs n = concat (map (\<lambda>i. show_register i (rs ! i) (rs ! i)) [0..<n])"

definition dma_row :: "u32 list \<Rightarrow> nat \<Rightarrow> string" where
  "dma_row ds i =
    show_dma_row (16 * i) (ds ! (4 * i)) (ds ! (4 * i + 1)) (ds ! (4 * i + 2)) (ds ! (4 * i + 3))"

definition dump_dma :: "u32 list \<Rightarrow> nat \<Rightarrow> string" where
  "dump_dma ds n = concat (map (dma_row ds) [0..<n])"

definition dump_text :: "u32 \<Rightarrow> u32 list \<Rightarrow> u32 list \<Rightarrow> string" where
  "dump_text slot rs ds =
    register_header slot @ dump_registers rs MTCADUMMY_N_REGISTERS @
    dma_header slot @ dump_dma ds 256 @ newline"

definition same_bars :: "nat \<Rightarrow> sys \<Rightarrow> sys \<Rightarrow> bool" where
  "same_bars d e t \<longleftrightarrow> on_device d e t \<and> regs t d = regs e d \<and> dma t d = dma e d"

lemma load_same_bars:
  assumes "same_bars d e t" and "devs e = dvs"
  shows "i < MTCADUMMY_N_REGISTERS \<Longrightarrow>
      \<exists>u. load (systemBar (dvs ! d)) i t = Some (regs e d ! i, u) \<and> same_bars d e u"
    and "i < DMA_WORDS \<Longrightarrow>
      \<exists>u. load (dmaBar (dvs ! d)) i t = Some (dma e d ! i, u) \<and> same_bars d e u"
proof -
  have t: "ready d t" "devs t = dvs" "on_device d e t" "regs t d = regs e d" "dma t d = dma e d"
    using assms by (auto simp: same_bars_def on_device_def)
  note rd = readyD(10,11) [OF t(1)]
  show "i < MTCADUMMY_N_REGISTERS \<Longrightarrow>
      \<exists>u. load (systemBar (dvs ! d)) i t = Some (regs e d ! i, u) \<and> same_bars d e u"
    and "i < DMA_WORDS \<Longrightarrow>
      \<exists>u. load (dmaBar (dvs ! d)) i t = Some (dma e d ! i, u) \<and> same_bars d e u"
    using t rd by (auto simp: load_exec same_bars_def)
qed

text \<open>What has been printed before the iteration \<open>i\<close> of each loop.\<close>

definition registers_inv :: "nat \<Rightarrow> sys \<Rightarrow> string \<Rightarrow> nat \<Rightarrow> string \<times> sys \<Rightarrow> bool" where
  "registers_inv d e out i st \<longleftrightarrow>
    same_bars d e (snd st) \<and> fst st = out @ dump_registers (regs e d) i"

definition dma_inv :: "nat \<Rightarrow> sys \<Rightarrow> string \<Rightarrow> nat \<Rightarrow> string \<times> sys \<Rightarrow> bool" where
  "dma_inv d e out i st \<longleftrightarrow> same_bars d e (snd st) \<and> fst st = out @ dump_dma (dma e d) i"

interpretation registers_loop: loop_body "show_register_body (systemBar (devs e ! d))"
  MTCADUMMY_N_REGISTERS "registers_inv d e out" "\<lambda>_ _. False" for d e out
proof
  fix i and st :: "string \<times> sys"
  assume *: "i < MTCADUMMY_N_REGISTERS" "registers_inv d e out i st"
  obtain o' t where st: "st = (o', t)" by (cases st)
  from * have t: "same_bars d e t" "o' = out @ dump_registers (regs e d) i"
    by (simp_all add: registers_inv_def st)
  obtain u where u: "load (systemBar (devs e ! d)) i t = Some (regs e d ! i, u)" "same_bars d e u"
    using load_same_bars(1) [OF t(1) refl *(1)] by blast
  obtain w where w: "load (systemBar (devs e ! d)) i u = Some (regs e d ! i, w)" "same_bars d e w"
    using load_same_bars(1) [OF u(2) refl *(1)] by blast
  show "ensures (show_register_body (systemBar (devs e ! d)) i st)
    (\<lambda>r st'. if r = 0 then registers_inv d e out (Suc i) st' else False)"
    using t u w by (simp add: show_register_body_def st registers_inv_def dump_registers_def)
qed

interpretation dma_loop: loop_body "show_dma_body (dmaBar (devs e ! d))" 256 "dma_inv d e out"
  "\<lambda>_ _. False" for d e out
proof
  fix i and st :: "string \<times> sys"
  assume *: "i < 256" "dma_inv d e out i st"
  obtain o' t where st: "st = (o', t)" by (cases st)
  from * have t: "same_bars d e t" "o' = out @ dump_dma (dma e d) i"
    by (simp_all add: dma_inv_def st)
  have lt: "4 * i < DMA_WORDS" "4 * i + 1 < DMA_WORDS" "4 * i + 2 < DMA_WORDS" "4 * i + 3 < DMA_WORDS"
    using *(1) by (simp_all add: size_defs)
  obtain t1 where 1: "load (dmaBar (devs e ! d)) (4 * i) t = Some (dma e d ! (4 * i), t1)" "same_bars d e t1"
    using load_same_bars(2) [OF t(1) refl lt(1)] by blast
  obtain t2 where 2: "load (dmaBar (devs e ! d)) (4 * i + 1) t1 = Some (dma e d ! (4 * i + 1), t2)" "same_bars d e t2"
    using load_same_bars(2) [OF 1(2) refl lt(2)] by blast
  obtain t3 where 3: "load (dmaBar (devs e ! d)) (4 * i + 2) t2 = Some (dma e d ! (4 * i + 2), t3)" "same_bars d e t3"
    using load_same_bars(2) [OF 2(2) refl lt(3)] by blast
  obtain t4 where 4: "load (dmaBar (devs e ! d)) (4 * i + 3) t3 = Some (dma e d ! (4 * i + 3), t4)" "same_bars d e t4"
    using load_same_bars(2) [OF 3(2) refl lt(4)] by blast
  have "4 * i * 4 = 16 * i" by simp
  then show "ensures (show_dma_body (dmaBar (devs e ! d)) i st)
    (\<lambda>r st'. if r = 0 then dma_inv d e out (Suc i) st' else False)"
    using t 1 2 3 4 unfolding show_dma_body_def st
    by (simp add: Let_def dma_inv_def dump_dma_def dma_row_def del: mult_2 One_nat_def)
qed

lemma mtcadummy_seq_show_refines:
  assumes "idle s" and "d < MTCADUMMY_NR_DEVS"
  shows "ensures (mtcadummy_seq_show K d s)
    (\<lambda>(r, out) t. call_on d s t \<and> regs t d = regs s d \<and> dma t d = dma s d \<and> umem t = umem s \<and>
      (r, out) =
        (if inUse (devs s ! d) = 0 then (0, not_in_use_text (of_nat d))
         else if k_lock K (tick s) (DevMutex d) \<noteq> 0 then (- ERESTARTSYS, [])
         else (0, dump_text (of_nat d) (regs s d) (dma s d))))"
proof -
  let ?e = "take_lock (DevMutex d) s"
  have i: "held s = {}" "live s" "wf_sys s" using assms(1) by (simp_all add: idle_def live_def)
  have da: "dev_at s d = Some (devs s ! d)" using assms(2) i wf_dev_at by simp
  have slot: "slotNr (devs s ! d) = of_nat d" using assms(2) i wf_slotNr by simp
  have r: "ready d ?e" using assms(2) i by (simp add: ready_def)
  have c: "call_on d s s" using assms(1) by (simp add: call_on_def)
  have rows: "Suc ((MTCADUMMY_DMA_SIZE div 4 - 4) div 4) = 256" by (simp add: size_defs)
  show ?thesis
  proof (cases "inUse (devs s ! d) = 0 \<or> k_lock K (tick s) (DevMutex d) \<noteq> 0")
    case True
    with c da slot i assms show ?thesis
      by (auto simp: mtcadummy_seq_show_def exec)
  next
    case False
    have "registers_inv d ?e (register_header (of_nat d)) 0 (register_header (of_nat d), ?e)"
      using r by (simp add: registers_inv_def dump_registers_def same_bars_def)
    from registers_loop.loop_total [OF this] obtain t where t:
      "for_loop (show_register_body (systemBar (devs s ! d))) 0 MTCADUMMY_N_REGISTERS
        (register_header (of_nat d), ?e) =
        Some (0, register_header (of_nat d) @ dump_registers (regs s d) MTCADUMMY_N_REGISTERS, t)"
      "same_bars d ?e t"
      by (auto simp: ensures_iff registers_inv_def split: if_splits)
    let ?out = "register_header (of_nat d) @ dump_registers (regs s d) MTCADUMMY_N_REGISTERS @
      dma_header (of_nat d)"
    have "dma_inv d ?e ?out 0 (?out, t)"
      using t(2) by (simp add: dma_inv_def dump_dma_def)
    from dma_loop.loop_total [OF this] obtain u where u:
      "for_loop (show_dma_body (dmaBar (devs s ! d))) 0 256 (?out, t) =
        Some (0, ?out @ dump_dma (dma s d) 256, u)"
      "same_bars d ?e u"
      by (auto simp: ensures_iff dma_inv_def split: if_splits)
    have "call_on d s (drop_lock (DevMutex d) u)" "DevMutex d \<in> held u" "umem u = umem s"
      using assms(1) u(2) r by (auto simp: call_on_def idle_def same_bars_def on_device_def ready_def)
    with False da slot i t u show ?thesis
      by (simp add: mtcadummy_seq_show_def exec rows dump_text_def same_bars_def)
  qed
qed

section \<open>The dump determines the bars\<close>

lemma parse_hex_digits:
  "list_all (\<lambda>k. k < 16) ks \<Longrightarrow>
    parse_digits 16 acc (map hex_digit ks) = foldl (\<lambda>a k. a * 16 + of_nat k) acc ks"
  by (induction ks arbitrary: acc) (simp_all add: digit_value_hex)

lemma horner_hex:
  assumes "n < 2 ^ 32"
  shows "foldl (\<lambda>a k. a * 16 + k) 0 (map (\<lambda>k. n div 16 ^ k mod 16) [7, 6, 5, 4, 3, 2, 1, 0]) = (n :: nat)"
proof -
  have split: "n div 16 ^ Suc k * 16 + n div 16 ^ k mod 16 = n div 16 ^ k" for k
    by (metis div_mult2_eq div_mult_mod_eq mult.commute power_Suc)
  have "n div 16 ^ 8 = 0" using assms by simp
  with split [of 7] split [of 6] split [of 5] split [of 4] split [of 3] split [of 2] split [of 1]
    split [of 0]
  show ?thesis by simp
qed

lemma foldl_of_nat:
  "foldl (\<lambda>a k. a * 16 + of_nat k) (of_nat a) ks = (of_nat (foldl (\<lambda>a k. a * 16 + k) a ks) :: u64)"
proof (induction ks arbitrary: a)
  case (Cons k ks)
  have "(of_nat a * 16 + of_nat k :: u64) = of_nat (a * 16 + k)" by simp
  with Cons show ?case by (simp only: foldl.simps)
qed simp

text \<open>A hexadecimal column can be parsed back with the number parser of the module.\<close>

lemma parse_hex8:
  assumes "n < 2 ^ 32"
  shows "simple_strtoull (''0x'' @ hex8 n) = of_nat n"
proof -
  let ?ks = "map (\<lambda>k. n div 16 ^ k mod 16) [7, 6, 5, 4, 3, 2, 1, 0]"
  have "parse_digits 16 0 (map hex_digit ?ks) = foldl (\<lambda>a k. a * 16 + of_nat k) 0 ?ks"
    by (rule parse_hex_digits) simp
  also have "\<dots> = of_nat n"
    using foldl_of_nat [of 0 ?ks] unfolding horner_hex [OF assms] by simp
  finally have "parse_digits 16 0 (hex8 n) = of_nat n" by (simp add: hex8_def)
  moreover have "hex_prefix (''0x'' @ hex8 n)"
    by (simp add: hex_prefix_def hex8_def digit_value_hex)
  ultimately show ?thesis
    by (simp add: simple_strtoull_def)
qed

lemma length_hex8 [simp]: "length (hex8 n) = 8"
  by (simp add: hex8_def)

lemma hex8_inject [simp]: "hex8 (unat v) = hex8 (unat w) \<longleftrightarrow> v = w" for v w :: u32
proof
  assume *: "hex8 (unat v) = hex8 (unat w)"
  have lt: "unat v < 2 ^ 32" "unat w < 2 ^ 32"
    using unsigned_less [of v] unsigned_less [of w] by simp_all
  have "(of_nat (unat v) :: u64) = of_nat (unat w)"
    using * parse_hex8 [OF lt(1)] parse_hex8 [OF lt(2)] by simp
  then have "unat (of_nat (unat v) :: u64) = unat (of_nat (unat w) :: u64)" by simp
  then have "unat v = unat w" using lt by (simp only: unat_of_nat) simp
  then show "v = w" by (rule unsigned_word_eqI)
qed simp

lemma show_register_inject:
  "show_register i v v @ A = show_register i w w @ B \<Longrightarrow> v = w \<and> A = B"
  by (auto simp: show_register_def tab_def newline_def)

lemma show_dma_row_inject:
  "show_dma_row i a b c d @ A = show_dma_row i a' b' c' d' @ B \<Longrightarrow>
    a = a' \<and> b = b' \<and> c = c' \<and> d = d' \<and> A = B"
  by (auto simp: show_dma_row_def tab_def newline_def)

lemma concat_inject:
  assumes "\<And>i A B. f i @ A = g i @ B \<Longrightarrow> P i \<and> A = B"
  shows "concat (map f [k..<n]) @ A = concat (map g [k..<n]) @ B \<Longrightarrow>
    (\<forall>i \<in> {k..<n}. P i) \<and> A = B"
proof (induction "n - k" arbitrary: k)
  case (Suc m)
  then have "k < n" by simp
  then have "f k @ concat (map f [Suc k..<n]) @ A = g k @ concat (map g [Suc k..<n]) @ B"
    using Suc.prems by (simp add: upt_conv_Cons)
  from assms [OF this] have "P k" "concat (map f [Suc k..<n]) @ A = concat (map g [Suc k..<n]) @ B"
    by simp_all
  with Suc.hyps(1) [of "Suc k"] Suc.hyps(2) have "\<forall>i \<in> {Suc k..<n}. P i" "A = B" by auto
  with \<open>P k\<close> show ?case by (metis atLeastLessThan_iff Suc_leI le_neq_implies_less)
qed simp

lemma dump_text_inject:
  assumes "dump_text slot rs ds = dump_text slot rs' ds'"
    and "length rs = MTCADUMMY_N_REGISTERS" "length rs' = MTCADUMMY_N_REGISTERS"
    and "length ds = DMA_WORDS" "length ds' = DMA_WORDS"
  shows "rs = rs' \<and> ds = ds'"
proof -
  let ?R = "\<lambda>i. rs ! i = rs' ! i"
  let ?D = "\<lambda>i. ds ! (4 * i) = ds' ! (4 * i) \<and> ds ! (4 * i + 1) = ds' ! (4 * i + 1) \<and>
    ds ! (4 * i + 2) = ds' ! (4 * i + 2) \<and> ds ! (4 * i + 3) = ds' ! (4 * i + 3)"
  have row: "dma_row ds i @ A = dma_row ds' i @ B \<Longrightarrow> ?D i \<and> A = B" for i A B
    unfolding dma_row_def by (drule show_dma_row_inject) simp
  have "dump_registers rs 32 @ dma_header slot @ dump_dma ds 256 @ newline =
      dump_registers rs' 32 @ dma_header slot @ dump_dma ds' 256 @ newline"
    using assms(1) by (simp add: dump_text_def size_defs)
  then have "(\<forall>i \<in> {0..<32}. ?R i) \<and> dma_header slot @ dump_dma ds 256 @ newline =
      dma_header slot @ dump_dma ds' 256 @ newline"
    unfolding dump_registers_def by (rule concat_inject [rotated]) (rule show_register_inject)
  then have R: "\<forall>i \<in> {0..<32}. ?R i" and d: "dump_dma ds 256 @ newline = dump_dma ds' 256 @ newline"
    by simp_all
  have D: "\<forall>i \<in> {0..<256}. ?D i"
    using d concat_inject [where P = ?D, OF row] unfolding dump_dma_def by blast
  have "ds ! j = ds' ! j" if "j < 1024" for j
  proof -
    have "j div 4 \<in> {0..<256}" using that by auto
    with D have "?D (j div 4)" by blast
    moreover have "j = 4 * (j div 4) + j mod 4" by simp
    moreover have "j mod 4 \<in> {0, 1, 2, 3}" by auto
    ultimately show ?thesis by (metis add_0_right insertE singletonD)
  qed
  with R assms(2-5) show ?thesis by (auto simp: size_defs intro!: nth_equalityI)
qed

section \<open>The order of the iteration\<close>

text \<open>The protocol of a seq file: start at a position, then next until the null pointer.\<close>

function walk :: "nat \<Rightarrow> nat option \<Rightarrow> nat list" where
  "walk pos None = []"
| "walk pos (Some v) = v # (case mtcadummy_seq_next pos of (pos', v') \<Rightarrow> walk pos' v')"
  by pat_completeness auto
termination
  by (relation "measure (\<lambda>(pos, v). case v of None \<Rightarrow> 0 | Some _ \<Rightarrow> Suc (MTCADUMMY_NR_DEVS - pos))")
    (auto simp: mtcadummy_seq_next_def Let_def)

lemma walk_from: "pos < MTCADUMMY_NR_DEVS \<Longrightarrow> walk pos (Some pos) = [pos..<MTCADUMMY_NR_DEVS]"
proof (induction "MTCADUMMY_NR_DEVS - pos" arbitrary: pos)
  case (Suc n)
  then show ?case
    by (cases "Suc pos < MTCADUMMY_NR_DEVS")
      (simp_all add: mtcadummy_seq_next_def upt_conv_Cons not_less)
qed simp

end
