(* ===== verification/Proc_Properties.thy ===== *)
theory Proc_Properties
  imports Proc
begin

text \<open>
  The properties of the proc file: what a command written to it sets, and what the dump
  read from it says about the bars.
\<close>

section \<open>Commands\<close>

text \<open>The value of the last token that sets the parameter \<open>prefix\<close>; without one it is -1.\<close>

definition last_setting :: "string \<Rightarrow> string list \<Rightarrow> int" where
  "last_setting prefix ts = last (- 1 # List.map_filter (sscanf_i prefix) ts)"

lemma last_setting_simps [simp]:
  "last_setting prefix [] = - 1"
  "last_setting prefix (ts @ [t]) =
    (case sscanf_i prefix t of Some v \<Rightarrow> v | None \<Rightarrow> last_setting prefix ts)"
  by (simp_all add: last_setting_def List.map_filter_def split: option.splits)

lemma sscanf_i_prefix: "sscanf_i prefix t = Some v \<Longrightarrow> take (length prefix) t = prefix"
  by (auto simp: sscanf_i_def split: if_splits)

lemma take_token_parameters:
  "p_open (take_token t p) = (case sscanf_i ''open:'' t of Some v \<Rightarrow> v | None \<Rightarrow> p_open p)"
  "p_read (take_token t p) = (case sscanf_i ''read:'' t of Some v \<Rightarrow> v | None \<Rightarrow> p_read p)"
  "p_write (take_token t p) = (case sscanf_i ''write:'' t of Some v \<Rightarrow> v | None \<Rightarrow> p_write p)"
  "p_spi (take_token t p) = (case sscanf_i ''spi:'' t of Some v \<Rightarrow> v | None \<Rightarrow> p_spi p)"
proof -
  have "take 1 t = take 1 prefix" if "sscanf_i prefix t = Some v" "prefix \<noteq> []" for prefix v
    using sscanf_i_prefix [OF that(1)] that(2) by (cases prefix; cases t) auto
  then have "sscanf_i ''open:'' t \<noteq> None \<Longrightarrow> take 1 t = ''o''"
    "sscanf_i ''read:'' t \<noteq> None \<Longrightarrow> take 1 t = ''r''"
    "sscanf_i ''write:'' t \<noteq> None \<Longrightarrow> take 1 t = ''w''"
    "sscanf_i ''spi:'' t \<noteq> None \<Longrightarrow> take 1 t = ''s''"
    by fastforce+
  then show "p_open (take_token t p) = (case sscanf_i ''open:'' t of Some v \<Rightarrow> v | None \<Rightarrow> p_open p)"
    and "p_read (take_token t p) = (case sscanf_i ''read:'' t of Some v \<Rightarrow> v | None \<Rightarrow> p_read p)"
    and "p_write (take_token t p) = (case sscanf_i ''write:'' t of Some v \<Rightarrow> v | None \<Rightarrow> p_write p)"
    and "p_spi (take_token t p) = (case sscanf_i ''spi:'' t of Some v \<Rightarrow> v | None \<Rightarrow> p_spi p)"
    by (auto simp: take_token_def split: option.splits)
qed

lemma collect_last:
  "collect (Some str) no_parameters =
    \<lparr>p_open = last_setting ''open:'' (tokens str), p_spi = last_setting ''spi:'' (tokens str),
     p_read = last_setting ''read:'' (tokens str), p_write = last_setting ''write:'' (tokens str)\<rparr>"
proof -
  have "foldl (\<lambda>p token. take_token token p) no_parameters ts =
    \<lparr>p_open = last_setting ''open:'' ts, p_spi = last_setting ''spi:'' ts,
     p_read = last_setting ''read:'' ts, p_write = last_setting ''write:'' ts\<rparr>" for ts
  proof (induction ts rule: rev_induct)
    case (snoc t ts)
    then show ?case by (intro parameters.equality) (simp_all add: take_token_parameters split: option.split)
  qed (simp add: no_parameters_def)
  then show ?thesis by (simp add: collect_tokens)
qed

text \<open>
  C35. A write to the proc file reads at most 254 bytes up to the first null, cuts them at
  the blanks, and sets each switch for which some token gives a number that is not
  negative to whether the last such number is not 0; the other switches stay. A fault of
  the copy and a signal change nothing. The bars, the devices and the user memory never
  change, and on success the whole count is reported as written.
\<close>

theorem proc_write_contract:
  assumes "idle s" and "k_copy_from_user K (tick s) (umem s) ubuf (min (unat count) 254) = (bytes, missing)"
    and "new = (\<lambda>prefix old. let v = last_setting prefix (tokens (c_string bytes)) in
      if 0 \<le> v then v \<noteq> 0 else old)"
  shows "ensures (mtcadummy_proc_write K ubuf count s) (\<lambda>r t.
    idle t \<and> devs t = devs s \<and> umem t = umem s \<and>
    (\<forall>e \<in> {..<MTCADUMMY_NR_DEVS}. regs t e = regs s e \<and> dma t e = dma s e) \<and>
    (if missing \<noteq> 0 then r = - EFAULT \<and> control t = control s
     else if k_lock K (Suc (tick s)) ControlMutex \<noteq> 0 then r = - EAGAIN \<and> control t = control s
     else r = sint count \<and> control t =
       \<lparr>open_error = new ''open:'' (open_error (control s)),
        read_error = new ''read:'' (read_error (control s)),
        write_error = new ''write:'' (write_error (control s)),
        spi_error = new ''spi:'' (spi_error (control s))\<rparr>))"
proof (rule ensures_mono [OF mtcadummy_proc_write_refines [OF assms(1)]], goal_cases)
  case (1 r t)
  have "- 1 < v \<longleftrightarrow> 0 \<le> v" for v :: int by auto
  with 1 show ?case
    by (auto simp: assms(2,3) call_on_switches_def switch_all_def switched_def command_of_def
        collect_last Let_def split: if_splits)
qed

text \<open>A command as a shell writes it: the bytes of a string at a user address.\<close>

definition command_bytes :: "string \<Rightarrow> u8 list" where
  "command_bytes str = map (\<lambda>c. of_nat (of_char c)) str"

lemma length_command_bytes [simp]: "length (command_bytes str) = length str"
  by (simp add: command_bytes_def)

lemma c_string_command_bytes:
  assumes "list_all (\<lambda>c. of_char c \<noteq> (0 :: nat)) str"
  shows "c_string (command_bytes str) = str"
proof -
  have u: "unat (of_nat (of_char c) :: u8) = of_char c" for c
  proof -
    have "of_char c \<in> {0..<256 :: nat}" using range_nat_of_char by blast
    then show ?thesis by (simp only: unat_of_nat) simp
  qed
  have z: "(of_nat (of_char c) :: u8) = 0 \<longleftrightarrow> of_char c = (0 :: nat)" for c
    using u [of c] by (metis unsigned_0 word_unat_eq_iff)
  show ?thesis
    using assms by (induction str) (simp_all add: c_string_def command_bytes_def z u)
qed

text \<open>The command is at the user address, and the kernel copies it.\<close>

definition command_at :: "kernel \<Rightarrow> sys \<Rightarrow> u64 \<Rightarrow> string \<Rightarrow> bool" where
  "command_at K s ubuf str \<longleftrightarrow>
    k_copy_from_user K (tick s) (umem s) ubuf (length str) = (command_bytes str, 0)"

lemma ref_command_at:
  "length str < 255 \<Longrightarrow> command_at ref_kernel (with_umem 0 (command_bytes str) s) 0 str"
  using umem_read_write [of "command_bytes str" "umem s" 0] by (simp add: command_at_def)

theorem proc_write_contract_witness:
  "\<exists>t. mtcadummy_proc_write ref_kernel 0 6 (with_umem 0 (command_bytes ''read:1'') ref_sys) = Some (6, t) \<and>
    control t = no_errors\<lparr>read_error := True\<rparr>"
proof -
  let ?s = "with_umem 0 (command_bytes ''read:1'') ref_sys"
  have i: "idle ?s" by simp
  have c: "k_copy_from_user ref_kernel (tick ?s) (umem ?s) 0 (min (unat (6 :: u64)) 254) =
      (command_bytes ''read:1'', 0)"
  proof -
    have "length ''read:1'' = 6" by simp
    then show ?thesis
      using ref_command_at [of "''read:1''" ref_sys] by (simp only: command_at_def) simp
  qed
  have t: "tokens (c_string (command_bytes ''read:1'')) = [''read:1'']"
    by (simp add: c_string_command_bytes)
  have l: "last_setting ''open:'' [''read:1''] = - 1" "last_setting ''write:'' [''read:1''] = - 1"
    "last_setting ''spi:'' [''read:1''] = - 1" "last_setting ''read:'' [''read:1''] = 1"
    using sscanf_i_print [of 1 "''read:''"]
    by (simp_all add: last_setting_def List.map_filter_def sscanf_i_other)
  show ?thesis
    using proc_write_contract [OF i c refl] by (auto simp: ensures_iff t l no_errors_def)
qed

lemma switch_command_plain:
  "list_all (\<lambda>c. of_char c \<noteq> (0 :: nat)) (switch_command c)" "length (switch_command c) = 27"
  by (simp_all add: switch_command_def Let_def)

text \<open>The command built from a control record sets exactly this record.\<close>

lemma switch_command_sets:
  assumes "idle s" and "command_at K s ubuf (switch_command c)"
    and "k_lock K (Suc (tick s)) ControlMutex = 0"
  shows "ensures (mtcadummy_proc_write K ubuf (of_nat (length (switch_command c))) s) (\<lambda>r t.
    r = int (length (switch_command c)) \<and> control t = c \<and> call_on_switches s t)"
proof (rule ensures_mono [OF mtcadummy_proc_write_refines [OF assms(1)]], goal_cases)
  case (1 r t)
  have "k_copy_from_user K (tick s) (umem s) ubuf (min (unat (27 :: u64)) 254) =
      (command_bytes (switch_command c), 0)"
    using assms(2) by (simp add: command_at_def switch_command_plain)
  moreover have "command_of (command_bytes (switch_command c)) = collect (Some (switch_command c)) no_parameters"
    by (simp only: command_of_def c_string_command_bytes [OF switch_command_plain(1)])
  ultimately show ?case
    using 1 assms(3)
    by (simp add: switch_command_plain(2) command_switch switch_all_def switched_def)
qed

text \<open>
  C36. The four switches can be set to any value in one write: the command built from a
  control record, as a shell script would echo it, sets exactly this record, whatever the
  switches were before, and the write returns its length.
\<close>

theorem proc_switch_roundtrip:
  assumes "idle s" and "command_at K s ubuf (switch_command c)"
    and "k_lock K (Suc (tick s)) ControlMutex = 0"
  shows "ensures (mtcadummy_proc_write K ubuf (of_nat (length (switch_command c))) s) (\<lambda>r t.
    r = int (length (switch_command c)) \<and> control t = c \<and> call_on_switches s t)"
  by (rule switch_command_sets [OF assms])

theorem proc_switch_roundtrip_witness:
  "\<exists>t. mtcadummy_proc_write ref_kernel 0 27
      (with_umem 0 (command_bytes (switch_command (no_errors\<lparr>spi_error := True\<rparr>))) ref_sys) = Some (27, t) \<and>
    control t = no_errors\<lparr>spi_error := True\<rparr>"
proof -
  let ?c = "no_errors\<lparr>spi_error := True\<rparr>"
  let ?s = "with_umem 0 (command_bytes (switch_command ?c)) ref_sys"
  have i: "idle ?s" by simp
  have "command_at ref_kernel ?s 0 (switch_command ?c)"
    by (rule ref_command_at) (simp add: switch_command_plain)
  from proc_switch_roundtrip [OF i this] show ?thesis
    by (auto simp: ensures_iff switch_command_plain)
qed

text \<open>
  The number parser of the proc file reads back every number that \<open>int\<close> can hold, as
  printed in decimal, and the columns of the dump, as printed in hexadecimal.
\<close>

theorem numbers_read_back:
  "(- (2 ^ 31) \<le> v \<and> v < 2 ^ 31 \<longrightarrow> sscanf_i prefix (prefix @ show_int v) = Some v) \<and>
   simple_strtoull (''0x'' @ hex8 (unat w)) = of_nat (unat (w :: u32))"
  using sscanf_i_print [of v prefix] parse_hex8 [of "unat w"] unsigned_less [of w] by simp

theorem numbers_read_back_witness:
  "sscanf_i ''open:'' (''open:'' @ show_int (- 2147483648)) = Some (- 2147483648)"
  using numbers_read_back [of "- 2147483648" "''open:''" 0] by simp

section \<open>The dump\<close>

text \<open>
  C37. Showing a device: a device that is not in use gives one line and is not locked, a
  signal gives \<open>-ERESTARTSYS\<close>, and otherwise the text holds the registers and the DMA area
  as they are. Showing changes neither bar nor user memory and leaves no mutex locked.
\<close>

theorem seq_show_contract:
  assumes "idle s" and "d < MTCADUMMY_NR_DEVS"
  shows "ensures (mtcadummy_seq_show K d s)
    (\<lambda>(r, out) t. call_on d s t \<and> regs t d = regs s d \<and> dma t d = dma s d \<and> umem t = umem s \<and>
      (r, out) =
        (if inUse (devs s ! d) = 0 then (0, not_in_use_text (of_nat d))
         else if k_lock K (tick s) (DevMutex d) \<noteq> 0 then (- ERESTARTSYS, [])
         else (0, dump_text (of_nat d) (regs s d) (dma s d))))"
  by (rule mtcadummy_seq_show_refines [OF assms])

theorem seq_show_contract_witness:
  "\<exists>t. mtcadummy_seq_show ref_kernel 6 ref_sys =
    Some ((0, ''Device 6 not in use.'' @ newline @ newline), t)"
proof -
  have six: "6 < MTCADUMMY_NR_DEVS" by (simp add: size_defs)
  have "show_int (sint (6 :: u32)) = ''6''"
    by (simp add: show_int_def dec_digits.simps char_of_def bit_iff_odd)
  then have n: "not_in_use_text (of_nat 6) = ''Device 6 not in use.'' @ newline @ newline"
    by (simp add: not_in_use_text_def)
  have u: "inUse (devs ref_sys ! 6) = 0" using six by (simp add: ref_dev_def)
  from seq_show_contract [OF ref_idle six, of ref_kernel] show ?thesis
    unfolding u n by (auto simp only: ensures_iff prod.case prod.inject if_True simp_thms)
qed

text \<open>
  C38. The dump loses nothing: if showing an opened device gives the same text in two states,
  both bars hold the same words in these states.
\<close>

theorem dump_determines_bars:
  assumes "idle s" and "idle s'" and "d < MTCADUMMY_NR_DEVS"
    and "inUse (devs s ! d) \<noteq> 0" and "inUse (devs s' ! d) \<noteq> 0"
    and "mtcadummy_seq_show K d s = Some ((0, out), t)" and "mtcadummy_seq_show K' d s' = Some ((0, out), t')"
  shows "regs s d = regs s' d \<and> dma s d = dma s' d"
proof -
  have wf: "wf_sys s" "wf_sys s'" using assms(1,2) by (simp_all add: idle_def live_def)
  have "out = dump_text (of_nat d) (regs s d) (dma s d)" "out = dump_text (of_nat d) (regs s' d) (dma s' d)"
    using mtcadummy_seq_show_refines [OF assms(1,3), of K] mtcadummy_seq_show_refines [OF assms(2,3), of K']
      assms(4-7) by (auto simp: errno_defs split: if_splits)
  then have "dump_text (of_nat d) (regs s d) (dma s d) = dump_text (of_nat d) (regs s' d) (dma s' d)"
    by simp
  from dump_text_inject [OF this] wf assms(3) show ?thesis
    by (simp add: wf_length_regs wf_length_dma)
qed

theorem dump_determines_bars_witness:
  "\<exists>out t. mtcadummy_seq_show ref_kernel 3 (count_opens 3 1 ref_sys) = Some ((0, out), t) \<and>
    regs (count_opens 3 1 ref_sys) 3 = regs (with_umem 0 [1] (count_opens 3 1 ref_sys)) 3"
proof -
  let ?s = "count_opens 3 1 ref_sys" and ?s' = "with_umem 0 [1] (count_opens 3 1 ref_sys)"
  have three: "3 < MTCADUMMY_NR_DEVS" by (simp add: size_defs)
  have i: "idle ?s" "idle ?s'" by simp_all
  have u: "inUse (devs ?s ! 3) = 1" "inUse (devs ?s' ! 3) = 1"
    using three by (simp_all add: count_opens_def ref_dev_def)
  let ?out = "dump_text (of_nat 3) (regs ?s 3) (dma ?s 3)"
  obtain t where t: "mtcadummy_seq_show ref_kernel 3 ?s = Some ((0, ?out), t)"
    using mtcadummy_seq_show_refines [OF i(1) three, of ref_kernel] u by (auto simp: ensures_iff)
  obtain t' where t': "mtcadummy_seq_show ref_kernel 3 ?s' = Some ((0, ?out), t')"
    using mtcadummy_seq_show_refines [OF i(2) three, of ref_kernel] u by (auto simp: ensures_iff)
  have "regs ?s 3 = regs ?s' 3 \<and> dma ?s 3 = dma ?s' 3"
    by (rule dump_determines_bars [OF i three _ _ t t']) (simp_all only: u one_neq_zero not_False_eq_True)
  then show ?thesis by (intro exI conjI) (rule t, rule conjunct1)
qed

text \<open>
  The iteration that the module offers to the seq file library: started at any position, it
  visits every device from there on once and in order, and then gives the null pointer.
\<close>

theorem iteration_visits_each_device:
  "walk pos (mtcadummy_seq_start pos) = [pos..<MTCADUMMY_NR_DEVS]"
  using walk_from [of pos] by (simp add: mtcadummy_seq_start_def)

end
