(* ===== verification/Ioctl.thy ===== *)
theory Ioctl
  imports Struct_Io
begin

text \<open>
  The three ioctl handlers of \<open>mtcadummy_drv.c\<close> and the command numbers of
  \<open>pciedev_io.h\<close>, \<open>llrfdrv_io_compat.h\<close> and \<open>pcieuni_io_compat.h\<close>. The C code has three
  copies of one sequence; the branches of its \<open>switch\<close> are written once here.
\<close>

section \<open>Command numbers\<close>

text \<open>The encoding of \<open>asm-generic/ioctl.h\<close>: number, type, size and direction of a command.\<close>

definition IOC_NR :: "u32 \<Rightarrow> u32" where "IOC_NR cmd = cmd AND 0xFF"
definition IOC_TYPE :: "u32 \<Rightarrow> u32" where "IOC_TYPE cmd = drop_bit 8 cmd AND 0xFF"
definition IOC_SIZE :: "u32 \<Rightarrow> u32" where "IOC_SIZE cmd = drop_bit 16 cmd AND 0x3FFF"
definition IOC_DIR :: "u32 \<Rightarrow> u32" where "IOC_DIR cmd = drop_bit 30 cmd AND 3"

definition IOC_WRITE :: u32 where "IOC_WRITE = 1"
definition IOC_READ :: u32 where "IOC_READ = 2"

text \<open>\<open>_IOWR(type, nr, int)\<close>\<close>

definition IOWR_int :: "u32 \<Rightarrow> u32 \<Rightarrow> u32" where
  "IOWR_int type nr = push_bit 30 (IOC_READ OR IOC_WRITE) OR push_bit 16 4 OR push_bit 8 type OR nr"

definition PCIEDOOCS_IOC :: u32 where "PCIEDOOCS_IOC = 0x30"
definition PCIEDEV_PHYSICAL_SLOT :: u32 where "PCIEDEV_PHYSICAL_SLOT = IOWR_int PCIEDOOCS_IOC 60"
definition PCIEDEV_DRIVER_VERSION :: u32 where "PCIEDEV_DRIVER_VERSION = IOWR_int PCIEDOOCS_IOC 61"
definition PCIEDEV_FIRMWARE_VERSION :: u32 where "PCIEDEV_FIRMWARE_VERSION = IOWR_int PCIEDOOCS_IOC 62"
definition PCIEDEV_GET_DMA_TIME :: u32 where "PCIEDEV_GET_DMA_TIME = IOWR_int PCIEDOOCS_IOC 70"
definition PCIEDEV_WRITE_DMA :: u32 where "PCIEDEV_WRITE_DMA = IOWR_int PCIEDOOCS_IOC 71"
definition PCIEDEV_READ_DMA :: u32 where "PCIEDEV_READ_DMA = IOWR_int PCIEDOOCS_IOC 72"
definition PCIEDEV_SET_IRQ :: u32 where "PCIEDEV_SET_IRQ = IOWR_int PCIEDOOCS_IOC 73"
definition PCIEDOOCS_IOC_MINNR :: u32 where "PCIEDOOCS_IOC_MINNR = 60"
definition PCIEDOOCS_IOC_MAXNR :: u32 where "PCIEDOOCS_IOC_MAXNR = 63"
definition PCIEDOOCS_IOC_DMA_MINNR :: u32 where "PCIEDOOCS_IOC_DMA_MINNR = 70"
definition PCIEDOOCS_IOC_DMA_MAXNR :: u32 where "PCIEDOOCS_IOC_DMA_MAXNR = 74"

definition LLRFDRV_IOC :: u32 where "LLRFDRV_IOC = 0x30"
definition LLRFDRV_PHYSICAL_SLOT :: u32 where "LLRFDRV_PHYSICAL_SLOT = IOWR_int LLRFDRV_IOC 20"
definition LLRFDRV_DRIVER_VERSION :: u32 where "LLRFDRV_DRIVER_VERSION = IOWR_int LLRFDRV_IOC 21"
definition LLRFDRV_FIRMWARE_VERSION :: u32 where "LLRFDRV_FIRMWARE_VERSION = IOWR_int LLRFDRV_IOC 22"
definition LLRFDRV_IOC_MINNR :: u32 where "LLRFDRV_IOC_MINNR = 20"
definition LLRFDRV_IOC_MAXNR :: u32 where "LLRFDRV_IOC_MAXNR = 22"

definition PCIEUNI_IOC :: u32 where "PCIEUNI_IOC = 0x55"
definition PCIEUNI_PHYSICAL_SLOT :: u32 where "PCIEUNI_PHYSICAL_SLOT = IOWR_int PCIEUNI_IOC 60"
definition PCIEUNI_DRIVER_VERSION :: u32 where "PCIEUNI_DRIVER_VERSION = IOWR_int PCIEUNI_IOC 61"
definition PCIEUNI_FIRMWARE_VERSION :: u32 where "PCIEUNI_FIRMWARE_VERSION = IOWR_int PCIEUNI_IOC 62"
definition PCIEUNI_GET_DMA_TIME :: u32 where "PCIEUNI_GET_DMA_TIME = IOWR_int PCIEUNI_IOC 70"
definition PCIEUNI_WRITE_DMA :: u32 where "PCIEUNI_WRITE_DMA = IOWR_int PCIEUNI_IOC 71"
definition PCIEUNI_READ_DMA :: u32 where "PCIEUNI_READ_DMA = IOWR_int PCIEUNI_IOC 72"
definition PCIEUNI_SET_IRQ :: u32 where "PCIEUNI_SET_IRQ = IOWR_int PCIEUNI_IOC 73"
definition PCIEUNI_IOC_MINNR :: u32 where "PCIEUNI_IOC_MINNR = 60"
definition PCIEUNI_IOC_MAXNR :: u32 where "PCIEUNI_IOC_MAXNR = 63"
definition PCIEUNI_IOC_DMA_MINNR :: u32 where "PCIEUNI_IOC_DMA_MINNR = 70"
definition PCIEUNI_IOC_DMA_MAXNR :: u32 where "PCIEUNI_IOC_DMA_MAXNR = 74"

section \<open>The argument structures\<close>

record device_ioctrl_data =
  ctl_offset :: u32
  ctl_data :: u32
  ctl_cmd :: u32
  ctl_reserved :: u32

record device_ioctrl_dma =
  dma_offset :: u32
  dma_size :: u32
  dma_cmd :: u32
  dma_pattern :: u32
  dma_reserved1 :: u32
  dma_reserved2 :: u32

definition sizeof_device_ioctrl_data :: nat where "sizeof_device_ioctrl_data = 16"
definition sizeof_device_ioctrl_dma :: nat where "sizeof_device_ioctrl_dma = 24"

definition decode_ioctrl_data :: "u8 list \<Rightarrow> device_ioctrl_data" where
  "decode_ioctrl_data bs =
    \<lparr>ctl_offset = word_at bs 0, ctl_data = word_at bs 1, ctl_cmd = word_at bs 2,
     ctl_reserved = word_at bs 3\<rparr>"

definition encode_ioctrl_data :: "device_ioctrl_data \<Rightarrow> u8 list" where
  "encode_ioctrl_data r = bytes_of_words [ctl_offset r, ctl_data r, ctl_cmd r, ctl_reserved r]"

definition decode_ioctrl_dma :: "u8 list \<Rightarrow> device_ioctrl_dma" where
  "decode_ioctrl_dma bs =
    \<lparr>dma_offset = word_at bs 0, dma_size = word_at bs 1, dma_cmd = word_at bs 2,
     dma_pattern = word_at bs 3, dma_reserved1 = word_at bs 4, dma_reserved2 = word_at bs 5\<rparr>"

section \<open>The handlers\<close>

text \<open>
  The check of the user address, for kernels before and from 5.0 on: \<open>True\<close> when the C
  variable \<open>status\<close> is 0.
\<close>

definition user_access_ok :: "kernel \<Rightarrow> u32 \<Rightarrow> u64 \<Rightarrow> bool" where
  "user_access_ok K cmd arg =
    (if k_before_5_0 K then
       (if IOC_DIR cmd AND IOC_READ \<noteq> 0 then k_access_ok_4 K VERIFY_WRITE arg (unat (IOC_SIZE cmd))
        else if IOC_DIR cmd AND IOC_WRITE \<noteq> 0
        then k_access_ok_4 K VERIFY_READ arg (unat (IOC_SIZE cmd))
        else True)
     else k_access_ok K arg (unat (IOC_SIZE cmd)))"

text \<open>The branches of the \<open>switch\<close>, each with the unlocking that follows it.\<close>

definition ioctl_physical_slot ::
    "kernel \<Rightarrow> nat \<Rightarrow> mtcaDummyData \<Rightarrow> u64 \<Rightarrow> sys \<Rightarrow> (int \<times> sys) option" where
  "ioctl_physical_slot K d privateData arg s = do {
     ((bytes, missing), s) \<leftarrow> copy_from_user K arg sizeof_device_ioctrl_data s;
     if missing \<noteq> 0 then unlock_return (DevMutex d) (- EFAULT) s
     else do {
       let dataStruct = (decode_ioctrl_data bytes)\<lparr>ctl_data := slotNr privateData\<rparr>;
       (missing, s) \<leftarrow> copy_to_user K arg (encode_ioctrl_data dataStruct) s;
       unlock_return (DevMutex d) (if missing \<noteq> 0 then - EFAULT else 0) s
     }
   }"

definition ioctl_version :: "kernel \<Rightarrow> nat \<Rightarrow> u64 \<Rightarrow> sys \<Rightarrow> (int \<times> sys) option" where
  "ioctl_version K d arg s = do {
     ((bytes, missing), s) \<leftarrow> copy_from_user K arg sizeof_device_ioctrl_data s;
     if missing \<noteq> 0 then unlock_return (DevMutex d) (- EFAULT) s
     else do {
       let dataStruct = (decode_ioctrl_data bytes)\<lparr>ctl_data := VERSION_MAJ K, ctl_offset := VERSION_MIN K\<rparr>;
       (missing, s) \<leftarrow> copy_to_user K arg (encode_ioctrl_data dataStruct) s;
       unlock_return (DevMutex d) (if missing \<noteq> 0 then - EFAULT else 0) s
     }
   }"

definition ioctl_read_dma ::
    "kernel \<Rightarrow> nat \<Rightarrow> mtcaDummyData \<Rightarrow> u64 \<Rightarrow> sys \<Rightarrow> (int \<times> sys) option" where
  "ioctl_read_dma K d privateData arg s = do {
     ((bytes, missing), s) \<leftarrow> copy_from_user K arg sizeof_device_ioctrl_dma s;
     if missing \<noteq> 0 then unlock_return (DevMutex d) (- EFAULT) s
     else do {
       let dmaStruct = decode_ioctrl_dma bytes;
       if MTCADUMMY_DMA_SIZE < unat (dma_offset dmaStruct + dma_size dmaStruct)
       then unlock_return (DevMutex d) (- EFAULT) s
       else if dma_offset dmaStruct mod 4 \<noteq> 0 then unlock_return (DevMutex d) (- EFAULT) s
       else do {
         (bytes, s) \<leftarrow> load_bytes (dmaBar privateData) (unat (dma_offset dmaStruct div 4))
           (unat (dma_size dmaStruct)) s;
         (missing, s) \<leftarrow> copy_to_user K arg bytes s;
         unlock_return (DevMutex d) (if missing \<noteq> 0 then - EFAULT else 0) s
       }
     }
   }"

definition mtcaDummy_ioctl ::
    "kernel \<Rightarrow> open_file \<Rightarrow> u32 \<Rightarrow> u64 \<Rightarrow> sys \<Rightarrow> (int \<times> sys) option" where
  "mtcaDummy_ioctl K filp cmd arg s =
    (if IOC_TYPE cmd \<noteq> PCIEDOOCS_IOC then Some (- ENOTTY, s)
     else if (IOC_NR cmd < PCIEDOOCS_IOC_MINNR \<or> IOC_NR cmd > PCIEDOOCS_IOC_MAXNR) \<and>
       (IOC_NR cmd < PCIEDOOCS_IOC_DMA_MINNR \<or> IOC_NR cmd > PCIEDOOCS_IOC_DMA_MAXNR)
     then Some (- ENOTTY, s)
     else if \<not> user_access_ok K cmd arg then Some (- EFAULT, s)
     else do {
       d \<leftarrow> private_data filp;
       (locked, s) \<leftarrow> mutex_lock_interruptible K (DevMutex d) s;
       if locked \<noteq> 0 then Some (- ERESTARTSYS, s) else do {
       privateData \<leftarrow> dev_at s d;
       if cmd = PCIEDEV_PHYSICAL_SLOT then ioctl_physical_slot K d privateData arg s
       else if cmd = PCIEDEV_DRIVER_VERSION \<or> cmd = PCIEDEV_FIRMWARE_VERSION
       then ioctl_version K d arg s
       else if cmd = PCIEDEV_READ_DMA then ioctl_read_dma K d privateData arg s
       else unlock_return (DevMutex d) (- ENOTTY) s
     }})"

definition llrfDummy_ioctl ::
    "kernel \<Rightarrow> open_file \<Rightarrow> u32 \<Rightarrow> u64 \<Rightarrow> sys \<Rightarrow> (int \<times> sys) option" where
  "llrfDummy_ioctl K filp cmd arg s =
    (if IOC_TYPE cmd \<noteq> LLRFDRV_IOC then Some (- ENOTTY, s)
     else if IOC_NR cmd < LLRFDRV_IOC_MINNR \<or> IOC_NR cmd > LLRFDRV_IOC_MAXNR
     then Some (- ENOTTY, s)
     else if \<not> user_access_ok K cmd arg then Some (- EFAULT, s)
     else do {
       d \<leftarrow> private_data filp;
       (locked, s) \<leftarrow> mutex_lock_interruptible K (DevMutex d) s;
       if locked \<noteq> 0 then Some (- ERESTARTSYS, s) else do {
       privateData \<leftarrow> dev_at s d;
       if cmd = LLRFDRV_PHYSICAL_SLOT then ioctl_physical_slot K d privateData arg s
       else if cmd = LLRFDRV_DRIVER_VERSION \<or> cmd = LLRFDRV_FIRMWARE_VERSION
       then ioctl_version K d arg s
       else unlock_return (DevMutex d) (- ENOTTY) s
     }})"

definition pcieuniDummy_ioctl ::
    "kernel \<Rightarrow> open_file \<Rightarrow> u32 \<Rightarrow> u64 \<Rightarrow> sys \<Rightarrow> (int \<times> sys) option" where
  "pcieuniDummy_ioctl K filp cmd arg s =
    (if IOC_TYPE cmd \<noteq> PCIEUNI_IOC then Some (- ENOTTY, s)
     else if (IOC_NR cmd < PCIEUNI_IOC_MINNR \<or> IOC_NR cmd > PCIEUNI_IOC_MAXNR) \<and>
       (IOC_NR cmd < PCIEUNI_IOC_DMA_MINNR \<or> IOC_NR cmd > PCIEUNI_IOC_DMA_MAXNR)
     then Some (- ENOTTY, s)
     else if \<not> user_access_ok K cmd arg then Some (- EFAULT, s)
     else do {
       d \<leftarrow> private_data filp;
       (locked, s) \<leftarrow> mutex_lock_interruptible K (DevMutex d) s;
       if locked \<noteq> 0 then Some (- ERESTARTSYS, s) else do {
       privateData \<leftarrow> dev_at s d;
       if cmd = PCIEUNI_PHYSICAL_SLOT then ioctl_physical_slot K d privateData arg s
       else if cmd = PCIEUNI_DRIVER_VERSION \<or> cmd = PCIEUNI_FIRMWARE_VERSION
       then ioctl_version K d arg s
       else if cmd = PCIEUNI_READ_DMA then ioctl_read_dma K d privateData arg s
       else unlock_return (DevMutex d) (- ENOTTY) s
     }})"

section \<open>The contract of an ioctl\<close>

text \<open>What a command asks for, once it has passed the range checks.\<close>

datatype request = Physical_slot | Version | Read_dma | Unsupported

fun request_size :: "request \<Rightarrow> nat" where
  "request_size Read_dma = sizeof_device_ioctrl_dma"
| "request_size _ = sizeof_device_ioctrl_data"

text \<open>
  The answer to a request: the bytes that are copied over the argument structure, or an
  error when nothing is copied.
\<close>

fun ioctl_answer :: "kernel \<Rightarrow> nat \<Rightarrow> u32 list \<Rightarrow> request \<Rightarrow> u8 list \<Rightarrow> int + u8 list" where
  "ioctl_answer K d ds Physical_slot bs =
    Inr (encode_ioctrl_data ((decode_ioctrl_data bs)\<lparr>ctl_data := of_nat d\<rparr>))"
| "ioctl_answer K d ds Version bs =
    Inr (encode_ioctrl_data
      ((decode_ioctrl_data bs)\<lparr>ctl_data := VERSION_MAJ K, ctl_offset := VERSION_MIN K\<rparr>))"
| "ioctl_answer K d ds Read_dma bs =
    (let r = decode_ioctrl_dma bs in
      if MTCADUMMY_DMA_SIZE < unat (dma_offset r + dma_size r) \<or> dma_offset r mod 4 \<noteq> 0
      then Inl (- EFAULT)
      else Inr (take (unat (dma_size r)) (drop (unat (dma_offset r)) (bytes_of_words ds))))"
| "ioctl_answer K d ds Unsupported bs = Inl (- ENOTTY)"

definition ioctl_outcome ::
    "kernel \<Rightarrow> nat \<Rightarrow> u32 list \<Rightarrow> nat \<Rightarrow> umem \<Rightarrow> request \<Rightarrow> u64 \<Rightarrow> int \<times> umem" where
  "ioctl_outcome K d ds tk m req arg =
    (if req = Unsupported then (- ENOTTY, m)
     else case k_copy_from_user K tk m arg (request_size req) of (bs, missing) \<Rightarrow>
       if missing \<noteq> 0 then (- EFAULT, m)
       else case ioctl_answer K d ds req bs of
          Inl e \<Rightarrow> (e, m)
        | Inr out \<Rightarrow> (case k_copy_to_user K (Suc tk) m arg out of
            (m', missing) \<Rightarrow> (if missing = 0 then 0 else - EFAULT, m')))"

text \<open>
  The DMA request in the user's buffer, when it can be read, is not one that passes the checks
  of \<open>READ_DMA\<close> because the sum in its bound check wraps around.
\<close>

definition dma_request_fits :: "kernel \<Rightarrow> nat \<Rightarrow> umem \<Rightarrow> u64 \<Rightarrow> bool" where
  "dma_request_fits K tk m arg =
    (case k_copy_from_user K tk m arg sizeof_device_ioctrl_dma of (bytes, missing) \<Rightarrow>
      missing = 0 \<longrightarrow> (let r = decode_ioctrl_dma bytes in
        dma_offset r mod 4 = 0 \<longrightarrow> \<not> dma_wraps (dma_offset r) (dma_size r)))"

text \<open>A call that reaches the copy of such a request.\<close>

definition ioctl_escapes ::
    "(u32 \<Rightarrow> bool) \<Rightarrow> (u32 \<Rightarrow> request) \<Rightarrow> kernel \<Rightarrow> nat \<Rightarrow> u32 \<Rightarrow> u64 \<Rightarrow> sys \<Rightarrow> bool" where
  "ioctl_escapes accepts understand K d cmd arg s \<longleftrightarrow>
    accepts cmd \<and> user_access_ok K cmd arg \<and> k_lock K (tick s) (DevMutex d) = 0 \<and>
    understand cmd = Read_dma \<and> \<not> dma_request_fits K (Suc (tick s)) (umem s) arg"

text \<open>
  The interface shared by the handlers: which commands they accept and how they
  understand them.
\<close>

locale ioctl_handler =
  fixes handler :: "kernel \<Rightarrow> open_file \<Rightarrow> u32 \<Rightarrow> u64 \<Rightarrow> sys \<Rightarrow> (int \<times> sys) option"
    and accepts :: "u32 \<Rightarrow> bool"
    and understand :: "u32 \<Rightarrow> request"
  assumes rejects: "\<not> accepts cmd \<Longrightarrow> handler K filp cmd arg s = Some (- ENOTTY, s)"
    and no_access: "accepts cmd \<Longrightarrow> \<not> user_access_ok K cmd arg \<Longrightarrow>
      handler K filp cmd arg s = Some (- EFAULT, s)"
    and locked_out: "accepts cmd \<Longrightarrow> user_access_ok K cmd arg \<Longrightarrow> idle s \<Longrightarrow>
      private_data filp = Some d \<Longrightarrow> k_lock K (tick s) (DevMutex d) \<noteq> 0 \<Longrightarrow>
      handler K filp cmd arg s = Some (- ERESTARTSYS, count_call s)"
    and serves: "accepts cmd \<Longrightarrow> user_access_ok K cmd arg \<Longrightarrow> idle s \<Longrightarrow>
      private_data filp = Some d \<Longrightarrow> d < MTCADUMMY_NR_DEVS \<Longrightarrow>
      k_lock K (tick s) (DevMutex d) = 0 \<Longrightarrow>
      (understand cmd = Read_dma \<longrightarrow> dma_request_fits K (Suc (tick s)) (umem s) arg) \<Longrightarrow>
      ensures (handler K filp cmd arg s) (\<lambda>r t. call_on d s t \<and> regs t d = regs s d \<and>
        dma t d = dma s d \<and>
        (r, umem t) = ioctl_outcome K d (dma s d) (Suc (tick s)) (umem s) (understand cmd) arg)"
    and escapes: "idle s \<Longrightarrow> private_data filp = Some d \<Longrightarrow> d < MTCADUMMY_NR_DEVS \<Longrightarrow>
      ioctl_escapes accepts understand K d cmd arg s \<Longrightarrow> handler K filp cmd arg s = None"
begin

text \<open>One statement for all branches.\<close>

lemma total:
  assumes "idle s" and "private_data filp = Some d" and "d < MTCADUMMY_NR_DEVS"
    and "\<not> ioctl_escapes accepts understand K d cmd arg s"
  shows "ensures (handler K filp cmd arg s) (\<lambda>r t. call_on d s t \<and> regs t d = regs s d \<and>
    dma t d = dma s d \<and>
    (r, umem t) =
      (if \<not> accepts cmd then (- ENOTTY, umem s)
       else if \<not> user_access_ok K cmd arg then (- EFAULT, umem s)
       else if k_lock K (tick s) (DevMutex d) \<noteq> 0 then (- ERESTARTSYS, umem s)
       else ioctl_outcome K d (dma s d) (Suc (tick s)) (umem s) (understand cmd) arg))"
proof -
  have "call_on d s s" using assms(1) by (simp add: call_on_def)
  with assms show ?thesis
    by (cases "accepts cmd"; cases "user_access_ok K cmd arg";
        cases "k_lock K (tick s) (DevMutex d) = 0")
      (simp_all add: rejects no_access locked_out serves ioctl_escapes_def)
qed

text \<open>A command that is not understood changes nothing.\<close>

lemma unsupported:
  assumes "idle s" and "private_data filp = Some d" and "d < MTCADUMMY_NR_DEVS"
    and "understand cmd = Unsupported"
  shows "ensures (handler K filp cmd arg s) (\<lambda>r t. call_on d s t \<and> regs t d = regs s d \<and>
    dma t d = dma s d \<and> umem t = umem s \<and> r \<in> {- ENOTTY, - EFAULT, - ERESTARTSYS})"
  by (rule ensures_mono [OF total [OF assms(1-3)]])
    (use assms(4) in \<open>auto simp: ioctl_escapes_def ioctl_outcome_def split: if_splits\<close>)

end

section \<open>The branches of the switch\<close>

definition section_entered :: "nat \<Rightarrow> sys \<Rightarrow> sys" where
  "section_entered d s = take_lock (DevMutex d) s"

lemma section_entered_simps [simp]:
  "devs (section_entered d s) = devs s" "control (section_entered d s) = control s"
  "registered (section_entered d s) = registered s" "umem (section_entered d s) = umem s"
  "tick (section_entered d s) = Suc (tick s)" "regs (section_entered d s) e = regs s e"
  "dma (section_entered d s) e = dma s e" "held (section_entered d s) = insert (DevMutex d) (held s)"
  by (simp_all add: section_entered_def)

lemma section_ready:
  "idle s \<Longrightarrow> d < MTCADUMMY_NR_DEVS \<Longrightarrow> ready d (section_entered d s)"
  by (simp add: section_entered_def ready_def idle_def)

lemma section_leave:
  assumes "idle s" and "on_device d (section_entered d s) t"
  shows "call_on d s (drop_lock (DevMutex d) t)"
    and "call_on d s (drop_lock (DevMutex d) (put_user m t))"
    and "call_on d s (drop_lock (DevMutex d) (count_call t))"
  using assms by (auto simp: call_on_def idle_def on_device_def ready_def)

definition serve ::
    "kernel \<Rightarrow> nat \<Rightarrow> mtcaDummyData \<Rightarrow> u64 \<Rightarrow> request \<Rightarrow> sys \<Rightarrow> (int \<times> sys) option" where
  "serve K d privateData arg req s = (case req of
      Physical_slot \<Rightarrow> ioctl_physical_slot K d privateData arg s
    | Version \<Rightarrow> ioctl_version K d arg s
    | Read_dma \<Rightarrow> ioctl_read_dma K d privateData arg s
    | Unsupported \<Rightarrow> unlock_return (DevMutex d) (- ENOTTY) s)"

lemma mod4_byte_offset:
  fixes off n :: u32
  assumes "off mod 4 = 0" and "\<not> dma_wraps off n" and "unat (off + n) \<le> MTCADUMMY_DMA_SIZE"
  shows "4 * unat (off div 4) + unat n \<le> MTCADUMMY_DMA_SIZE" and "4 * unat (off div 4) = unat off"
proof -
  have "unat (off mod 4) = unat off mod 4" by (simp add: unat_mod)
  with assms(1) have "unat off mod 4 = 0" by simp
  then show e: "4 * unat (off div 4) = unat off" by (auto simp: unat_div)
  have "unat off + unat n < 2 ^ 32" using assms(2,3) by (auto simp: dma_wraps_def)
  then have "unat (off + n) = unat off + unat n" by (simp add: unat_word_ariths)
  with e assms(3) show "4 * unat (off div 4) + unat n \<le> MTCADUMMY_DMA_SIZE" by simp
qed

lemma serve_ok:
  assumes "idle s" and "d < MTCADUMMY_NR_DEVS"
    and "req = Read_dma \<longrightarrow> dma_request_fits K (Suc (tick s)) (umem s) arg"
  shows "ensures (serve K d (devs s ! d) arg req (section_entered d s))
    (\<lambda>r t. call_on d s t \<and> regs t d = regs s d \<and> dma t d = dma s d \<and>
      (r, umem t) = ioctl_outcome K d (dma s d) (Suc (tick s)) (umem s) req arg)"
proof -
  let ?e = "section_entered d s"
  have r: "ready d ?e" using assms section_ready by simp
  have keep: "on_device d ?e ?e" "on_device d ?e (count_call ?e)" using r by simp_all
  note leave = section_leave [OF assms(1), of d] keep
  obtain bytes missing where c:
    "k_copy_from_user K (Suc (tick s)) (umem s) arg (request_size req) = (bytes, missing)"
    by fastforce
  have slot: "slotNr (devs s ! d) = of_nat d" using readyD(7) [OF r] by simp
  note defs = serve_def ioctl_outcome_def exec wp unlock_return_def case_prod_beta
  show ?thesis
  proof (cases req)
    case Physical_slot
    with c slot leave r show ?thesis by (simp add: defs ioctl_physical_slot_def)
  next
    case Version
    with c leave r show ?thesis by (simp add: defs ioctl_version_def)
  next
    case Unsupported
    with leave r show ?thesis by (simp add: defs)
  next
    case Read_dma
    let ?q = "decode_ioctrl_dma bytes"
    have rd: "ready d (count_call ?e)" "devs (count_call ?e) = devs s" using r by simp_all
    have dma: "on_device d ?e (put_dma d (dma s d) (count_call ?e))"
      using keep readyD(11) [OF r] by simp
    show ?thesis
    proof (cases "missing = 0")
      case True
      then have "dma_offset ?q mod 4 = 0 \<Longrightarrow> \<not> dma_wraps (dma_offset ?q) (dma_size ?q)"
        using assms(3) Read_dma c by (simp add: dma_request_fits_def Let_def)
      note fits = mod4_byte_offset [OF _ this]
      with True Read_dma c leave r dma load_bytes_exec [OF rd] show ?thesis
        by (simp add: defs ioctl_read_dma_def Let_def not_less)
    next
      case False
      with Read_dma c leave r show ?thesis by (simp add: defs ioctl_read_dma_def)
    qed
  qed
qed

section \<open>The three handlers implement the contract\<close>

text \<open>Which commands a handler accepts, and the sequence that all handlers share.\<close>

definition mtca_accepts :: "u32 \<Rightarrow> bool" where
  "mtca_accepts cmd \<longleftrightarrow> IOC_TYPE cmd = 0x30 \<and> (IOC_NR cmd \<in> {60..63} \<or> IOC_NR cmd \<in> {70..74})"

definition llrf_accepts :: "u32 \<Rightarrow> bool" where
  "llrf_accepts cmd \<longleftrightarrow> IOC_TYPE cmd = 0x30 \<and> IOC_NR cmd \<in> {20..22}"

definition pcieuni_accepts :: "u32 \<Rightarrow> bool" where
  "pcieuni_accepts cmd \<longleftrightarrow> IOC_TYPE cmd = 0x55 \<and> (IOC_NR cmd \<in> {60..63} \<or> IOC_NR cmd \<in> {70..74})"

definition mtca_understand :: "u32 \<Rightarrow> request" where
  "mtca_understand cmd =
    (if cmd = PCIEDEV_PHYSICAL_SLOT then Physical_slot
     else if cmd = PCIEDEV_DRIVER_VERSION \<or> cmd = PCIEDEV_FIRMWARE_VERSION then Version
     else if cmd = PCIEDEV_READ_DMA then Read_dma else Unsupported)"

definition llrf_understand :: "u32 \<Rightarrow> request" where
  "llrf_understand cmd =
    (if cmd = LLRFDRV_PHYSICAL_SLOT then Physical_slot
     else if cmd = LLRFDRV_DRIVER_VERSION \<or> cmd = LLRFDRV_FIRMWARE_VERSION then Version
     else Unsupported)"

definition pcieuni_understand :: "u32 \<Rightarrow> request" where
  "pcieuni_understand cmd =
    (if cmd = PCIEUNI_PHYSICAL_SLOT then Physical_slot
     else if cmd = PCIEUNI_DRIVER_VERSION \<or> cmd = PCIEUNI_FIRMWARE_VERSION then Version
     else if cmd = PCIEUNI_READ_DMA then Read_dma else Unsupported)"

definition run_ioctl ::
    "(u32 \<Rightarrow> bool) \<Rightarrow> (u32 \<Rightarrow> request) \<Rightarrow> kernel \<Rightarrow> open_file \<Rightarrow> u32 \<Rightarrow> u64 \<Rightarrow> sys \<Rightarrow> (int \<times> sys) option"
  where
    "run_ioctl accepts understand K filp cmd arg s =
      (if \<not> accepts cmd then Some (- ENOTTY, s)
       else if \<not> user_access_ok K cmd arg then Some (- EFAULT, s)
       else do {
         d \<leftarrow> private_data filp;
         (locked, s) \<leftarrow> mutex_lock_interruptible K (DevMutex d) s;
         if locked \<noteq> 0 then Some (- ERESTARTSYS, s) else do {
         privateData \<leftarrow> dev_at s d;
         serve K d privateData arg (understand cmd) s
       }})"

text \<open>
  As in \<open>read\<close>, the sum in the bound check of a DMA request can wrap around; the copy then
  leaves the DMA area.
\<close>

lemma ioctl_read_dma_wrap:
  assumes "ready d s" and "devs s = dvs"
    and "k_copy_from_user K (tick s) (umem s) arg sizeof_device_ioctrl_dma = (bytes, 0)"
    and "r = decode_ioctrl_dma bytes" and "dma_offset r mod 4 = 0"
    and "2 ^ 32 \<le> unat (dma_offset r) + unat (dma_size r)"
    and "unat (dma_offset r + dma_size r) \<le> MTCADUMMY_DMA_SIZE"
  shows "ioctl_read_dma K d (dvs ! d) arg s = None"
proof -
  have "unat (dma_offset r) < 4 * unat (dma_offset r div 4) + 4" by (simp add: unat_div)
  with assms(6) have "\<not> 4 * unat (dma_offset r div 4) + unat (dma_size r) \<le> 4 * DMA_WORDS"
    by (simp add: size_defs)
  with readyD(8-11) [OF assms(1)] assms(2)
  have "load_bytes (dmaBar (dvs ! d)) (unat (dma_offset r div 4)) (unat (dma_size r)) (count_call s) = None"
    by (auto simp: load_bytes_def)
  with assms show ?thesis by (simp add: ioctl_read_dma_def exec not_less)
qed

lemma run_ioctl_dma_wrap:
  assumes "idle s" and "private_data filp = Some d" and "d < MTCADUMMY_NR_DEVS"
    and "accepts cmd" and "understand cmd = Read_dma" and "user_access_ok K cmd arg"
    and "k_lock K (tick s) (DevMutex d) = 0"
    and "k_copy_from_user K (Suc (tick s)) (umem s) arg sizeof_device_ioctrl_dma = (bytes, 0)"
    and "r = decode_ioctrl_dma bytes" and "dma_offset r mod 4 = 0"
    and "2 ^ 32 \<le> unat (dma_offset r) + unat (dma_size r)"
    and "unat (dma_offset r + dma_size r) \<le> MTCADUMMY_DMA_SIZE"
  shows "run_ioctl accepts understand K filp cmd arg s = None"
proof -
  let ?e = "section_entered d s"
  have r: "ready d ?e" using section_ready assms(1,3) by simp
  have "ioctl_read_dma K d (devs s ! d) arg ?e = None"
    using ioctl_read_dma_wrap [OF r _ _ assms(9-12), of "devs s" K arg] assms(8) by simp
  moreover have "dev_at ?e d = Some (devs s ! d)"
    using assms(1,3) by (simp add: dev_at_def idle_length_devs)
  ultimately show ?thesis
    using assms by (simp add: run_ioctl_def exec section_entered_def idleD serve_def)
qed

lemma run_ioctl_handler: "ioctl_handler (run_ioctl accepts understand) accepts understand"
proof
  fix cmd K arg s d and filp :: open_file
  assume *: "accepts cmd" "user_access_ok K cmd arg" "idle s" "private_data filp = Some d"
    "d < MTCADUMMY_NR_DEVS" "k_lock K (tick s) (DevMutex d) = 0"
    "understand cmd = Read_dma \<longrightarrow> dma_request_fits K (Suc (tick s)) (umem s) arg"
  have "dev_at (section_entered d s) d = Some (devs s ! d)"
    using *(3,5) by (simp add: dev_at_def idle_length_devs)
  with * have "run_ioctl accepts understand K filp cmd arg s =
      serve K d (devs s ! d) arg (understand cmd) (section_entered d s)"
    by (simp add: run_ioctl_def exec section_entered_def idleD)
  with serve_ok [OF *(3,5,7)] show "ensures (run_ioctl accepts understand K filp cmd arg s)
    (\<lambda>r t. call_on d s t \<and> regs t d = regs s d \<and> dma t d = dma s d \<and>
      (r, umem t) = ioctl_outcome K d (dma s d) (Suc (tick s)) (umem s) (understand cmd) arg)"
    by simp
next
  fix s d K cmd arg and filp :: open_file
  assume *: "idle s" "private_data filp = Some d" "d < MTCADUMMY_NR_DEVS"
    "ioctl_escapes accepts understand K d cmd arg s"
  then show "run_ioctl accepts understand K filp cmd arg s = None"
    using run_ioctl_dma_wrap [OF *(1-3), of accepts cmd understand K arg]
    by (auto simp: ioctl_escapes_def dma_request_fits_def dma_wraps_def Let_def split: prod.splits)
qed (simp_all add: run_ioctl_def exec idleD)

text \<open>The C code has the branches of \<open>serve\<close> in place, in the order of the commands.\<close>

lemma serve_understand:
  "serve K d p arg (mtca_understand cmd) s =
    (if cmd = PCIEDEV_PHYSICAL_SLOT then ioctl_physical_slot K d p arg s
     else if cmd = PCIEDEV_DRIVER_VERSION \<or> cmd = PCIEDEV_FIRMWARE_VERSION then ioctl_version K d arg s
     else if cmd = PCIEDEV_READ_DMA then ioctl_read_dma K d p arg s
     else unlock_return (DevMutex d) (- ENOTTY) s)"
  "serve K d p arg (llrf_understand cmd) s =
    (if cmd = LLRFDRV_PHYSICAL_SLOT then ioctl_physical_slot K d p arg s
     else if cmd = LLRFDRV_DRIVER_VERSION \<or> cmd = LLRFDRV_FIRMWARE_VERSION then ioctl_version K d arg s
     else unlock_return (DevMutex d) (- ENOTTY) s)"
  "serve K d p arg (pcieuni_understand cmd) s =
    (if cmd = PCIEUNI_PHYSICAL_SLOT then ioctl_physical_slot K d p arg s
     else if cmd = PCIEUNI_DRIVER_VERSION \<or> cmd = PCIEUNI_FIRMWARE_VERSION then ioctl_version K d arg s
     else if cmd = PCIEUNI_READ_DMA then ioctl_read_dma K d p arg s
     else unlock_return (DevMutex d) (- ENOTTY) s)"
  by (simp_all add: serve_def mtca_understand_def llrf_understand_def pcieuni_understand_def)

lemma accepts_bounds:
  "mtca_accepts cmd \<longleftrightarrow> IOC_TYPE cmd = PCIEDOOCS_IOC \<and>
    \<not> ((IOC_NR cmd < PCIEDOOCS_IOC_MINNR \<or> IOC_NR cmd > PCIEDOOCS_IOC_MAXNR) \<and>
       (IOC_NR cmd < PCIEDOOCS_IOC_DMA_MINNR \<or> IOC_NR cmd > PCIEDOOCS_IOC_DMA_MAXNR))"
  "llrf_accepts cmd \<longleftrightarrow> IOC_TYPE cmd = LLRFDRV_IOC \<and>
    \<not> (IOC_NR cmd < LLRFDRV_IOC_MINNR \<or> IOC_NR cmd > LLRFDRV_IOC_MAXNR)"
  "pcieuni_accepts cmd \<longleftrightarrow> IOC_TYPE cmd = PCIEUNI_IOC \<and>
    \<not> ((IOC_NR cmd < PCIEUNI_IOC_MINNR \<or> IOC_NR cmd > PCIEUNI_IOC_MAXNR) \<and>
       (IOC_NR cmd < PCIEUNI_IOC_DMA_MINNR \<or> IOC_NR cmd > PCIEUNI_IOC_DMA_MAXNR))"
  by (auto simp: mtca_accepts_def llrf_accepts_def pcieuni_accepts_def PCIEDOOCS_IOC_def
      PCIEDOOCS_IOC_MINNR_def PCIEDOOCS_IOC_MAXNR_def PCIEDOOCS_IOC_DMA_MINNR_def
      PCIEDOOCS_IOC_DMA_MAXNR_def LLRFDRV_IOC_def LLRFDRV_IOC_MINNR_def LLRFDRV_IOC_MAXNR_def
      PCIEUNI_IOC_def PCIEUNI_IOC_MINNR_def PCIEUNI_IOC_MAXNR_def PCIEUNI_IOC_DMA_MINNR_def
      PCIEUNI_IOC_DMA_MAXNR_def)

lemma if_checks: "(if \<not> (a \<and> \<not> r) then e else x) = (if \<not> a then e else if r then e else x)"
  by simp

lemma handlers_run:
  "mtcaDummy_ioctl = run_ioctl mtca_accepts mtca_understand"
  "llrfDummy_ioctl = run_ioctl llrf_accepts llrf_understand"
  "pcieuniDummy_ioctl = run_ioctl pcieuni_accepts pcieuni_understand"
  by (intro ext, simp only: run_ioctl_def serve_understand accepts_bounds if_checks
      mtcaDummy_ioctl_def llrfDummy_ioctl_def pcieuniDummy_ioctl_def)+

interpretation mtca: ioctl_handler mtcaDummy_ioctl mtca_accepts mtca_understand
  unfolding handlers_run by (rule run_ioctl_handler)

interpretation llrf: ioctl_handler llrfDummy_ioctl llrf_accepts llrf_understand
  unfolding handlers_run by (rule run_ioctl_handler)

interpretation pcieuni: ioctl_handler pcieuniDummy_ioctl pcieuni_accepts pcieuni_understand
  unfolding handlers_run by (rule run_ioctl_handler)

section \<open>The commands\<close>

lemmas command_defs = PCIEDEV_PHYSICAL_SLOT_def PCIEDEV_DRIVER_VERSION_def
  PCIEDEV_FIRMWARE_VERSION_def PCIEDEV_GET_DMA_TIME_def PCIEDEV_WRITE_DMA_def PCIEDEV_READ_DMA_def
  PCIEDEV_SET_IRQ_def LLRFDRV_PHYSICAL_SLOT_def LLRFDRV_DRIVER_VERSION_def
  LLRFDRV_FIRMWARE_VERSION_def PCIEUNI_PHYSICAL_SLOT_def PCIEUNI_DRIVER_VERSION_def
  PCIEUNI_FIRMWARE_VERSION_def PCIEUNI_GET_DMA_TIME_def PCIEUNI_WRITE_DMA_def PCIEUNI_READ_DMA_def
  PCIEUNI_SET_IRQ_def PCIEDOOCS_IOC_def LLRFDRV_IOC_def PCIEUNI_IOC_def

lemmas field_defs = IOC_TYPE_def IOC_NR_def IOC_SIZE_def IOC_DIR_def IOWR_int_def IOC_READ_def
  IOC_WRITE_def

lemma command_table:
  "map mtca_understand [PCIEDEV_PHYSICAL_SLOT, PCIEDEV_DRIVER_VERSION, PCIEDEV_FIRMWARE_VERSION,
     PCIEDEV_GET_DMA_TIME, PCIEDEV_WRITE_DMA, PCIEDEV_READ_DMA, PCIEDEV_SET_IRQ] =
   [Physical_slot, Version, Version, Unsupported, Unsupported, Read_dma, Unsupported]"
  "map llrf_understand [LLRFDRV_PHYSICAL_SLOT, LLRFDRV_DRIVER_VERSION, LLRFDRV_FIRMWARE_VERSION] =
   [Physical_slot, Version, Version]"
  "map pcieuni_understand [PCIEUNI_PHYSICAL_SLOT, PCIEUNI_DRIVER_VERSION, PCIEUNI_FIRMWARE_VERSION,
     PCIEUNI_GET_DMA_TIME, PCIEUNI_WRITE_DMA, PCIEUNI_READ_DMA, PCIEUNI_SET_IRQ] =
   [Physical_slot, Version, Version, Unsupported, Unsupported, Read_dma, Unsupported]"
  by (simp_all add: mtca_understand_def llrf_understand_def pcieuni_understand_def
      command_defs IOWR_int_def IOC_READ_def IOC_WRITE_def)

lemma commands_accepted:
  "list_all mtca_accepts [PCIEDEV_PHYSICAL_SLOT, PCIEDEV_DRIVER_VERSION, PCIEDEV_FIRMWARE_VERSION,
     PCIEDEV_GET_DMA_TIME, PCIEDEV_WRITE_DMA, PCIEDEV_READ_DMA, PCIEDEV_SET_IRQ]"
  "list_all llrf_accepts [LLRFDRV_PHYSICAL_SLOT, LLRFDRV_DRIVER_VERSION, LLRFDRV_FIRMWARE_VERSION]"
  "list_all pcieuni_accepts [PCIEUNI_PHYSICAL_SLOT, PCIEUNI_DRIVER_VERSION,
     PCIEUNI_FIRMWARE_VERSION, PCIEUNI_GET_DMA_TIME, PCIEUNI_WRITE_DMA, PCIEUNI_READ_DMA,
     PCIEUNI_SET_IRQ]"
  by (simp_all add: mtca_accepts_def llrf_accepts_def pcieuni_accepts_def command_defs field_defs)

lemma accepted_once:
  "mtca_accepts cmd \<Longrightarrow> \<not> llrf_accepts cmd" "mtca_accepts cmd \<Longrightarrow> \<not> pcieuni_accepts cmd"
  "llrf_accepts cmd \<Longrightarrow> \<not> pcieuni_accepts cmd"
  by (auto simp: mtca_accepts_def llrf_accepts_def pcieuni_accepts_def word_le_nat_alt)

lemma llrf_no_dma: "llrf_understand cmd \<noteq> Read_dma"
  by (simp add: llrf_understand_def)

lemma llrf_never_escapes: "\<not> ioctl_escapes llrf_accepts llrf_understand K d cmd arg s"
  by (simp add: ioctl_escapes_def llrf_no_dma)

lemmas llrf_total = llrf.total [OF _ _ _ llrf_never_escapes]

end
