(* ===== verification/No_Struct_Io.thy ===== *)
theory No_Struct_Io
  imports Struct_Io
begin

text \<open>
  The transfers of \<open>mtcadummy_rw_no_struct.c\<close>, used by the pcieuni compatible device: the
  bar and the offset come from the file position, the data are the words of the buffer.
\<close>

section \<open>The transfer information\<close>

text \<open>\<open>barEnd\<close> is a pointer into the block of the bar: the block and the index of the word.\<close>

record transfer_information =
  ti_bar :: u32
  ti_offset :: u64
  barSizeInBytes :: u64
  barStart :: ptr
  barEnd :: "ptr \<times> nat"
  nBytesToTransfer :: u32

text \<open>
  \<open>virtualOffset\<close> is the 64 bit pattern of the signed file position; its right shift is
  arithmetic. The result is the error number, or the structure the C code fills.
\<close>

definition checkAndCalculateTransferInformation ::
    "mtcaDummyData \<Rightarrow> u64 \<Rightarrow> u64 \<Rightarrow> int + transfer_information" where
  "checkAndCalculateTransferInformation deviceData count virtualOffset =
    (if virtualOffset mod 4 \<noteq> 0 then Inl (- EFAULT)
     else if count mod 4 \<noteq> 0 then Inl (- EFAULT)
     else
       let bar = ucast (signed_drop_bit 60 virtualOffset AND 7) :: u32;
           offset = virtualOffset AND 0x0FFFFFFFFFFFFFFF
       in
         case (if bar = 0 then Some (systemBar deviceData, of_nat (MTCADUMMY_N_REGISTERS * 4))
               else if bar = 2 then Some (dmaBar deviceData, of_nat MTCADUMMY_DMA_SIZE)
               else if bar \<in> {1, 3, 4, 5} then Some (NULL, 0)
               else None) of
           None \<Rightarrow> Inl (- EFAULT)
         | Some (start, barSize) \<Rightarrow>
             if start = NULL then Inl (- EFAULT)
             else if barSize < offset then Inl (- EFAULT)
             else Inr
               \<lparr>ti_bar = bar, ti_offset = offset, barSizeInBytes = barSize, barStart = start,
                barEnd = (start, unat (barSize div 4)),
                nBytesToTransfer =
                  ucast (if barSize < offset + count then barSize - offset else count)\<rparr>)"

section \<open>read and write\<close>

text \<open>
  The loop bodies work on the pair of \<open>*f_pos\<close> and the state. The offset handed to the
  firmware is truncated to 32 bits by the call.
\<close>

definition read_no_struct_body ::
    "kernel \<Rightarrow> nat \<Rightarrow> mtcaDummyData \<Rightarrow> transfer_information \<Rightarrow> u64 \<Rightarrow>
      nat \<Rightarrow> u64 \<times> sys \<Rightarrow> (int \<times> u64 \<times> sys) option" where
  "read_no_struct_body K d deviceData ti buf i st = (case st of (f_pos, s) \<Rightarrow>
     let offsetInLoop = of_nat i * 4 :: u32 in
     if mtcadummy_performPreReadAction (ucast (ti_offset ti + ucast offsetInLoop)) (ti_bar ti)
          (slotNr deviceData) \<noteq> 0
     then do {
       (_, s) \<leftarrow> mutex_unlock (DevMutex d) s;
       Some (- EIO, f_pos, s)
     }
     else do {
       (bytes, s) \<leftarrow> load_bytes (barStart ti) (unat (ti_offset ti div 4) + i) 4 s;
       (missing, s) \<leftarrow> copy_to_user K (buf + ucast offsetInLoop) bytes s;
       if missing \<noteq> 0 then do {
         (_, s) \<leftarrow> mutex_unlock (DevMutex d) s;
         Some (- EFAULT, f_pos, s)
       }
       else Some (0, f_pos + 4, s)
     })"

definition mtcaDummy_read_no_struct ::
    "kernel \<Rightarrow> open_file \<Rightarrow> u64 \<Rightarrow> u64 \<Rightarrow> u64 \<Rightarrow> sys \<Rightarrow> ((int \<times> u64) \<times> sys) option" where
  "mtcaDummy_read_no_struct K filp buf count f_pos s = do {
     (locked, s) \<leftarrow> mutex_lock_interruptible K ControlMutex s;
     if locked \<noteq> 0 then Some ((- ERESTARTSYS, f_pos), s) else do {
     (readFail, s) \<leftarrow> read_control read_error s;
     (_, s) \<leftarrow> mutex_unlock ControlMutex s;
     if readFail then Some ((- EFAULT, f_pos), s) else do {
     d \<leftarrow> private_data filp;
     deviceData \<leftarrow> dev_at s d;
     case checkAndCalculateTransferInformation deviceData count f_pos of
       Inl transferInfoError \<Rightarrow> Some ((transferInfoError, f_pos), s)
     | Inr ti \<Rightarrow> do {
         (locked, s) \<leftarrow> mutex_lock_interruptible K (DevMutex d) s;
         if locked \<noteq> 0 then Some ((- ERESTARTSYS, f_pos), s) else do {
         (r, f_pos, s) \<leftarrow> for_loop (read_no_struct_body K d deviceData ti buf)
            0 (unat (nBytesToTransfer ti) div 4) (f_pos, s);
         if r \<noteq> 0 then Some ((r, f_pos), s) else do {
         (_, s) \<leftarrow> mutex_unlock (DevMutex d) s;
         Some ((int (unat (nBytesToTransfer ti)), f_pos), s)
       }}}
   }}}"

text \<open>
  The copy from the user goes straight into the bar, so that a word that cannot be copied
  completely is changed all the same.
\<close>

definition write_no_struct_body ::
    "kernel \<Rightarrow> nat \<Rightarrow> mtcaDummyData \<Rightarrow> transfer_information \<Rightarrow> u64 \<Rightarrow>
      nat \<Rightarrow> u64 \<times> sys \<Rightarrow> (int \<times> u64 \<times> sys) option" where
  "write_no_struct_body K d deviceData ti buf i st = (case st of (f_pos, s) \<Rightarrow>
     let offsetInLoop = of_nat i * 4 :: u32 in
     do {
       ((bytes, missing), s) \<leftarrow> copy_from_user K (buf + ucast offsetInLoop) 4 s;
       (_, s) \<leftarrow> store (barStart ti) (unat (ti_offset ti div 4) + i) (le32 bytes) s;
       if missing \<noteq> 0 then do {
         (_, s) \<leftarrow> mutex_unlock (DevMutex d) s;
         Some (- EFAULT, f_pos, s)
       }
       else do {
         (failed, s) \<leftarrow> mtcadummy_performActionOnWrite K
           (ucast (ti_offset ti + ucast offsetInLoop)) (ti_bar ti) (slotNr deviceData) s;
         if failed \<noteq> 0 then do {
           (_, s) \<leftarrow> mutex_unlock (DevMutex d) s;
           Some (- EIO, f_pos, s)
         }
         else Some (0, f_pos + 4, s)
       }
     })"

definition mtcaDummy_write_no_struct ::
    "kernel \<Rightarrow> open_file \<Rightarrow> u64 \<Rightarrow> u64 \<Rightarrow> u64 \<Rightarrow> sys \<Rightarrow> ((int \<times> u64) \<times> sys) option" where
  "mtcaDummy_write_no_struct K filp buf count f_pos s = do {
     (locked, s) \<leftarrow> mutex_lock_interruptible K ControlMutex s;
     if locked \<noteq> 0 then Some ((- ERESTARTSYS, f_pos), s) else do {
     (writeFail, s) \<leftarrow> read_control write_error s;
     (_, s) \<leftarrow> mutex_unlock ControlMutex s;
     if writeFail then Some ((- EFAULT, f_pos), s) else do {
     d \<leftarrow> private_data filp;
     deviceData \<leftarrow> dev_at s d;
     case checkAndCalculateTransferInformation deviceData count f_pos of
       Inl transferInfoError \<Rightarrow> Some ((transferInfoError, f_pos), s)
     | Inr ti \<Rightarrow> do {
         (locked, s) \<leftarrow> mutex_lock_interruptible K (DevMutex d) s;
         if locked \<noteq> 0 then Some ((- ERESTARTSYS, f_pos), s) else do {
         (r, f_pos, s) \<leftarrow> for_loop (write_no_struct_body K d deviceData ti buf)
            0 (unat (nBytesToTransfer ti) div 4) (f_pos, s);
         if r \<noteq> 0 then Some ((r, f_pos), s) else do {
         (_, s) \<leftarrow> mutex_unlock (DevMutex d) s;
         Some ((int (unat (nBytesToTransfer ti)), f_pos), s)
       }}}
   }}}"

lemma ucast_off: "unat (ucast off :: u64) = unat off" for off :: u32
proof -
  have "unat off < 2 ^ LENGTH(32)" by (rule unsigned_less)
  then show ?thesis by (simp add: unsigned_ucast_eq take_bit_eq_mod)
qed

lemma word_mod4: "w mod 4 = 0 \<longleftrightarrow> unat w mod 4 = 0" for w :: u64
proof -
  have "unat (w mod 4) = unat w mod 4" by (simp add: unat_mod)
  then show ?thesis by (metis unat_eq_zero)
qed

lemma unat_ucast32: "unat w < 2 ^ 32 \<Longrightarrow> unat (ucast w :: u32) = unat w" for w :: u64
  by (simp add: unsigned_ucast_eq take_bit_eq_mod)

section \<open>What the check accepts\<close>

definition position_bar :: "u64 \<Rightarrow> u32" where
  "position_bar v = ucast (signed_drop_bit 60 v AND 7)"

definition position_offset :: "u64 \<Rightarrow> u64" where
  "position_offset v = v AND 0x0FFFFFFFFFFFFFFF"

lemma position_offset_take_bit: "position_offset v = take_bit 60 v"
proof -
  have "(0x0FFFFFFFFFFFFFFF :: u64) = mask 60" by (simp add: mask_eq_exp_minus_1)
  then show ?thesis by (simp add: position_offset_def take_bit_eq_mask)
qed

lemma position_offset_mod4: "v mod 4 = 0 \<Longrightarrow> position_offset v mod 4 = 0"
  using take_bit_eq_mod [of 2 v] take_bit_eq_mod [of 2 "position_offset v"]
  by (simp add: position_offset_take_bit)

text \<open>The largest transfer that \<open>vfs_read\<close> and \<open>vfs_write\<close> hand to a driver.\<close>

definition MAX_RW_COUNT :: nat where "MAX_RW_COUNT = 0x7FFFF000"

definition transfer_ok :: "transfer_information \<Rightarrow> u32 list \<Rightarrow> nat \<Rightarrow> bool" where
  "transfer_ok ti ws count \<longleftrightarrow>
    unat (barSizeInBytes ti) = 4 * length ws \<and> unat (ti_offset ti) mod 4 = 0 \<and>
    unat (ti_offset ti) \<le> 4 * length ws \<and> count mod 4 = 0 \<and>
    unat (nBytesToTransfer ti) = min count (4 * length ws - unat (ti_offset ti))"

lemma clip_to_bar:
  fixes offset count :: u64
  assumes "unat offset + unat count < 2 ^ 64" and "n \<le> MTCADUMMY_DMA_SIZE" and "offset \<le> of_nat n"
  shows "unat (ucast (if of_nat n < offset + count then of_nat n - offset else count) :: u32) =
    min (unat count) (n - unat offset)" and "unat offset \<le> n" and "unat (of_nat n :: u64) = n"
proof -
  show n: "unat (of_nat n :: u64) = n"
    using assms(2) by (simp add: size_defs unat_of_nat)
  with assms(3) show o: "unat offset \<le> n" by (simp add: word_le_nat_alt)
  have sum: "unat (offset + count) = unat offset + unat count"
    using assms(1) by (simp add: unat_word_ariths)
  have "unat (of_nat n - offset) = n - unat offset"
    using n assms(3) by (simp add: unat_sub)
  then show "unat (ucast (if of_nat n < offset + count then of_nat n - offset else count) :: u32) =
    min (unat count) (n - unat offset)"
    using n o sum assms(2)
    by (auto simp: word_less_nat_alt unat_ucast32 size_defs)
qed

text \<open>
  A sum that wraps around is smaller than the offset, so nothing is cut, and the count is
  truncated to 32 bits.
\<close>

lemma clip_wrapped:
  fixes offset count :: u64
  assumes "2 ^ 64 \<le> unat offset + unat count" and "n \<le> MTCADUMMY_DMA_SIZE" and "offset \<le> of_nat n"
  shows "unat (ucast (if of_nat n < offset + count then of_nat n - offset else count) :: u32) =
    unat count mod 2 ^ 32" and "n < unat offset + unat count mod 2 ^ 32"
proof -
  have n: "unat (of_nat n :: u64) = n"
    using assms(2) by (simp add: size_defs unat_of_nat)
  with assms(3) have o: "unat offset \<le> n" by (simp add: word_le_nat_alt)
  have c: "unat count < 2 ^ 64" using unsigned_less [of count] by simp
  have "unat (offset + count) = unat offset + unat count - 2 ^ 64"
    using assms(1) o c assms(2) by (simp add: unat_word_ariths size_defs mod_if)
  then have "\<not> of_nat n < offset + count"
    using n o c by (simp add: word_less_nat_alt)
  then show "unat (ucast (if of_nat n < offset + count then of_nat n - offset else count) :: u32) =
    unat count mod 2 ^ 32" by (simp add: unsigned_ucast_eq take_bit_eq_mod)
  have "unat count mod 2 ^ 32 = 2 ^ 32 - (2 ^ 64 - unat count)"
  proof -
    have "unat count = (2 ^ 32 - 1) * 2 ^ 32 + (2 ^ 32 - (2 ^ 64 - unat count))"
      using assms(1,2) o c by (simp add: size_defs)
    moreover have "2 ^ 32 - (2 ^ 64 - unat count) < 2 ^ 32" using c by simp
    ultimately show ?thesis by (metis mod_less mod_mult_self3)
  qed
  then show "n < unat offset + unat count mod 2 ^ 32"
    using assms(1,2) o by (simp add: size_defs)
qed

lemma check_unfold:
  "checkAndCalculateTransferInformation deviceData count v =
    (if v mod 4 \<noteq> 0 \<or> count mod 4 \<noteq> 0 then Inl (- EFAULT)
     else
       case (if position_bar v = 0 then Some (systemBar deviceData, of_nat (MTCADUMMY_N_REGISTERS * 4))
             else if position_bar v = 2 then Some (dmaBar deviceData, of_nat MTCADUMMY_DMA_SIZE)
             else if position_bar v \<in> {1, 3, 4, 5} then Some (NULL, 0)
             else None) of
         None \<Rightarrow> Inl (- EFAULT)
       | Some (start, barSize) \<Rightarrow>
           if start = NULL \<or> barSize < position_offset v then Inl (- EFAULT)
           else Inr
             \<lparr>ti_bar = position_bar v, ti_offset = position_offset v, barSizeInBytes = barSize,
              barStart = start, barEnd = (start, unat (barSize div 4)),
              nBytesToTransfer =
                ucast (if barSize < position_offset v + count then barSize - position_offset v
                       else count)\<rparr>)"
  unfolding checkAndCalculateTransferInformation_def Let_def position_bar_def [symmetric]
    position_offset_def [symmetric]
  by (simp split: option.split)

text \<open>The structure the check fills for a bar of \<open>n\<close> bytes that starts at \<open>start\<close>.\<close>

definition filled :: "u64 \<Rightarrow> u64 \<Rightarrow> ptr \<Rightarrow> nat \<Rightarrow> transfer_information" where
  "filled count v start n =
    \<lparr>ti_bar = position_bar v, ti_offset = position_offset v, barSizeInBytes = of_nat n,
     barStart = start, barEnd = (start, unat (of_nat n div 4 :: u64)),
     nBytesToTransfer =
       ucast (if of_nat n < position_offset v + count then of_nat n - position_offset v
              else count)\<rparr>"

lemma check_cases:
  assumes "checkAndCalculateTransferInformation deviceData count v = Inr ti"
  obtains start n where "select_bar deviceData (position_bar v) = Some (start, n)"
    and "start \<noteq> NULL" and "\<not> of_nat n < position_offset v" and "ti = filled count v start n"
    and "v mod 4 = 0" and "count mod 4 = 0"
proof (cases "position_bar v = 0 \<or> position_bar v = 2")
  case True
  then obtain start n where "select_bar deviceData (position_bar v) = Some (start, n)"
    by (auto simp: select_bar_def)
  with assms True that show ?thesis
    by (auto simp: check_unfold select_bar_def filled_def split: if_splits)
next
  case False
  with assms show ?thesis by (simp add: check_unfold split: if_splits)
qed

lemma check_accepts_sum:
  assumes "checkAndCalculateTransferInformation deviceData count v = Inr ti"
    and "unat (position_offset v) + unat count < 2 ^ 64"
    and "length rs = MTCADUMMY_N_REGISTERS" and "length ds = DMA_WORDS"
  shows "ti_bar ti = position_bar v \<and> ti_offset ti = position_offset v \<and>
    (\<exists>ws. bar_words (ti_bar ti) rs ds = Some ws \<and>
      select_bar deviceData (ti_bar ti) = Some (barStart ti, 4 * length ws) \<and>
      transfer_ok ti ws (unat count) \<and> barEnd ti = (barStart ti, length ws))"
  using assms(1)
proof (cases rule: check_cases)
  case (1 start n)
  have m: "unat count mod 4 = 0" "unat (position_offset v) mod 4 = 0"
    using 1(5,6) position_offset_mod4 by (simp_all add: word_mod4)
  obtain ws where ws: "bar_words (position_bar v) rs ds = Some ws" "n = 4 * length ws"
      "n \<le> MTCADUMMY_DMA_SIZE"
    using 1(1) assms(3,4) by (auto simp: bar_words_def select_bar_def size_defs split: if_splits)
  have "position_offset v \<le> of_nat n" using 1(3) by simp
  note clip = clip_to_bar [OF assms(2) ws(3) this]
  have "transfer_ok ti ws (unat count)"
    using clip m by (simp add: transfer_ok_def filled_def 1(4) ws(2) [symmetric])
  moreover have "barEnd ti = (barStart ti, length ws)"
    using clip(3) ws(2) by (simp add: filled_def 1(4) unat_div)
  ultimately show ?thesis using 1(1,4) ws by (simp add: filled_def)
qed

lemma position_offset_less: "unat (position_offset v) < 2 ^ 60"
  by (simp add: position_offset_take_bit take_bit_eq_mod unat_mod)

lemma within_rw_count:
  assumes "unat count \<le> MAX_RW_COUNT"
  shows "unat (position_offset v) + unat count < 2 ^ 64"
  using assms position_offset_less [of v] by (simp add: MAX_RW_COUNT_def)

lemma check_accepts:
  assumes "checkAndCalculateTransferInformation deviceData count v = Inr ti"
    and "unat count \<le> MAX_RW_COUNT"
    and "length rs = MTCADUMMY_N_REGISTERS" and "length ds = DMA_WORDS"
  shows "ti_bar ti = position_bar v \<and> ti_offset ti = position_offset v \<and>
    (\<exists>ws. bar_words (ti_bar ti) rs ds = Some ws \<and>
      select_bar deviceData (ti_bar ti) = Some (barStart ti, 4 * length ws) \<and>
      transfer_ok ti ws (unat count) \<and> barEnd ti = (barStart ti, length ws))"
  by (rule check_accepts_sum [OF assms(1) within_rw_count [OF assms(2)] assms(3,4)])

lemma check_wraps:
  assumes "checkAndCalculateTransferInformation deviceData count v = Inr ti"
    and "2 ^ 64 \<le> unat (position_offset v) + unat count"
    and "length rs = MTCADUMMY_N_REGISTERS" and "length ds = DMA_WORDS"
  shows "\<exists>ws. bar_words (position_bar v) rs ds = Some ws \<and> ti_offset ti = position_offset v \<and>
    select_bar deviceData (position_bar v) = Some (barStart ti, 4 * length ws) \<and>
    unat (position_offset v) mod 4 = 0 \<and> unat count mod 4 = 0 \<and>
    unat (nBytesToTransfer ti) = unat count mod 2 ^ 32 \<and>
    4 * length ws < unat (ti_offset ti) + unat (nBytesToTransfer ti)"
  using assms(1)
proof (cases rule: check_cases)
  case (1 start n)
  have m: "unat count mod 4 = 0" "unat (position_offset v) mod 4 = 0"
    using 1(5,6) position_offset_mod4 by (simp_all add: word_mod4)
  obtain ws where ws: "bar_words (position_bar v) rs ds = Some ws" "n = 4 * length ws"
      "n \<le> MTCADUMMY_DMA_SIZE"
    using 1(1) assms(3,4) by (auto simp: bar_words_def select_bar_def size_defs split: if_splits)
  have "position_offset v \<le> of_nat n" using 1(3) by simp
  note clip = clip_wrapped [OF assms(2) ws(3) this]
  from clip m 1(1) ws(1) show ?thesis by (simp add: filled_def 1(4) ws(2) [symmetric])
qed

section \<open>Inside the critical section\<close>

text \<open>
  As \<open>on_device\<close>, except that user memory may change: between the entry \<open>e\<close> and \<open>t\<close> at
  most the bars of \<open>d\<close> and user memory have changed.
\<close>

definition in_section :: "nat \<Rightarrow> sys \<Rightarrow> sys \<Rightarrow> bool" where
  "in_section d e t \<longleftrightarrow>
    ready d t \<and> devs t = devs e \<and> control t = control e \<and> held t = held e \<and>
    registered t = registered e \<and>
    (\<forall>x < MTCADUMMY_NR_DEVS. x \<noteq> d \<longrightarrow> regs t x = regs e x \<and> dma t x = dma e x)"

lemma in_section_on_device: "in_section d e t \<Longrightarrow> on_device d t u \<Longrightarrow> in_section d e u"
  by (auto simp: in_section_def on_device_def)

lemma in_section_keeps [simp]:
  "in_section d e (count_call t) = in_section d e t"
  "in_section d e (put_user m t) = in_section d e t"
  by (auto simp: in_section_def)

lemma in_section_refl [simp]: "in_section d e e = ready d e"
  by (auto simp: in_section_def)

lemma call_on_section:
  assumes "idle s" and "in_section d (entered d s) t"
  shows "call_on d s (drop_lock (DevMutex d) t)" and "DevMutex d \<in> held t" and "ready d t"
    and "ControlMutex \<notin> held t" and "devs t = devs s"
  using assms by (auto simp: call_on_def idle_def in_section_def ready_def)

lemma load_bytes_word:
  assumes "ready d s" "devs s = dvs" "bar_words bar (regs s d) (dma s d) = Some ws"
    and "select_bar (dvs ! d) bar = Some (p, n)" and "i < length ws"
  obtains u where "load_bytes p i 4 s = Some (bytes_of (ws ! i), u)" and "on_device d s u"
    and "regs u d = regs s d" and "dma u d = dma s d" and "tick u = tick s"
proof -
  note rd = readyD [OF assms(1)]
  from assms(3) have cases: "(p = systemBar (dvs ! d) \<and> ws = regs s d) \<or>
      (p = dmaBar (dvs ! d) \<and> ws = dma s d)"
    using assms(4) by (auto elim!: bar_words_cases simp: select_bar_def)
  with assms(2) rd have "heap s p = Some ws" by auto
  moreover have "on_device d s (put_block p ws s) \<and> regs (put_block p ws s) d = regs s d \<and>
      dma (put_block p ws s) d = dma s d"
    using cases assms(1,2) rd on_device_put(1) [of d s s "regs s d"] on_device_put(2) [of d s s "dma s d"]
    by (auto simp: put_regs_def [symmetric] put_dma_def [symmetric])
  ultimately show thesis
    using assms(5) that [of "put_block p ws s"] nth_bytes_of_words [OF assms(5)]
    by (simp add: load_bytes_def put_block_def fun_upd_idem)
qed

section \<open>The addresses of the loop\<close>

lemma loop_offset:
  assumes "unat off + 4 * i < 2 ^ 32"
  shows "ucast ((off :: u64) + ucast (of_nat i * 4 :: u32)) = (of_nat (unat off + 4 * i) :: u32)"
    and "(ucast (of_nat i * 4 :: u32) :: u64) = of_nat (4 * i)"
proof -
  have i: "unat (of_nat i * 4 :: u32) = 4 * i"
    using assms by (simp add: unat_word_ariths unat_of_nat)
  have j: "unat (of_nat (4 * i) :: u64) = 4 * i"
    using assms by (simp add: unat_of_nat del: of_nat_mult)
  show c: "(ucast (of_nat i * 4 :: u32) :: u64) = of_nat (4 * i)"
    by (rule unsigned_word_eqI [where ?'a = nat], unfold j)
      (use i assms in \<open>simp add: unsigned_ucast_eq take_bit_eq_mod\<close>)
  have "unat (off + of_nat (4 * i)) = unat off + 4 * i"
    using assms by (simp add: unat_word_ariths j del: of_nat_mult)
  moreover have "unat (of_nat (unat off + 4 * i) :: u32) = unat off + 4 * i"
    using assms by (simp add: unat_of_nat del: of_nat_mult of_nat_add)
  ultimately show "ucast (off + ucast (of_nat i * 4 :: u32)) = (of_nat (unat off + 4 * i) :: u32)"
    unfolding c
    by (intro unsigned_word_eqI [where ?'a = nat])
      (use assms in \<open>simp add: unsigned_ucast_eq take_bit_eq_mod del: of_nat_mult of_nat_add\<close>)
qed

section \<open>The read loop\<close>

definition first_word :: "transfer_information \<Rightarrow> nat" where
  "first_word ti = unat (ti_offset ti) div 4"

definition n_words :: "transfer_information \<Rightarrow> nat" where
  "n_words ti = unat (nBytesToTransfer ti) div 4"

text \<open>The word \<open>i\<close> of the transfer is the register that cannot be read.\<close>

definition broken_word :: "transfer_information \<Rightarrow> nat \<Rightarrow> bool" where
  "broken_word ti i \<longleftrightarrow> ti_bar ti = 0 \<and> first_word ti + i = REG MTCADUMMY_BROKEN_REGISTER"

text \<open>
  What the check has established when a loop starts, in the critical section of \<open>d\<close>
  entered with the state \<open>e\<close>: the transfer stays within the words \<open>ws\<close> of the bar.
\<close>

definition transfer_setup :: "nat \<Rightarrow> sys \<Rightarrow> transfer_information \<Rightarrow> u32 list \<Rightarrow> bool" where
  "transfer_setup d e ti ws \<longleftrightarrow>
    ready d e \<and> bar_words (ti_bar ti) (regs e d) (dma e d) = Some ws \<and>
    select_bar (devs e ! d) (ti_bar ti) = Some (barStart ti, 4 * length ws) \<and>
    length ws \<le> DMA_WORDS \<and>
    (\<exists>count. transfer_ok ti ws count)"

text \<open>The byte address of the word \<open>i\<close> of the transfer within the bar.\<close>

definition word_address :: "transfer_information \<Rightarrow> nat \<Rightarrow> u32" where
  "word_address ti i = of_nat (4 * (first_word ti + i))"

definition byte_offset :: "nat \<Rightarrow> u64" where
  "byte_offset i = of_nat (4 * i)"

lemma transfer_bounds:
  assumes "transfer_setup d e ti ws"
  shows "unat (ti_offset ti) = 4 * first_word ti" and "unat (ti_offset ti div 4) = first_word ti"
    and "first_word ti + n_words ti \<le> length ws" and "unat (nBytesToTransfer ti) = 4 * n_words ti"
    and "length ws \<le> DMA_WORDS"
proof -
  obtain count where t: "4 dvd unat (ti_offset ti)" "unat (ti_offset ti) \<le> 4 * length ws"
      "unat (nBytesToTransfer ti) = min count (4 * length ws - unat (ti_offset ti))" "4 dvd count"
    using assms by (auto simp: transfer_setup_def transfer_ok_def)
  then have "4 dvd unat (nBytesToTransfer ti)" by (simp add: min_def)
  then show "unat (nBytesToTransfer ti) = 4 * n_words ti" by (simp add: n_words_def)
  show "unat (ti_offset ti) = 4 * first_word ti" "unat (ti_offset ti div 4) = first_word ti"
    using t(1) by (simp_all add: first_word_def unat_div)
  show "first_word ti + n_words ti \<le> length ws"
    using t by (auto simp: first_word_def n_words_def)
  show "length ws \<le> DMA_WORDS" using assms by (simp add: transfer_setup_def)
qed

lemma transfer_addresses:
  assumes "transfer_setup d e ti ws" and "i < n_words ti"
  shows "(ucast (of_nat i * 4 :: u32) :: u64) = byte_offset i"
    and "ucast (ti_offset ti + byte_offset i) = word_address ti i"
    and "REG (word_address ti i) = first_word ti + i"
    and "valid_offset (word_address ti i) ws"
    and "first_word ti + i < length ws"
proof -
  note b = transfer_bounds [OF assms(1)]
  have lt: "4 * (first_word ti + i) < 2 ^ 32" "first_word ti + i < length ws"
    using b assms(2) by (simp_all add: size_defs)
  have u: "unat (word_address ti i) = 4 * (first_word ti + i)"
    using lt(1) by (simp add: word_address_def unat_of_nat del: of_nat_mult of_nat_add)
  have o: "unat (ti_offset ti) + 4 * i < 2 ^ 32" using b(1) lt by simp
  show c: "(ucast (of_nat i * 4 :: u32) :: u64) = byte_offset i"
    using loop_offset(2) [OF o] by (simp add: byte_offset_def)
  show "ucast (ti_offset ti + byte_offset i) = word_address ti i"
    using loop_offset(1) [OF o] b(1) unfolding c word_address_def by (simp add: algebra_simps)
  show "REG (word_address ti i) = first_word ti + i"
    using u by (simp add: REG_def unat_div)
  have "unat (word_address ti i mod 4) = 0" using u by (simp add: unat_mod)
  then have "word_address ti i mod 4 = 0" by (rule unat_eq_zero [THEN iffD1])
  then show "valid_offset (word_address ti i) ws"
    using u lt(2) by (simp add: valid_offset_def)
  show "first_word ti + i < length ws" by (rule lt(2))
qed

lemma preRead_broken:
  assumes "transfer_setup d e ti ws" and "i < n_words ti"
  shows "mtcadummy_performPreReadAction (word_address ti i) (ti_bar ti) slot \<noteq> 0
    \<longleftrightarrow> broken_word ti i"
proof -
  have "word_address ti i = MTCADUMMY_BROKEN_REGISTER" if "first_word ti + i = 18"
    unfolding word_address_def that by (simp add: register_defs)
  moreover have "first_word ti + i = 18" if "word_address ti i = MTCADUMMY_BROKEN_REGISTER"
    using transfer_addresses(3) [OF assms] that by simp
  ultimately show ?thesis
    by (auto simp: mtcadummy_performPreReadAction_def broken_word_def)
qed

definition read_progress ::
    "nat \<Rightarrow> sys \<Rightarrow> transfer_information \<Rightarrow> u64 \<Rightarrow> u64 \<Rightarrow> u32 list \<Rightarrow> nat \<Rightarrow> u64 \<Rightarrow> umem \<Rightarrow> bool" where
  "read_progress d e ti buf f0 ws i f m \<longleftrightarrow>
    f = f0 + byte_offset i \<and> list_all (\<lambda>j. \<not> broken_word ti j) [0..<i] \<and>
    outside_kept buf (4 * n_words ti) (umem e) m \<and>
    umem_read m buf (4 * i) = bytes_of_words (take i (drop (first_word ti) ws))"

definition read_inv ::
    "kernel \<Rightarrow> nat \<Rightarrow> sys \<Rightarrow> transfer_information \<Rightarrow> u64 \<Rightarrow> u64 \<Rightarrow> u32 list \<Rightarrow> nat \<Rightarrow> u64 \<times> sys \<Rightarrow> bool"
  where
    "read_inv K d e ti buf f0 ws i st = (case st of (f, t) \<Rightarrow>
      uaccess_ok K \<and> transfer_setup d e ti ws \<and> in_section d e t \<and>
      regs t d = regs e d \<and> dma t d = dma e d \<and> read_progress d e ti buf f0 ws i f (umem t))"

text \<open>An early return of the loop: after \<open>k\<close> words, with the mutex released.\<close>

definition copy_faults :: "kernel \<Rightarrow> bool" where
  "copy_faults K \<longleftrightarrow> (\<exists>t m a bs. snd (k_copy_to_user K t m a bs) \<noteq> 0)"

definition read_exit ::
    "kernel \<Rightarrow> nat \<Rightarrow> sys \<Rightarrow> transfer_information \<Rightarrow> u64 \<Rightarrow> u64 \<Rightarrow> u32 list \<Rightarrow> int \<Rightarrow> u64 \<times> sys \<Rightarrow> bool" where
  "read_exit K d e ti buf f0 ws r st = (case st of (f, t) \<Rightarrow>
    \<exists>u k. t = drop_lock (DevMutex d) u \<and> in_section d e u \<and>
      regs u d = regs e d \<and> dma u d = dma e d \<and> k < n_words ti \<and>
      read_progress d e ti buf f0 ws k f (umem u) \<and>
      (if broken_word ti k then r = - EIO else r = - EFAULT \<and> copy_faults K))"

lemma read_exitI:
  assumes "in_section d e u" "regs u d = regs e d" "dma u d = dma e d" "k < n_words ti"
    and "read_progress d e ti buf f0 ws k f (umem u)"
    and "if broken_word ti k then r = - EIO else r = - EFAULT \<and> copy_faults K"
  shows "read_exit K d e ti buf f0 ws r (f, drop_lock (DevMutex d) u)"
  unfolding read_exit_def prod.case
  by (rule exI [of _ u], rule exI [of _ k]) (use assms in simp)

lemma byte_offset_Suc: "byte_offset (Suc i) = byte_offset i + 4"
  by (simp add: byte_offset_def)

lemma read_progress_fault:
  assumes "read_progress d e ti buf f0 ws i f m" and "i < DMA_WORDS" and "i < n_words ti"
    and "length bs \<le> 4"
  shows "read_progress d e ti buf f0 ws i f (umem_write m (buf + byte_offset i) bs)"
proof -
  have "outside_kept buf (4 * n_words ti) m (umem_write m (buf + byte_offset i) bs)"
    unfolding byte_offset_def using assms(2-4) by (intro outside_kept_write) (simp_all add: size_defs)
  then show ?thesis
    using assms umem_read_write_behind [of "4 * i" bs m buf]
    by (auto simp: read_progress_def byte_offset_def size_defs intro: outside_kept_trans)
qed

lemma read_progress_step:
  assumes "read_progress d e ti buf f0 ws i f m" and "i < DMA_WORDS" and "i < n_words ti"
    and "\<not> broken_word ti i" and "first_word ti + i < length ws"
  shows "read_progress d e ti buf f0 ws (Suc i) (f + 4)
    (umem_write m (buf + byte_offset i) (bytes_of (ws ! (first_word ti + i))))"
proof -
  have "umem_read (umem_write m (buf + byte_offset i) (bytes_of (ws ! (first_word ti + i)))) buf
      (4 * i + 4) = umem_read m buf (4 * i) @ bytes_of (ws ! (first_word ti + i))"
    using umem_read_write_append [of "4 * i" "bytes_of (ws ! (first_word ti + i))" m buf] assms(2)
    by (simp add: byte_offset_def size_defs)
  moreover have "outside_kept buf (4 * n_words ti) m
      (umem_write m (buf + byte_offset i) (bytes_of (ws ! (first_word ti + i))))"
    unfolding byte_offset_def using assms(2,3) by (intro outside_kept_write) (simp_all add: size_defs)
  ultimately show ?thesis
    using assms
    by (auto simp: read_progress_def byte_offset_Suc take_Suc_conv_app_nth add.commute
        intro: outside_kept_trans)
qed

lemma read_iteration:
  assumes "i < n_words ti" and "read_inv K d e ti buf f0 ws i st"
  shows "ensures (read_no_struct_body K d (devs e ! d) ti buf i st)
    (\<lambda>r st'. if r = 0 then read_inv K d e ti buf f0 ws (Suc i) st'
      else read_exit K d e ti buf f0 ws r st')"
proof -
  obtain f t where st: "st = (f, t)" by (cases st)
  have I: "uaccess_ok K" "transfer_setup d e ti ws" "in_section d e t" "regs t d = regs e d"
      "dma t d = dma e d" "read_progress d e ti buf f0 ws i f (umem t)"
    using assms(2) by (auto simp: read_inv_def st)
  note adr = transfer_addresses [OF I(2) assms(1)]
  have t: "ready d t" "devs t = devs e" "DevMutex d \<in> held t"
    using I(3) by (auto simp: in_section_def ready_def)
  show ?thesis
  proof (cases "broken_word ti i")
    case True
    with preRead_broken [OF I(2) assms(1)] I assms(1) t show ?thesis
      by (auto simp: read_no_struct_body_def st adr(1,2) wp read_exit_def)
  next
    case False
    obtain u where u: "load_bytes (barStart ti) (first_word ti + i) 4 t =
        Some (bytes_of (ws ! (first_word ti + i)), u)" "on_device d t u" "regs u d = regs t d"
        "dma u d = dma t d" "tick u = tick t"
      using load_bytes_word [OF t(1,2), of "ti_bar ti" ws "barStart ti" "4 * length ws" "first_word ti + i"]
        I(2,4,5) adr(5) by (auto simp: transfer_setup_def)
    have u': "in_section d e u" "umem u = umem t" "DevMutex d \<in> held u"
      using in_section_on_device [OF I(3) u(2)] u(2) t(3) by (auto simp: on_device_def)
    obtain m x where c: "k_copy_to_user K (tick u) (umem u) (buf + byte_offset i)
        (bytes_of (ws ! (first_word ti + i))) = (m, x)" by fastforce
    from uaccess_to [OF I(1) this] have m: "x \<le> 4" "m = umem_write (umem t) (buf + byte_offset i)
        (take (4 - x) (bytes_of (ws ! (first_word ti + i))))"
      by (simp_all add: u'(2))
    have lim: "i < DMA_WORDS" using assms(1) transfer_bounds(3,5) [OF I(2)] by simp
    note step = read_progress_step [OF I(6) lim assms(1) False adr(5)]
    note fault = read_progress_fault [OF I(6) lim assms(1), of "take (4 - x) (bytes_of (ws ! (first_word ti + i)))"]
    show ?thesis
    proof (cases "x = 0")
      case True
      with step preRead_broken [OF I(2) assms(1)] I t u u' m c False show ?thesis
        by (simp add: read_no_struct_body_def st adr(1,2) wp exec read_inv_def
            transfer_bounds(2) [OF I(2)])
    next
      case x: False
      let ?u = "put_user m u"
      have "copy_faults K" using c x by (metis copy_faults_def snd_conv)
      then have "read_exit K d e ti buf f0 ws (- EFAULT) (f, drop_lock (DevMutex d) ?u)"
        using fault m I assms(1) u(3,4) u' False by (intro read_exitI [where k = i]) simp_all
      with x preRead_broken [OF I(2) assms(1)] I t u u' m c False show ?thesis
        by (simp add: read_no_struct_body_def st adr(1,2) wp exec
            transfer_bounds(2) [OF I(2)])
    qed
  qed
qed

interpretation read_loop: loop_body "read_no_struct_body K d (devs e ! d) ti buf" "n_words ti"
  "read_inv K d e ti buf f0 ws" "read_exit K d e ti buf f0 ws" for K d e ti buf f0 ws
  by unfold_locales (rule read_iteration)

section \<open>read without a structure implements its contract\<close>

text \<open>
  The outcome of the transfer proper: \<open>k\<close> words have reached the user, in order, and the
  file position has moved by as many; user memory outside of the buffer of \<open>n\<close> words is as it
  was; the call returns the number of bytes when all \<open>n\<close>
  words were transferred and the error of the word \<open>k\<close> otherwise.
\<close>

definition read_outcome ::
    "kernel \<Rightarrow> nat \<Rightarrow> transfer_information \<Rightarrow> u64 \<Rightarrow> u64 \<Rightarrow> u32 list \<Rightarrow> umem \<Rightarrow>
      nat \<Rightarrow> int \<Rightarrow> u64 \<Rightarrow> umem \<Rightarrow> bool" where
  "read_outcome K n ti buf f_pos ws m0 k r f m \<longleftrightarrow>
    k \<le> n \<and> f = f_pos + of_nat (4 * k) \<and> outside_kept buf (4 * n) m0 m \<and>
    umem_read m buf (4 * k) = bytes_of_words (take k (drop (first_word ti) ws)) \<and>
    list_all (\<lambda>j. \<not> broken_word ti j) [0..<k] \<and>
    (if k = n then r = int (4 * n) else if broken_word ti k then r = - EIO
     else r = - EFAULT \<and> copy_faults K)"

lemma setup_from_check:
  assumes "checkAndCalculateTransferInformation (devs s ! d) count v = Inr ti"
    and "idle s" and "d < MTCADUMMY_NR_DEVS" and "unat count \<le> MAX_RW_COUNT"
  obtains ws where "transfer_setup d (entered d s) ti ws"
    and "bar_words (ti_bar ti) (regs s d) (dma s d) = Some ws" and "transfer_ok ti ws (unat count)"
proof -
  have r: "ready d (entered d s)" using assms(2,3) by simp
  note rd = readyD [OF r]
  have len: "length (regs s d) = MTCADUMMY_N_REGISTERS" "length (dma s d) = DMA_WORDS"
    using rd(10,11) by simp_all
  from check_accepts [OF assms(1,4) len] obtain ws where
    ws: "bar_words (ti_bar ti) (regs s d) (dma s d) = Some ws"
      "select_bar (devs s ! d) (ti_bar ti) = Some (barStart ti, 4 * length ws)"
      "transfer_ok ti ws (unat count)" by auto
  have "length ws \<le> DMA_WORDS"
    using ws(1) len by (auto simp: bar_words_def size_defs split: if_splits)
  with ws r that [of ws] show thesis by (auto simp: transfer_setup_def)
qed

lemma mtcaDummy_read_no_struct_refines:
  assumes "idle s" and "private_data filp = Some d" and "d < MTCADUMMY_NR_DEVS"
    and "uaccess_ok K" and "unat count \<le> MAX_RW_COUNT"
  shows "ensures (mtcaDummy_read_no_struct K filp buf count f_pos s)
    (\<lambda>(r, f) t. call_on d s t \<and> regs t d = regs s d \<and> dma t d = dma s d \<and>
      (case checkAndCalculateTransferInformation (devs s ! d) count f_pos of
         Inr ti \<Rightarrow>
           (case entry_gate K (read_error (control s)) d (tick s) of
              None \<Rightarrow> \<exists>ws k. bar_words (ti_bar ti) (regs s d) (dma s d) = Some ws \<and>
                read_outcome K (n_words ti) ti buf f_pos ws (umem s) k r f (umem t)
            | Some e \<Rightarrow> r = e \<and> f = f_pos \<and> umem t = umem s)
       | Inl e \<Rightarrow> f = f_pos \<and> umem t = umem s \<and>
           r = (if k_lock K (tick s) ControlMutex \<noteq> 0 then - ERESTARTSYS
                else if read_error (control s) then - EFAULT else e)))"
proof -
  let ?e = "entered d s"
  have r: "ready d ?e" "held ?e = {DevMutex d}" using assms by simp_all
  have da: "dev_at (flag_read s) d = Some (devs s ! d)"
    using assms(1,3) by (simp add: dev_at_def idle_length_devs)
  note defs = mtcaDummy_read_no_struct_def handler_run idleD
  show ?thesis
  proof (cases "checkAndCalculateTransferInformation (devs s ! d) count f_pos")
    case (Inl err)
    with assms r da show ?thesis by (simp add: defs)
  next
    case (Inr ti)
    obtain ws where ws: "transfer_setup d ?e ti ws"
      "bar_words (ti_bar ti) (regs s d) (dma s d) = Some ws"
      using setup_from_check [OF Inr assms(1,3,5)] by metis
    have "read_inv K d ?e ti buf f_pos ws 0 (f_pos, ?e)"
      using assms(4) ws(1) r by (simp add: read_inv_def read_progress_def byte_offset_def umem_read_def)
    from read_loop.loop_total [OF this] obtain x f t where loop:
      "for_loop (read_no_struct_body K d (devs s ! d) ti buf) 0 (n_words ti) (f_pos, ?e) = Some (x, f, t)"
      "if x = 0 then read_inv K d ?e ti buf f_pos ws (n_words ti) (f, t)
        else read_exit K d ?e ti buf f_pos ws x (f, t)"
      by (auto simp: ensures_iff split: if_splits)
    note n = transfer_bounds(4) [OF ws(1)] n_words_def [symmetric]
    show ?thesis
    proof (cases "x = 0")
      case True
      with loop(2) have "in_section d ?e t" "regs t d = regs s d" "dma t d = dma s d"
        "read_outcome K (n_words ti) ti buf f_pos ws (umem s) (n_words ti) (int (4 * n_words ti)) f (umem t)"
        by (auto simp: read_inv_def read_progress_def read_outcome_def byte_offset_def)
      with True Inr assms r da loop(1) ws(2) n call_on_section [OF assms(1), of d t] show ?thesis
        by (auto simp: defs)
    next
      case False
      with loop(2) obtain u k where u: "t = drop_lock (DevMutex d) u" "in_section d ?e u"
        "regs u d = regs s d" "dma u d = dma s d" "k < n_words ti"
        "read_progress d ?e ti buf f_pos ws k f (umem u)"
        "if broken_word ti k then x = - EIO else x = - EFAULT \<and> copy_faults K"
        by (auto simp: read_exit_def split: if_splits)
      then have "read_outcome K (n_words ti) ti buf f_pos ws (umem s) k x f (umem t)"
        by (simp add: read_outcome_def read_progress_def byte_offset_def)
      with False Inr assms r da loop(1) ws(2) n u call_on_section [OF assms(1) u(2)] show ?thesis
        by (auto simp: defs)
    qed
  qed
qed

section \<open>The write loop\<close>

text \<open>A plain store into a bar, without the action of the firmware.\<close>

definition poke :: "u32 \<Rightarrow> nat \<Rightarrow> u32 \<Rightarrow> u32 list \<Rightarrow> u32 list \<Rightarrow> u32 list \<times> u32 list" where
  "poke bar i v rs ds = (if bar = 0 then (rs[i := v], ds) else (rs, ds[i := v]))"

lemma store_word:
  assumes "ready d s" "devs s = dvs" "bar_words bar (regs s d) (dma s d) = Some ws"
    and "select_bar (dvs ! d) bar = Some (p, n)" and "i < length ws"
  obtains u where "store p i v s = Some ((), u)" and "on_device d s u"
    and "(regs u d, dma u d) = poke bar i v (regs s d) (dma s d)"
proof -
  note rd = readyD [OF assms(1)]
  from assms(3) show thesis
  proof (cases rule: bar_words_cases)
    case 1
    then have "p = systemBar (dvs ! d)" using assms(4) by (simp add: select_bar_def)
    with assms rd 1 show ?thesis
      by (intro that [of "put_regs d ((regs s d)[i := v]) s"]) (simp_all add: store_exec poke_def)
  next
    case 2
    then have "p = dmaBar (dvs ! d)" using assms(4) by (simp add: select_bar_def)
    with assms rd 2 show ?thesis
      by (intro that [of "put_dma d ((dma s d)[i := v]) s"]) (simp_all add: store_exec poke_def)
  qed
qed

text \<open>
  Writing a list of words one after the other, from the word \<open>a\<close> of the bar on, each with
  its action; the first write that fails stops the transfer.
\<close>

fun spec_writes ::
    "kernel \<Rightarrow> bool \<Rightarrow> u32 \<Rightarrow> nat \<Rightarrow> u32 list \<Rightarrow> u32 list \<Rightarrow> u32 list \<Rightarrow> int \<times> u32 list \<times> u32 list"
  where
    "spec_writes K spiFail bar a [] rs ds = (0, rs, ds)"
  | "spec_writes K spiFail bar a (v # vs) rs ds =
      (case spec_write K False spiFail bar (of_nat (4 * a)) v rs ds of
         (r, rs', ds') \<Rightarrow>
           if r \<noteq> 0 then (r, rs', ds') else spec_writes K spiFail bar (Suc a) vs rs' ds')"

lemma spec_writes_append:
  "spec_writes K spiFail bar a (us @ vs) rs ds =
    (case spec_writes K spiFail bar a us rs ds of
       (r, rs', ds') \<Rightarrow>
         if r \<noteq> 0 then (r, rs', ds') else spec_writes K spiFail bar (a + length us) vs rs' ds')"
  by (induction us arbitrary: a rs ds) (simp_all split: prod.split)

lemma spec_writes_snoc:
  assumes "spec_writes K spiFail bar a us rs ds = (0, rs', ds')"
    and "spec_write K False spiFail bar (of_nat (4 * (a + length us))) v rs' ds' = (r, rs'', ds'')"
  shows "spec_writes K spiFail bar a (us @ [v]) rs ds = (r, rs'', ds'')"
  using assms by (simp add: spec_writes_append)

definition user_word :: "umem \<Rightarrow> u64 \<Rightarrow> nat \<Rightarrow> u32" where
  "user_word m buf i = le32 (umem_read m (buf + byte_offset i) 4)"

definition user_words :: "umem \<Rightarrow> u64 \<Rightarrow> nat \<Rightarrow> u32 list" where
  "user_words m buf n = map (user_word m buf) [0..<n]"

lemma user_words_simps [simp]:
  "user_words m buf 0 = []" "user_words m buf (Suc i) = user_words m buf i @ [user_word m buf i]"
  "length (user_words m buf n) = n"
  by (simp_all add: user_words_def)

text \<open>The first \<open>i\<close> words have been written, each with success.\<close>

definition write_progress ::
    "kernel \<Rightarrow> nat \<Rightarrow> sys \<Rightarrow> transfer_information \<Rightarrow> u64 \<Rightarrow> u64 \<Rightarrow> nat \<Rightarrow> u64 \<Rightarrow> u32 list \<Rightarrow> u32 list \<Rightarrow> bool"
  where
    "write_progress K d e ti buf f0 i f rs ds \<longleftrightarrow>
      f = f0 + byte_offset i \<and>
      spec_writes K (spi_error (control e)) (ti_bar ti) (first_word ti) (user_words (umem e) buf i)
        (regs e d) (dma e d) = (0, rs, ds)"

text \<open>
  How the word \<open>k\<close> can fail: it cannot be copied from the user, and an arbitrary value
  is in the bar; or its action fails, by itself or because it is interrupted.
\<close>

definition write_failure ::
    "kernel \<Rightarrow> nat \<Rightarrow> sys \<Rightarrow> transfer_information \<Rightarrow> u64 \<Rightarrow> nat \<Rightarrow> u32 list \<Rightarrow> u32 list \<Rightarrow>
      int \<Rightarrow> u32 list \<Rightarrow> u32 list \<Rightarrow> bool"
  where
    "write_failure K d e ti buf k rs ds r rs' ds' \<longleftrightarrow>
      (r = - EFAULT \<and>
        (\<exists>tk. snd (k_copy_from_user K tk (umem e) (buf + byte_offset k) 4) \<noteq> 0) \<and>
        (\<exists>v. (rs', ds') = poke (ti_bar ti) (first_word ti + k) v rs ds)) \<or>
      (r = - EIO \<and>
        (\<exists>intr. (intr \<longrightarrow> (\<exists>tk. k_lock K tk ControlMutex \<noteq> 0)) \<and>
          spec_write K intr (spi_error (control e)) (ti_bar ti) (word_address ti k)
            (user_word (umem e) buf k) rs ds = (- EIO, rs', ds')))"

definition write_inv ::
    "kernel \<Rightarrow> nat \<Rightarrow> sys \<Rightarrow> transfer_information \<Rightarrow> u64 \<Rightarrow> u64 \<Rightarrow> u32 list \<Rightarrow> nat \<Rightarrow> u64 \<times> sys \<Rightarrow> bool"
  where
    "write_inv K d e ti buf f0 ws i st = (case st of (f, t) \<Rightarrow>
      uaccess_ok K \<and> held e = {DevMutex d} \<and> transfer_setup d e ti ws \<and> in_section d e t \<and>
      umem t = umem e \<and> write_progress K d e ti buf f0 i f (regs t d) (dma t d))"

definition write_exit ::
    "kernel \<Rightarrow> nat \<Rightarrow> sys \<Rightarrow> transfer_information \<Rightarrow> u64 \<Rightarrow> u64 \<Rightarrow> int \<Rightarrow> u64 \<times> sys \<Rightarrow> bool" where
  "write_exit K d e ti buf f0 r st = (case st of (f, t) \<Rightarrow>
    \<exists>u k rs ds. t = drop_lock (DevMutex d) u \<and> in_section d e u \<and> umem u = umem e \<and>
      k < n_words ti \<and> write_progress K d e ti buf f0 k f rs ds \<and>
      write_failure K d e ti buf k rs ds r (regs u d) (dma u d))"

lemma spec_write_error:
  "spec_write K intr spiFail bar off v rs ds = (r, rs', ds') \<Longrightarrow>
    bar_words bar rs ds = Some ws \<Longrightarrow> valid_offset off ws \<Longrightarrow> r \<noteq> 0 \<Longrightarrow> r = - EIO"
  by (auto simp: spec_write_def split: if_splits prod.splits)

lemma write_progress_step:
  assumes "write_progress K d e ti buf f0 i f rs ds"
    and "spec_write K False (spi_error (control e)) (ti_bar ti) (word_address ti i)
      (user_word (umem e) buf i) rs ds = (0, rs', ds')"
  shows "write_progress K d e ti buf f0 (Suc i) (f + 4) rs' ds'"
  using assms spec_writes_snoc [of K _ _ _ "user_words (umem e) buf i"]
  by (simp add: write_progress_def byte_offset_Suc word_address_def)

lemma write_exitI:
  assumes "in_section d e u" "umem u = umem e" "k < n_words ti"
    and "write_progress K d e ti buf f0 k f rs ds"
    and "write_failure K d e ti buf k rs ds r (regs u d) (dma u d)"
  shows "write_exit K d e ti buf f0 r (f, drop_lock (DevMutex d) u)"
  using assms unfolding write_exit_def by auto

lemma spec_write_interrupted:
  "bar_words bar rs ds = Some ws \<Longrightarrow> valid_offset off ws \<Longrightarrow>
    spec_write K True spiFail bar off v rs ds = (r, rs', ds') \<Longrightarrow> r = 0 \<Longrightarrow>
    spec_write K False spiFail bar off v rs ds = (0, rs', ds')"
  by (auto simp: spec_write_def split: if_splits)

lemma bar_words_length:
  assumes "bar_words bar rs ds = Some ws" and "length rs' = length rs" and "length ds' = length ds"
  obtains ws' where "bar_words bar rs' ds' = Some ws'" and "length ws' = length ws"
  using assms by (auto simp: bar_words_def split: if_splits)

lemma valid_offset_length: "length ws' = length ws \<Longrightarrow> valid_offset off ws' = valid_offset off ws"
  by (simp add: valid_offset_def)

text \<open>What an iteration finds: the invariant, opened.\<close>

lemma write_invD:
  assumes "write_inv K d e ti buf f0 ws i (f, t)"
  obtains ws' where "bar_words (ti_bar ti) (regs t d) (dma t d) = Some ws'"
    and "length ws' = length ws" and "ready d t" and "ControlMutex \<notin> held t"
    and "devs t = devs e" and "control t = control e" and "DevMutex d \<in> held t"
    and "select_bar (devs e ! d) (ti_bar ti) = Some (barStart ti, 4 * length ws)"
proof -
  from assms have I: "held e = {DevMutex d}" "transfer_setup d e ti ws" "in_section d e t"
    by (simp_all add: write_inv_def)
  have r: "ready d e" "ready d t" using I by (simp_all add: transfer_setup_def in_section_def)
  obtain ws' where "bar_words (ti_bar ti) (regs t d) (dma t d) = Some ws'" "length ws' = length ws"
    by (rule bar_words_length [of "ti_bar ti" "regs e d" "dma e d" ws "regs t d" "dma t d"])
      (use I(2) readyD(10,11) [OF r(1)] readyD(10,11) [OF r(2)] in \<open>simp_all add: transfer_setup_def\<close>)
  with that I r show thesis by (simp add: in_section_def transfer_setup_def)
qed

lemma write_iteration:
  assumes "i < n_words ti" and "write_inv K d e ti buf f0 ws i st"
  shows "ensures (write_no_struct_body K d (devs e ! d) ti buf i st)
    (\<lambda>r st'. if r = 0 then write_inv K d e ti buf f0 ws (Suc i) st'
      else write_exit K d e ti buf f0 r st')"
proof -
  obtain f t where st: "st = (f, t)" by (cases st)
  note I = assms(2) [unfolded st]
  from I have inv: "uaccess_ok K" "held e = {DevMutex d}" "transfer_setup d e ti ws" "in_section d e t"
      "umem t = umem e" "write_progress K d e ti buf f0 i f (regs t d) (dma t d)"
    by (simp_all add: write_inv_def)
  from write_invD [OF I] obtain ws' where ws': "bar_words (ti_bar ti) (regs t d) (dma t d) = Some ws'"
    "length ws' = length ws" and t: "ready d t" "ControlMutex \<notin> held t" "devs t = devs e"
    "control t = control e" "DevMutex d \<in> held t"
    "select_bar (devs e ! d) (ti_bar ti) = Some (barStart ti, 4 * length ws)" .
  note adr = transfer_addresses [OF inv(3) assms(1)]
  note b = transfer_bounds(2) [OF inv(3)]
  have ok: "valid_offset (word_address ti i) ws'" "first_word ti + i < length ws'"
    using adr(4,5) ws'(2) by (simp_all add: valid_offset_length [OF ws'(2)])
  obtain bytes x where c: "k_copy_from_user K (tick t) (umem e) (buf + byte_offset i) 4 = (bytes, x)"
    by fastforce
  let ?t = "count_call t"
  show ?thesis
  proof (cases "x = 0")
    case True
    with uaccess_from [OF inv(1) c] have v: "le32 bytes = user_word (umem e) buf i"
      by (simp add: user_word_def)
    obtain u r w where w: "store (barStart ti) (first_word ti + i) (le32 bytes) ?t = Some ((), u)"
      "mtcadummy_performActionOnWrite K (word_address ti i) (ti_bar ti) (slotNr (devs e ! d)) u = Some (r, w)"
      "on_device d ?t w"
      "spec_write K (k_lock K (Suc (tick t)) ControlMutex \<noteq> 0) (spi_error (control e)) (ti_bar ti)
        (word_address ti i) (le32 bytes) (regs t d) (dma t d) =
        (if r = 0 then 0 else - EIO, regs w d, dma w d)"
      using write_word_run [of d ?t "devs e" "ti_bar ti" ws' "word_address ti i" "barStart ti" "4 * length ws"
          "le32 bytes" K] ws' t ok adr(3) by auto
    have w': "in_section d e w" "umem w = umem e" "DevMutex d \<in> held w"
      using in_section_on_device [of d e ?t w] w(3) inv(4,5) t(5) by (auto simp: on_device_def)
    show ?thesis
    proof (cases "r = 0")
      case r: True
      have "spec_write K False (spi_error (control e)) (ti_bar ti) (word_address ti i)
          (user_word (umem e) buf i) (regs t d) (dma t d) = (0, regs w d, dma w d)"
        using w(4) r v spec_write_interrupted [OF ws'(1) ok(1)]
        by (cases "k_lock K (Suc (tick t)) ControlMutex = 0") auto
      from write_progress_step [OF inv(6) this] r True w w' inv c b adr(1,2) show ?thesis
        by (simp add: write_no_struct_body_def st wp exec write_inv_def)
    next
      case r: False
      with w(4) v have "write_failure K d e ti buf i (regs t d) (dma t d) (- EIO) (regs w d) (dma w d)"
        unfolding write_failure_def by auto
      from write_exitI [OF w'(1,2) assms(1) inv(6) this] r True w w' inv c b adr(1,2) show ?thesis
        by (simp add: write_no_struct_body_def st wp exec)
    qed
  next
    case False
    obtain u where u: "store (barStart ti) (first_word ti + i) (le32 bytes) ?t = Some ((), u)"
      "on_device d ?t u"
      "(regs u d, dma u d) = poke (ti_bar ti) (first_word ti + i) (le32 bytes) (regs t d) (dma t d)"
      using store_word [of d ?t "devs e" "ti_bar ti" ws' "barStart ti" "4 * length ws"
          "first_word ti + i"] ws' t ok(2) by auto
    have u': "in_section d e u" "umem u = umem e" "DevMutex d \<in> held u"
      using in_section_on_device [of d e ?t u] u(2) inv(4,5) t(5) by (auto simp: on_device_def)
    have "write_failure K d e ti buf i (regs t d) (dma t d) (- EFAULT) (regs u d) (dma u d)"
      using u(3) c False unfolding write_failure_def by (metis snd_conv)
    from write_exitI [OF u'(1,2) assms(1) inv(6) this] False u u' inv c b adr(1,2) show ?thesis
      by (simp add: write_no_struct_body_def st wp exec)
  qed
qed

interpretation write_loop: loop_body "write_no_struct_body K d (devs e ! d) ti buf" "n_words ti"
  "write_inv K d e ti buf f0 ws" "write_exit K d e ti buf f0" for K d e ti buf f0 ws
  by unfold_locales (rule write_iteration)

text \<open>
  The outcome of the transfer: \<open>k\<close> words have been written with their actions; all of
  them, or the word \<open>k\<close> has failed.
\<close>

definition write_outcome ::
    "kernel \<Rightarrow> nat \<Rightarrow> sys \<Rightarrow> transfer_information \<Rightarrow> u64 \<Rightarrow> u64 \<Rightarrow> nat \<Rightarrow> int \<Rightarrow> u64 \<Rightarrow>
      u32 list \<Rightarrow> u32 list \<Rightarrow> bool" where
  "write_outcome K d s ti buf f_pos k r f rs' ds' \<longleftrightarrow>
    (\<exists>rs ds. write_progress K d s ti buf f_pos k f rs ds \<and>
      (if k = n_words ti then r = int (4 * n_words ti) \<and> rs' = rs \<and> ds' = ds
       else k < n_words ti \<and> write_failure K d s ti buf k rs ds r rs' ds'))"

lemma write_exitE:
  assumes "write_exit K d e ti buf f0 r (f, t)"
  obtains u k where "t = drop_lock (DevMutex d) u" "in_section d e u" "umem u = umem e"
    "write_outcome K d e ti buf f0 k r f (regs u d) (dma u d)"
proof -
  obtain u k rs ds where u: "t = drop_lock (DevMutex d) u" "in_section d e u" "umem u = umem e"
    "k < n_words ti" "write_progress K d e ti buf f0 k f rs ds"
    "write_failure K d e ti buf k rs ds r (regs u d) (dma u d)"
    using assms unfolding write_exit_def by auto
  then have "write_outcome K d e ti buf f0 k r f (regs u d) (dma u d)"
    unfolding write_outcome_def by auto
  with u(1-3) that show thesis by blast
qed

lemma write_outcome_entered:
  "write_outcome K d (entered d s) ti buf f_pos k r f rs' ds' \<longleftrightarrow>
    write_outcome K d s ti buf f_pos k r f rs' ds'"
  by (simp add: write_outcome_def write_progress_def write_failure_def)

lemma mtcaDummy_write_no_struct_refines:
  assumes "idle s" and "private_data filp = Some d" and "d < MTCADUMMY_NR_DEVS"
    and "uaccess_ok K" and "unat count \<le> MAX_RW_COUNT"
  shows "ensures (mtcaDummy_write_no_struct K filp buf count f_pos s)
    (\<lambda>(r, f) t. call_on d s t \<and> umem t = umem s \<and>
      (case checkAndCalculateTransferInformation (devs s ! d) count f_pos of
         Inr ti \<Rightarrow>
           (case entry_gate K (write_error (control s)) d (tick s) of
              None \<Rightarrow> \<exists>k. write_outcome K d s ti buf f_pos k r f (regs t d) (dma t d)
            | Some e \<Rightarrow> r = e \<and> f = f_pos \<and> regs t d = regs s d \<and> dma t d = dma s d)
       | Inl e \<Rightarrow> f = f_pos \<and> regs t d = regs s d \<and> dma t d = dma s d \<and>
           r = (if k_lock K (tick s) ControlMutex \<noteq> 0 then - ERESTARTSYS
                else if write_error (control s) then - EFAULT else e)))"
proof -
  let ?e = "entered d s"
  have r: "ready d ?e" "held ?e = {DevMutex d}" using assms by simp_all
  have da: "dev_at (flag_read s) d = Some (devs s ! d)"
    using assms(1,3) by (simp add: dev_at_def idle_length_devs)
  note defs = mtcaDummy_write_no_struct_def handler_run idleD
  show ?thesis
  proof (cases "checkAndCalculateTransferInformation (devs s ! d) count f_pos")
    case (Inl err)
    with assms r da show ?thesis by (simp add: defs)
  next
    case (Inr ti)
    obtain ws where ws: "transfer_setup d ?e ti ws"
      using setup_from_check [OF Inr assms(1,3,5)] by metis
    have "write_inv K d ?e ti buf f_pos ws 0 (f_pos, ?e)"
      using assms(4) ws r by (simp add: write_inv_def write_progress_def byte_offset_def)
    from write_loop.loop_total [OF this] obtain x f t where loop:
      "for_loop (write_no_struct_body K d (devs s ! d) ti buf) 0 (n_words ti) (f_pos, ?e) = Some (x, f, t)"
      "if x = 0 then write_inv K d ?e ti buf f_pos ws (n_words ti) (f, t)
        else write_exit K d ?e ti buf f_pos x (f, t)"
      by (auto simp: ensures_iff split: if_splits)
    note n = transfer_bounds(4) [OF ws] n_words_def [symmetric]
    show ?thesis
    proof (cases "x = 0")
      case True
      with loop(2) have w: "in_section d ?e t" "umem t = umem s"
        "write_outcome K d ?e ti buf f_pos (n_words ti) (int (4 * n_words ti)) f (regs t d) (dma t d)"
        by (auto simp: write_inv_def write_outcome_def)
      with True Inr assms r da loop(1) n call_on_section [OF assms(1) w(1)] show ?thesis
        by (auto simp: defs write_outcome_entered)
    next
      case False
      with loop(2) have "write_exit K d ?e ti buf f_pos x (f, t)" by simp
      then obtain u k where u: "t = drop_lock (DevMutex d) u" "in_section d ?e u"
        "umem u = umem ?e" "write_outcome K d ?e ti buf f_pos k x f (regs u d) (dma u d)"
        by (rule write_exitE)
      with False Inr assms r da loop(1) n call_on_section [OF assms(1) u(2)] show ?thesis
        by (auto simp: defs write_outcome_entered)
    qed
  qed
qed

section \<open>Transfers that nothing disturbs\<close>

text \<open>A kernel in which no signal arrives and every user address can be copied.\<close>

definition quiet :: "kernel \<Rightarrow> bool" where
  "quiet K \<longleftrightarrow> uaccess_ok K \<and> (\<forall>t m. k_lock K t m = 0) \<and>
    (\<forall>t m a n. snd (k_copy_from_user K t m a n) = 0) \<and>
    (\<forall>t m a bs. snd (k_copy_to_user K t m a bs) = 0)"

lemma quietD:
  assumes "quiet K"
  shows "uaccess_ok K" "k_lock K t m = 0" "k_copy_from_user K t um a n = (umem_read um a n, 0)"
    "k_copy_to_user K t um a bs = (umem_write um a bs, 0)"
proof -
  show u: "uaccess_ok K" "k_lock K t m = 0" using assms by (simp_all add: quiet_def)
  obtain b x where f: "k_copy_from_user K t um a n = (b, x)" by fastforce
  with assms have "x = 0" by (metis quiet_def snd_conv)
  with f uaccess_from [OF u(1) f] show "k_copy_from_user K t um a n = (umem_read um a n, 0)" by simp
  obtain m' y where g: "k_copy_to_user K t um a bs = (m', y)" by fastforce
  with assms have "y = 0" by (metis quiet_def snd_conv)
  with g uaccess_to [OF u(1) g] show "k_copy_to_user K t um a bs = (umem_write um a bs, 0)" by simp
qed

lemma ref_quiet [simp]: "quiet ref_kernel"
  by (simp add: quiet_def)

lemma user_words_append: "k \<le> n \<Longrightarrow> \<exists>vs. user_words m buf n = user_words m buf k @ vs \<and>
    (k < n \<longrightarrow> vs \<noteq> [] \<and> hd vs = user_word m buf k)"
proof -
  assume "k \<le> n"
  then have "[0..<n] = [0..<k] @ [k..<n]" by (metis le0 le_add_diff_inverse upt_add_eq_append)
  then show ?thesis
    by (intro exI [of _ "map (user_word m buf) [k..<n]"]) (auto simp: user_words_def upt_conv_Cons)
qed

lemma spec_writes_stops:
  assumes "spec_writes K spiFail bar a us rs ds = (0, rs', ds')"
    and "spec_write K False spiFail bar (of_nat (4 * (a + length us))) v rs' ds' = (r, rs'', ds'')"
    and "r \<noteq> 0"
  shows "spec_writes K spiFail bar a (us @ v # vs) rs ds = (r, rs'', ds'')"
  using assms by (simp add: spec_writes_append)

text \<open>The outcome of a write in a quiet kernel is the list of single writes.\<close>

lemma quiet_write_outcome:
  assumes "quiet K" and "write_outcome K d s ti buf f_pos k r f rs' ds'"
  shows "(case spec_writes K (spi_error (control s)) (ti_bar ti) (first_word ti)
        (user_words (umem s) buf (n_words ti)) (regs s d) (dma s d) of
      (e, rs, ds) \<Rightarrow> (if e = 0 then int (4 * n_words ti) else e, rs, ds)) = (r, rs', ds')"
proof -
  obtain rs ds where o: "write_progress K d s ti buf f_pos k f rs ds"
    "if k = n_words ti then r = int (4 * n_words ti) \<and> rs' = rs \<and> ds' = ds
       else k < n_words ti \<and> write_failure K d s ti buf k rs ds r rs' ds'"
    using assms(2) by (auto simp: write_outcome_def)
  show ?thesis
  proof (cases "k = n_words ti")
    case True
    with o show ?thesis by (simp add: write_progress_def)
  next
    case False
    with o(2) have k: "k < n_words ti" and fail: "write_failure K d s ti buf k rs ds r rs' ds'" by simp_all
    from fail quietD [OF assms(1)] have sw: "r = - EIO"
      "spec_write K False (spi_error (control s)) (ti_bar ti) (word_address ti k)
         (user_word (umem s) buf k) rs ds = (- EIO, rs', ds')"
      by (auto simp: write_failure_def)
    obtain v vs where "user_words (umem s) buf (n_words ti) = user_words (umem s) buf k @ v # vs"
      "v = user_word (umem s) buf k"
      using user_words_append [of k "n_words ti" "umem s" buf] k
      by (metis hd_Cons_tl less_imp_le)
    with sw o(1) spec_writes_stops [where us = "user_words (umem s) buf k"] show ?thesis
      by (simp add: write_progress_def word_address_def errno_defs)
  qed
qed

lemma quiet_gate: "quiet K \<Longrightarrow> entry_gate K b d t = (if b then Some (- EFAULT) else None)"
  by (simp add: entry_gate_def quietD)

lemma quiet_read_outcome:
  assumes "quiet K" and "read_outcome K n ti buf f_pos ws m0 k r f m"
  shows "k = n \<and> r = int (4 * n) \<or> k < n \<and> broken_word ti k \<and> r = - EIO"
proof -
  have "\<not> copy_faults K" using assms(1) by (simp add: copy_faults_def quiet_def)
  with assms(2) show ?thesis by (auto simp: read_outcome_def split: if_splits)
qed

lemma umem_read_append: "umem_read m a (j + k) = umem_read m a j @ umem_read m (a + of_nat j) k"
  by (induction k) (simp_all add: umem_read_def add.assoc)

text \<open>The words of a buffer and its bytes.\<close>

lemma bytes_of_user_words: "bytes_of_words (user_words m buf n) = umem_read m buf (4 * n)"
proof (induction n)
  case (Suc n)
  have "umem_read m buf (4 * Suc n) = umem_read m buf (4 * n) @ umem_read m (buf + byte_offset n) 4"
    using umem_read_append [of m buf "4 * n" 4] by (simp add: byte_offset_def add.commute)
  with Suc show ?case by (simp add: user_word_def bytes_of_le32)
qed (simp add: umem_read_def)

text \<open>Writing a list of words into the DMA area replaces a slice of it.\<close>

lemma spec_writes_dma:
  assumes "a + length vs \<le> length ds" and "length ds \<le> DMA_WORDS"
  shows "spec_writes K spiFail 2 a vs rs ds = (0, rs, take a ds @ vs @ drop (a + length vs) ds)"
  using assms
proof (induction vs arbitrary: a ds)
  case (Cons v vs)
  have u: "unat (of_nat (4 * a) :: u32) = 4 * a"
    using Cons.prems by (simp add: unat_of_nat size_defs del: of_nat_mult)
  have "unat (of_nat (4 * a) mod 4 :: u32) = 0" unfolding unat_mod u by simp
  then have m: "of_nat (4 * a) mod 4 = (0 :: u32)" by (rule unat_eq_zero [THEN iffD1])
  have r: "REG (of_nat (4 * a)) = a" using u by (simp add: REG_def unat_div)
  have "spec_write K False spiFail 2 (of_nat (4 * a)) v rs ds = (0, rs, ds[a := v])"
    using Cons.prems m u r by (simp add: spec_write_def bar_words_def valid_offset_def)
  moreover have "take (Suc a) (ds[a := v]) = take a ds @ [v]"
    using Cons.prems by (simp add: take_Suc_conv_app_nth)
  ultimately show ?case
    using Cons.IH [of "Suc a" "ds[a := v]"] Cons.prems by simp
qed simp

text \<open>The file position of a word of a bar.\<close>

definition position :: "u32 \<Rightarrow> u32 \<Rightarrow> u64" where
  "position bar off = push_bit 60 (ucast bar) OR ucast off"

lemma position_fields:
  assumes "bar \<in> {0, 2}"
  shows "position_bar (position bar off) = bar" and "position_offset (position bar off) = ucast off"
proof -
  show "position_offset (position bar off) = ucast off"
    unfolding position_def position_offset_take_bit
    by (rule bit_word_eqI) (auto simp: bit_simps dest: bit_imp_le_length)
  have off: "signed_drop_bit 60 (x OR ucast off) = signed_drop_bit 60 (x :: u64)" for x
    by (rule bit_word_eqI) (auto simp: bit_simps dest: bit_imp_le_length)
  show "position_bar (position bar off) = bar"
    using assms unfolding position_bar_def position_def off by auto
qed

section \<open>Complete transfers\<close>

text \<open>A position and a length for which a transfer on the device \<open>d\<close> covers \<open>n\<close> words from \<open>a\<close> on.\<close>

definition covers :: "sys \<Rightarrow> nat \<Rightarrow> u64 \<Rightarrow> u64 \<Rightarrow> u32 list \<Rightarrow> nat \<Rightarrow> nat \<Rightarrow> bool" where
  "covers s d v count ws a n \<longleftrightarrow>
    v mod 4 = 0 \<and> count mod 4 = 0 \<and> unat count \<le> MAX_RW_COUNT \<and>
    bar_words (position_bar v) (regs s d) (dma s d) = Some ws \<and>
    unat (position_offset v) = 4 * a \<and> a \<le> length ws \<and>
    n = min (unat count div 4) (length ws - a)"

lemma covers_check:
  assumes "covers s d v count ws a n" and "idle s" and "d < MTCADUMMY_NR_DEVS"
  obtains ti where "checkAndCalculateTransferInformation (devs s ! d) count v = Inr ti"
    and "ti_bar ti = position_bar v" and "first_word ti = a" and "n_words ti = n"
proof -
  have wf: "wf_sys s" using assms(2) by (simp add: idle_def live_def)
  note len = wf_length_regs [OF wf assms(3)] wf_length_dma [OF wf assms(3)]
  note c = assms(1) [unfolded covers_def]
  let ?size = "of_nat (4 * length ws) :: u64"
  have bar: "position_bar v = 0 \<and> ws = regs s d \<or> position_bar v = 2 \<and> ws = dma s d"
    using c by (auto elim: bar_words_cases)
  with len have lw: "length ws \<le> DMA_WORDS" by (auto simp: size_defs)
  then have size: "unat ?size = 4 * length ws" by (simp add: unat_of_nat size_defs del: of_nat_mult)
  have in_bar: "\<not> ?size < position_offset v"
    using c size by (simp add: word_less_nat_alt not_less)
  have "\<exists>ti. checkAndCalculateTransferInformation (devs s ! d) count v = Inr ti"
    using c bar in_bar len wf_bar_not_NULL [OF wf assms(3)]
    by (auto simp: check_unfold size_defs)
  then obtain ti where ti: "checkAndCalculateTransferInformation (devs s ! d) count v = Inr ti" by blast
  from check_accepts [OF ti _ len] c obtain ws' where a: "ti_bar ti = position_bar v"
    "ti_offset ti = position_offset v" "bar_words (ti_bar ti) (regs s d) (dma s d) = Some ws'"
    "transfer_ok ti ws' (unat count)" by auto
  with c have "ws' = ws" by simp
  with a(4) have "unat (nBytesToTransfer ti) = min (unat count) (4 * length ws - 4 * a)"
    using c a(2) by (simp add: transfer_ok_def)
  moreover have "unat count mod 4 = 0" using c by (simp add: word_mod4)
  then have "4 dvd unat count" by auto
  ultimately have "n_words ti = n"
    using c by (auto simp: n_words_def min_def elim!: dvdE)
  moreover have "first_word ti = a" using c a(2) by (simp add: first_word_def)
  ultimately show thesis using that ti a(1) by blast
qed

lemma quiet_read:
  assumes "quiet K" and "idle s" and "private_data filp = Some d" and "d < MTCADUMMY_NR_DEVS"
    and "\<not> read_error (control s)" and "covers s d v count ws a n"
    and "position_bar v = 0 \<longrightarrow> \<not> (a \<le> 18 \<and> 18 < a + n)"
  shows "ensures (mtcaDummy_read_no_struct K filp buf count v s)
    (\<lambda>(r, f) t. call_on d s t \<and> regs t d = regs s d \<and> dma t d = dma s d \<and>
      r = int (4 * n) \<and> f = v + of_nat (4 * n) \<and> outside_kept buf (4 * n) (umem s) (umem t) \<and>
      umem_read (umem t) buf (4 * n) = bytes_of_words (take n (drop a ws)))"
proof -
  obtain ti where ti: "checkAndCalculateTransferInformation (devs s ! d) count v = Inr ti"
    "ti_bar ti = position_bar v" "first_word ti = a" "n_words ti = n"
    using covers_check [OF assms(6,2,4)] by blast
  have c: "unat count \<le> MAX_RW_COUNT" "bar_words (position_bar v) (regs s d) (dma s d) = Some ws"
    using assms(6) by (simp_all add: covers_def)
  have nb: "\<not> broken_word ti k" if "k < n" for k
    using that assms(7) ti by (auto simp: broken_word_def)
  have all: "read_outcome K n ti buf v ws m0 k r f m \<Longrightarrow> k = n \<and> r = int (4 * n)" for m0 k r f m
    using quiet_read_outcome [OF assms(1), of n ti buf v ws m0 k r f m] nb by auto
  show ?thesis
  proof (rule ensures_mono [OF mtcaDummy_read_no_struct_refines
        [OF assms(2-4) quietD(1) [OF assms(1)] c(1), of buf v]], goal_cases)
    case (1 x t)
    obtain r f where x: "x = (r, f)" by (cases x)
    from 1 ti c(2) assms(5) obtain k where o: "read_outcome K n ti buf v ws (umem s) k r f (umem t)"
      and keep: "call_on d s t" "regs t d = regs s d" "dma t d = dma s d"
      by (auto simp: x quiet_gate [OF assms(1)])
    from all [OF o] o keep ti(3) show ?case by (simp add: x read_outcome_def)
  qed
qed

lemma quiet_write:
  assumes "quiet K" and "idle s" and "private_data filp = Some d" and "d < MTCADUMMY_NR_DEVS"
    and "\<not> write_error (control s)" and "covers s d v count ws a n"
  shows "ensures (mtcaDummy_write_no_struct K filp buf count v s)
    (\<lambda>(r, f) t. call_on d s t \<and> umem t = umem s \<and>
      (r, regs t d, dma t d) =
        (case spec_writes K (spi_error (control s)) (position_bar v) a (user_words (umem s) buf n)
            (regs s d) (dma s d) of
          (e, rs, ds) \<Rightarrow> (if e = 0 then int (4 * n) else e, rs, ds)))"
proof -
  obtain ti where ti: "checkAndCalculateTransferInformation (devs s ! d) count v = Inr ti"
    "ti_bar ti = position_bar v" "first_word ti = a" "n_words ti = n"
    using covers_check [OF assms(6,2,4)] by blast
  have c: "unat count \<le> MAX_RW_COUNT" using assms(6) by (simp add: covers_def)
  show ?thesis
    by (rule ensures_mono [OF mtcaDummy_write_no_struct_refines [OF assms(2-4) quietD(1) [OF assms(1)] c]])
      (use ti assms(5) in \<open>auto simp: quiet_gate [OF assms(1)] dest!: quiet_write_outcome [OF assms(1)]\<close>)
qed

section \<open>The two interfaces agree\<close>

lemma position_aligned: "off mod 4 = 0 \<Longrightarrow> position bar off mod 4 = 0"
proof -
  assume "off mod 4 = 0"
  then have t: "take_bit 2 off = 0" by (simp add: take_bit_eq_mod)
  have "take_bit 2 (position bar off) = ucast (take_bit 2 off)"
    unfolding position_def by (rule bit_word_eqI) (auto simp: bit_simps)
  with t show ?thesis by (simp add: take_bit_eq_mod)
qed

lemma REG_aligned:
  assumes "off mod 4 = 0"
  shows "4 * REG off = unat off" and "of_nat (4 * REG off) = off"
proof -
  have "unat (off mod 4) = unat off mod 4" by (simp add: unat_mod)
  with assms have "unat off mod 4 = 0" by simp
  then show e: "4 * REG off = unat off" by (auto simp: REG_def unat_div)
  show "of_nat (4 * REG off) = off" unfolding e by simp
qed

lemma covers_word:
  assumes "bar_words bar (regs s d) (dma s d) = Some ws" and "valid_offset off ws"
  shows "covers s d (position bar off) 4 ws (REG off) 1"
proof -
  have bar: "bar \<in> {0, 2}" using assms(1) by (auto elim: bar_words_cases)
  have "unat off < 2 ^ LENGTH(32)" by (rule unsigned_less)
  then have o: "unat (ucast off :: u64) = unat off" by (simp add: unsigned_ucast_eq take_bit_eq_mod)
  have m: "off mod 4 = 0" using assms(2) by (simp add: valid_offset_def)
  have "REG off < length ws" by (rule REG_less [OF assms(2)])
  with position_fields [OF bar, of off] position_aligned [OF m] assms(1) o REG_aligned(1) [OF m]
  show ?thesis by (simp add: covers_def MAX_RW_COUNT_def)
qed

text \<open>A transfer of one word is a single write with its action.\<close>

lemma spec_writes_word:
  assumes "off mod 4 = 0"
  shows "spec_writes K spiFail bar (REG off) [v] rs ds = spec_write K False spiFail bar off v rs ds"
  using REG_aligned(2) [OF assms]
  by (cases "spec_write K False spiFail bar off v rs ds") (simp del: of_nat_mult)

end
