(* ===== verification/Module_Init.thy ===== *)
theory Module_Init
  imports Ioctl No_Struct_Io Proc
begin

text \<open>
  Loading and unloading the module (\<open>mtcaDummy_init_module\<close> and
  \<open>mtcaDummy_cleanup_module\<close>), with the tables of file operations the devices are given.
  What the kernel holds on behalf of the module is a set of resources: registering one
  twice, or giving one back that is not held, has no defined result, and so has freeing
  a block that is not allocated.
\<close>

section \<open>The tables of file operations\<close>

definition mtcaDummyFileOps :: file_operations where
  "mtcaDummyFileOps =
    \<lparr>fop_read = Some Mtca_read, fop_write = Some Mtca_write, fop_ioctl = Some Mtca_ioctl,
     fop_open = Some Mtca_open, fop_release = Some Mtca_release\<rparr>"

definition llrfDummyFileOps :: file_operations where
  "llrfDummyFileOps =
    \<lparr>fop_read = Some Mtca_read, fop_write = Some Mtca_write, fop_ioctl = Some Llrf_ioctl,
     fop_open = Some Mtca_open, fop_release = Some Mtca_release\<rparr>"

text \<open>
  The table with this spelling is initialised, and used nowhere; the table that the device
  5 is given, \<open>noIoctlDummyFileOps\<close>, is declared without an initialiser, and C makes it zero.
\<close>

definition noIocltDummyFileOps :: file_operations where
  "noIocltDummyFileOps =
    \<lparr>fop_read = Some Mtca_read, fop_write = Some Mtca_write, fop_ioctl = None,
     fop_open = Some Mtca_open, fop_release = Some Mtca_release\<rparr>"

definition noIoctlDummyFileOps :: file_operations where
  "noIoctlDummyFileOps =
    \<lparr>fop_read = None, fop_write = None, fop_ioctl = None, fop_open = None, fop_release = None\<rparr>"

definition pcieuniDummyFileOps :: file_operations where
  "pcieuniDummyFileOps =
    \<lparr>fop_read = Some Mtca_read_no_struct, fop_write = Some Mtca_write_no_struct,
     fop_ioctl = Some Pcieuni_ioctl, fop_open = Some Mtca_open, fop_release = Some Mtca_release\<rparr>"

section \<open>Kernel calls\<close>

definition acquire :: "resource \<Rightarrow> sys \<Rightarrow> (unit \<times> sys) option" where
  "acquire r s =
    (if r \<in> registered s then None else Some ((), s\<lparr>registered := insert r (registered s)\<rparr>))"

definition give_back :: "resource \<Rightarrow> sys \<Rightarrow> (unit \<times> sys) option" where
  "give_back r s =
    (if r \<in> registered s then Some ((), s\<lparr>registered := registered s - {r}\<rparr>) else None)"

text \<open>Removing a device node or a proc file that does not exist is no error.\<close>

definition forget :: "resource \<Rightarrow> sys \<Rightarrow> (unit \<times> sys) option" where
  "forget r s = Some ((), s\<lparr>registered := registered s - {r}\<rparr>)"

definition kmalloc :: "kernel \<Rightarrow> nat \<Rightarrow> sys \<Rightarrow> (ptr \<times> sys) option" where
  "kmalloc K n s = (case k_kmalloc K (tick s) (heap s) n of (p, ws) \<Rightarrow>
     Some (p, s\<lparr>tick := Suc (tick s),
                heap := (if p = NULL then heap s else (heap s)(p \<mapsto> ws))\<rparr>))"

definition kfree :: "ptr \<Rightarrow> sys \<Rightarrow> (unit \<times> sys) option" where
  "kfree p s =
    (if p = NULL then Some ((), s)
     else if heap s p = None then None else Some ((), s\<lparr>heap := (heap s)(p := None)\<rparr>))"

text \<open>\<open>memset(p, 0, n)\<close> for a number of bytes that is a multiple of the word size\<close>

definition memset_0 :: "ptr \<Rightarrow> nat \<Rightarrow> sys \<Rightarrow> (unit \<times> sys) option" where
  "memset_0 p n s = (case heap s p of
      None \<Rightarrow> None
    | Some ws \<Rightarrow>
        if n div 4 \<le> length ws
        then Some ((), s\<lparr>heap := (heap s)(p \<mapsto> replicate (n div 4) 0 @ drop (n div 4) ws)\<rparr>)
        else None)"

definition set_dev :: "nat \<Rightarrow> (mtcaDummyData \<Rightarrow> mtcaDummyData) \<Rightarrow> sys \<Rightarrow> (unit \<times> sys) option" where
  "set_dev i f s =
    (if i < length (devs s) then Some ((), s\<lparr>devs := (devs s)[i := f (devs s ! i)]\<rparr>) else None)"

definition alloc_chrdev_region :: "kernel \<Rightarrow> sys \<Rightarrow> (int \<times> sys) option" where
  "alloc_chrdev_region K s =
    (if k_alloc_chrdev_region K = 0
     then do { (_, s) \<leftarrow> acquire ChrdevRegion s; Some (0, s) }
     else Some (k_alloc_chrdev_region K, s))"

definition class_create :: "kernel \<Rightarrow> sys \<Rightarrow> (bool \<times> sys) option" where
  "class_create K s =
    (if k_class_create_ok K then do { (_, s) \<leftarrow> acquire DevClass s; Some (True, s) }
     else Some (False, s))"

definition cdev_add :: "kernel \<Rightarrow> nat \<Rightarrow> sys \<Rightarrow> (int \<times> sys) option" where
  "cdev_add K i s =
    (if k_cdev_add K i = 0 then do { (_, s) \<leftarrow> acquire (Cdev i) s; Some (0, s) }
     else Some (k_cdev_add K i, s))"

definition device_create :: "kernel \<Rightarrow> nat \<Rightarrow> sys \<Rightarrow> (create_result \<times> sys) option" where
  "device_create K i s =
    (if k_device_create K i = Created
     then do { (_, s) \<leftarrow> acquire (DevNode i) s; Some (Created, s) }
     else Some (k_device_create K i, s))"

text \<open>The code ignores the result of \<open>proc_create_data\<close>, and removes the entry in any case.\<close>

definition mtcadummy_create_proc :: "kernel \<Rightarrow> sys \<Rightarrow> (unit \<times> sys) option" where
  "mtcadummy_create_proc K s = (if k_proc_create_ok K then acquire ProcEntry s else Some ((), s))"

definition mtcadummy_remove_proc :: "sys \<Rightarrow> (unit \<times> sys) option" where
  "mtcadummy_remove_proc s = forget ProcEntry s"

section \<open>The error exits\<close>

text \<open>Each label of the C function, with the code that follows it.\<close>

definition err_alloc_chrdev_region :: "sys \<Rightarrow> (int \<times> sys) option" where
  "err_alloc_chrdev_region s = Some (- 1, s)"

definition err_class_create :: "sys \<Rightarrow> (int \<times> sys) option" where
  "err_class_create s = do {
     (_, s) \<leftarrow> give_back ChrdevRegion s;
     err_alloc_chrdev_region s
   }"

definition unroll_body :: "nat \<Rightarrow> sys \<Rightarrow> (int \<times> sys) option" where
  "unroll_body j s = do {
     data \<leftarrow> dev_at s j;
     (_, s) \<leftarrow> forget (DevNode j) s;
     (_, s) \<leftarrow> give_back (Cdev j) s;
     (_, s) \<leftarrow> give_back (MutexInit j) s;
     (_, s) \<leftarrow> kfree (systemBar data) s;
     (_, s) \<leftarrow> kfree (dmaBar data) s;
     Some (0, s)
   }"

definition err_allocate_systemBar :: "nat \<Rightarrow> sys \<Rightarrow> (int \<times> sys) option" where
  "err_allocate_systemBar i s = do {
     (_, s) \<leftarrow> for_loop unroll_body 0 i s;
     (_, s) \<leftarrow> give_back DevClass s;
     err_class_create s
   }"

definition err_allocate_dmaBar :: "nat \<Rightarrow> sys \<Rightarrow> (int \<times> sys) option" where
  "err_allocate_dmaBar i s = do {
     data \<leftarrow> dev_at s i;
     (_, s) \<leftarrow> kfree (systemBar data) s;
     err_allocate_systemBar i s
   }"

definition err_cdev_init :: "nat \<Rightarrow> sys \<Rightarrow> (int \<times> sys) option" where
  "err_cdev_init i s = do {
     data \<leftarrow> dev_at s i;
     (_, s) \<leftarrow> give_back (MutexInit i) s;
     (_, s) \<leftarrow> kfree (dmaBar data) s;
     err_allocate_dmaBar i s
   }"

definition err_device_create :: "nat \<Rightarrow> sys \<Rightarrow> (int \<times> sys) option" where
  "err_device_create i s = do {
     (_, s) \<leftarrow> give_back (Cdev i) s;
     err_cdev_init i s
   }"

section \<open>Loading\<close>

definition file_ops_of :: "nat \<Rightarrow> file_operations" where
  "file_ops_of i =
    (if i = 4 then llrfDummyFileOps
     else if i = 5 then noIoctlDummyFileOps
     else if i = 6 then pcieuniDummyFileOps
     else mtcaDummyFileOps)"

definition mtcaDummyMinorNr :: u32 where "mtcaDummyMinorNr = 0"

definition zero_dev :: mtcaDummyData where
  "zero_dev =
    \<lparr>inUse = 0, cdev_ops = no_ops, slotNr = 0, minor = 0, major = 0, systemBar = NULL, dmaBar = NULL\<rparr>"

text \<open>
  One pass of the loop. A result other than 0 is the value the C function returns: all
  error exits end it. \<open>device_create\<close> reports errors as an error pointer, which is not
  null, so that the check of the code does not see them.
\<close>

definition init_body :: "kernel \<Rightarrow> nat \<Rightarrow> sys \<Rightarrow> (int \<times> sys) option" where
  "init_body K i s = do {
     (p, s) \<leftarrow> kmalloc K (MTCADUMMY_N_REGISTERS * 4) s;
     (_, s) \<leftarrow> set_dev i (\<lambda>d. d\<lparr>systemBar := p\<rparr>) s;
     if p = NULL then err_allocate_systemBar i s else do {
     (_, s) \<leftarrow> memset_0 p (MTCADUMMY_N_REGISTERS * 4) s;
     (q, s) \<leftarrow> kmalloc K MTCADUMMY_DMA_SIZE s;
     (_, s) \<leftarrow> set_dev i (\<lambda>d. d\<lparr>dmaBar := q\<rparr>) s;
     if q = NULL then err_allocate_dmaBar i s else do {
     (_, s) \<leftarrow> memset_0 q MTCADUMMY_DMA_SIZE s;
     (_, s) \<leftarrow> mtcadummy_initialiseSystemBar K p s;
     (_, s) \<leftarrow> acquire (MutexInit i) s;
     (_, s) \<leftarrow> set_dev i (\<lambda>d. d\<lparr>inUse := 0, slotNr := of_nat i,
        minor := mtcaDummyMinorNr + of_nat i, major := k_major K, cdev_ops := file_ops_of i\<rparr>) s;
     (status, s) \<leftarrow> cdev_add K i s;
     if status \<noteq> 0 then err_cdev_init i s else do {
     (created, s) \<leftarrow> device_create K i s;
     if created = CreateNull then err_device_create i s else Some (0, s)
   }}}}"

definition mtcaDummy_init_module :: "kernel \<Rightarrow> sys \<Rightarrow> (int \<times> sys) option" where
  "mtcaDummy_init_module K s = do {
     (status, s) \<leftarrow> alloc_chrdev_region K s;
     if status \<noteq> 0 then err_alloc_chrdev_region s else do {
     (ok, s) \<leftarrow> class_create K s;
     if \<not> ok then err_class_create s else do {
     let s = s\<lparr>devs := replicate MTCADUMMY_NR_DEVS zero_dev\<rparr>;
     (r, s) \<leftarrow> for_loop (init_body K) 0 MTCADUMMY_NR_DEVS s;
     if r \<noteq> 0 then Some (r, s) else do {
     (_, s) \<leftarrow> mtcadummy_create_proc K s;
     Some (0, s)
   }}}}"

section \<open>Unloading\<close>

text \<open>The loop over the devices has the body of the error exit.\<close>

definition mtcaDummy_cleanup_module :: "sys \<Rightarrow> (unit \<times> sys) option" where
  "mtcaDummy_cleanup_module s = do {
     (_, s) \<leftarrow> mtcadummy_remove_proc s;
     (_, s) \<leftarrow> for_loop unroll_body 0 MTCADUMMY_NR_DEVS s;
     (_, s) \<leftarrow> give_back DevClass s;
     (_, s) \<leftarrow> give_back ChrdevRegion s;
     Some ((), s)
   }"

section \<open>What the module holds while it is being loaded\<close>

text \<open>
  The devices \<open>j\<close> up to \<open>i\<close> are set up: their resources are registered, and their bars
  are allocated on top of the heap \<open>h0\<close> that the module found. A device node that the kernel
  refuses with an error pointer is not among the resources: the code tests the result of
  \<open>device_create\<close> for the null pointer only, and goes on without the node.
\<close>

definition resources :: "kernel \<Rightarrow> nat \<Rightarrow> nat \<Rightarrow> resource set" where
  "resources K j i =
    {ChrdevRegion, DevClass} \<union> (\<Union>x \<in> {j..<i}. {MutexInit x, Cdev x}) \<union>
    DevNode ` {x \<in> {j..<i}. k_device_create K x = Created}"

text \<open>
  The resources of the module after loading: those of all devices, and the proc entry if the
  kernel made it.
\<close>

definition module_resources :: "kernel \<Rightarrow> resource set" where
  "module_resources K =
    resources K 0 MTCADUMMY_NR_DEVS \<union> (if k_proc_create_ok K then {ProcEntry} else {})"

definition blocks :: "nat \<Rightarrow> nat \<Rightarrow> sys \<Rightarrow> ptr set" where
  "blocks j i s = set (bar_blocks (drop j (take i (devs s))))"

definition holds :: "heap \<Rightarrow> kernel \<Rightarrow> nat \<Rightarrow> nat \<Rightarrow> sys \<Rightarrow> bool" where
  "holds h0 K j i s \<longleftrightarrow>
    i \<le> length (devs s) \<and> distinct (bar_blocks (take i (devs s))) \<and>
    NULL \<notin> set (bar_blocks (take i (devs s))) \<and>
    heap s |` (- blocks j i s) = h0 \<and> blocks j i s \<subseteq> dom (heap s) \<and>
    registered s = resources K j i"

text \<open>The parts of the state that loading and unloading leave alone.\<close>

definition same_outside :: "sys \<Rightarrow> sys \<Rightarrow> bool" where
  "same_outside s t \<longleftrightarrow> held t = held s \<and> control t = control s \<and> umem t = umem s"

lemma same_outside_trans: "same_outside s t \<Longrightarrow> same_outside t u \<Longrightarrow> same_outside s u"
  by (simp add: same_outside_def)

lemma resources_step:
  assumes "j < i"
  shows "MutexInit j \<in> resources K j i" "Cdev j \<in> resources K j i"
    "resources K j i - {DevNode j} - {Cdev j} - {MutexInit j} = resources K (Suc j) i"
proof -
  have "{j..<i} = insert j {Suc j..<i}" using assms by auto
  then show "MutexInit j \<in> resources K j i" "Cdev j \<in> resources K j i"
    "resources K j i - {DevNode j} - {Cdev j} - {MutexInit j} = resources K (Suc j) i"
    by (auto simp: resources_def)
qed

lemma resources_extend:
  "resources K 0 (Suc i) = resources K 0 i \<union> {MutexInit i, Cdev i} \<union>
    (if k_device_create K i = Created then {DevNode i} else {})"
  by (auto simp: resources_def less_Suc_eq)

lemma resources_fresh [simp]:
  "MutexInit i \<notin> resources K 0 i" "Cdev i \<notin> resources K 0 i" "DevNode i \<notin> resources K 0 i"
  "ProcEntry \<notin> resources K j i"
  by (auto simp: resources_def)

lemma module_resources_minus [simp]:
  "module_resources K - {ProcEntry} = resources K 0 MTCADUMMY_NR_DEVS"
  by (simp add: module_resources_def)

lemma create_proc_run:
  assumes "ProcEntry \<notin> registered s"
  shows "mtcadummy_create_proc K s =
    Some ((), s\<lparr>registered := registered s \<union> (if k_proc_create_ok K then {ProcEntry} else {})\<rparr>)"
  using assms by (simp add: mtcadummy_create_proc_def acquire_def)

lemma blocks_step:
  assumes "j < i" and "i \<le> length (devs s)" and "distinct (bar_blocks (take i (devs s)))"
  shows "blocks j i s = {systemBar (devs s ! j), dmaBar (devs s ! j)} \<union> blocks (Suc j) i s"
    and "systemBar (devs s ! j) \<notin> blocks (Suc j) i s" and "dmaBar (devs s ! j) \<notin> blocks (Suc j) i s"
    and "systemBar (devs s ! j) \<noteq> dmaBar (devs s ! j)"
    and "{systemBar (devs s ! j), dmaBar (devs s ! j)} \<subseteq> set (bar_blocks (take i (devs s)))"
proof -
  let ?xs = "take i (devs s)"
  have d: "drop j ?xs = devs s ! j # drop (Suc j) ?xs"
    using assms(1,2) by (simp add: Cons_nth_drop_Suc [symmetric])
  then show "blocks j i s = {systemBar (devs s ! j), dmaBar (devs s ! j)} \<union> blocks (Suc j) i s"
    by (auto simp: blocks_def bar_blocks_def)
  have "?xs = take j ?xs @ devs s ! j # drop (Suc j) ?xs" by (metis append_take_drop_id d)
  then have e: "bar_blocks ?xs = bar_blocks (take j ?xs @ devs s ! j # drop (Suc j) ?xs)" by simp
  from assms(3) show "systemBar (devs s ! j) \<notin> blocks (Suc j) i s"
    "dmaBar (devs s ! j) \<notin> blocks (Suc j) i s" "systemBar (devs s ! j) \<noteq> dmaBar (devs s ! j)"
    unfolding e blocks_def by (auto simp: bar_blocks_def)
  show "{systemBar (devs s ! j), dmaBar (devs s ! j)} \<subseteq> set (bar_blocks ?xs)"
    unfolding e by (auto simp: bar_blocks_def)
qed

lemma kfree_exec [exec]:
  "p \<noteq> NULL \<Longrightarrow> heap s p \<noteq> None \<Longrightarrow> kfree p s = Some ((), s\<lparr>heap := (heap s)(p := None)\<rparr>)"
  by (simp add: kfree_def)

lemma restrict_free: "p \<in> A \<Longrightarrow> (h(p := None)) |` (- (A - {p})) = h |` (- A)"
  by (auto simp: restrict_map_def fun_eq_iff)

lemma unroll_step:
  assumes "j < i" and "holds h0 K j i s"
  shows "ensures (unroll_body j s) (\<lambda>r t. r = 0 \<and> holds h0 K (Suc j) i t \<and> same_outside s t)"
proof -
  let ?p = "systemBar (devs s ! j)" and ?q = "dmaBar (devs s ! j)"
  from assms(2) have h: "i \<le> length (devs s)" "distinct (bar_blocks (take i (devs s)))"
    "NULL \<notin> set (bar_blocks (take i (devs s)))" "heap s |` (- blocks j i s) = h0"
    "blocks j i s \<subseteq> dom (heap s)" "registered s = resources K j i"
    by (simp_all add: holds_def)
  note b = blocks_step [OF assms(1) h(1,2)]
  have p: "?p \<noteq> NULL" "?q \<noteq> NULL" "heap s ?p \<noteq> None" "heap s ?q \<noteq> None"
    using b h(3,5) by (auto simp: domIff)
  let ?t = "s\<lparr>heap := (heap s)(?p := None, ?q := None), registered := resources K (Suc j) i\<rparr>"
  have "unroll_body j s = Some (0, ?t)"
    using p assms(1) h(1,6) b(4) resources_step [OF assms(1)]
    by (simp add: unroll_body_def dev_at_def forget_def give_back_def exec)
  moreover have "blocks j i s - {?p} - {?q} = blocks (Suc j) i s" using b by auto
  then have "(heap s)(?p := None, ?q := None) |` (- blocks (Suc j) i s) = h0"
    using restrict_free [of ?q "blocks j i s - {?p}" "(heap s)(?p := None)"]
      restrict_free [of ?p "blocks j i s" "heap s"] b h(4) by auto
  then have "holds h0 K (Suc j) i ?t"
    using h b by (auto simp: holds_def blocks_def)
  ultimately show ?thesis by (simp add: same_outside_def)
qed

interpretation unroll: loop_body unroll_body i "\<lambda>j t. holds h0 K j i t \<and> same_outside s t"
  "\<lambda>_ _. False" for i h0 K s
proof
  fix j t assume *: "j < i" "holds h0 K j i t \<and> same_outside s t"
  then have "ensures (unroll_body j t) (\<lambda>r u. r = 0 \<and> holds h0 K (Suc j) i u \<and> same_outside t u)"
    using unroll_step by blast
  then show "ensures (unroll_body j t)
    (\<lambda>r u. if r = 0 then holds h0 K (Suc j) i u \<and> same_outside s u else False)"
    by (rule ensures_mono) (use * same_outside_trans in auto)
qed

lemma holds_all: "holds h0 K i i s \<Longrightarrow> heap s = h0 \<and> registered s = {ChrdevRegion, DevClass}"
  by (auto simp: holds_def blocks_def bar_blocks_def resources_def restrict_map_def)

lemma unroll_all:
  assumes "holds h0 K 0 i s"
  shows "ensures (for_loop unroll_body 0 i s) (\<lambda>r t. r = 0 \<and> heap t = h0 \<and>
    registered t = {ChrdevRegion, DevClass} \<and> same_outside s t)"
proof -
  have "holds h0 K 0 i s \<and> same_outside s s" using assms by (simp add: same_outside_def)
  from unroll.loop_total [OF this] show ?thesis
    by (rule ensures_mono) (auto dest: holds_all split: if_splits)
qed

section \<open>The error exits give everything back\<close>

definition undone :: "heap \<Rightarrow> sys \<Rightarrow> int \<Rightarrow> sys \<Rightarrow> bool" where
  "undone h0 s r t \<longleftrightarrow> r = - 1 \<and> heap t = h0 \<and> registered t = {} \<and> same_outside s t"

lemma undone_update [simp]:
  "undone h0 (s\<lparr>heap := h\<rparr>) = undone h0 s" "undone h0 (s\<lparr>registered := R\<rparr>) = undone h0 s"
  by (simp_all add: undone_def same_outside_def fun_eq_iff)

lemma undone_before: "undone h0 s r t \<Longrightarrow> same_outside e s \<Longrightarrow> undone h0 e r t"
  by (simp add: undone_def same_outside_def)

lemma err_allocate_systemBar_ok:
  assumes "holds h0 K 0 i s"
  shows "ensures (err_allocate_systemBar i s) (undone h0 s)"
proof -
  from unroll_all [OF assms] obtain t where t: "for_loop unroll_body 0 i s = Some (0, t)"
    "heap t = h0" "registered t = {ChrdevRegion, DevClass}" "same_outside s t"
    by (auto simp: ensures_iff)
  then show ?thesis
    by (auto simp: err_allocate_systemBar_def err_class_create_def err_alloc_chrdev_region_def
        give_back_def undone_def same_outside_def)
qed

lemma err_allocate_dmaBar_ok:
  assumes "i < length (devs s)" and "systemBar (devs s ! i) \<noteq> NULL"
    and "heap s (systemBar (devs s ! i)) \<noteq> None"
    and "holds h0 K 0 i (s\<lparr>heap := (heap s)(systemBar (devs s ! i) := None)\<rparr>)"
  shows "ensures (err_allocate_dmaBar i s) (undone h0 s)"
proof -
  let ?t = "s\<lparr>heap := (heap s)(systemBar (devs s ! i) := None)\<rparr>"
  have "err_allocate_dmaBar i s = err_allocate_systemBar i ?t"
    using assms(1-3) by (simp add: err_allocate_dmaBar_def dev_at_def exec)
  with err_allocate_systemBar_ok [OF assms(4)] show ?thesis by simp
qed

lemma err_cdev_init_ok:
  assumes "i < length (devs s)" and "MutexInit i \<in> registered s"
    and "systemBar (devs s ! i) \<noteq> NULL" and "dmaBar (devs s ! i) \<noteq> NULL"
    and "systemBar (devs s ! i) \<noteq> dmaBar (devs s ! i)"
    and "heap s (systemBar (devs s ! i)) \<noteq> None" and "heap s (dmaBar (devs s ! i)) \<noteq> None"
    and "holds h0 K 0 i (s\<lparr>registered := registered s - {MutexInit i},
      heap := (heap s)(dmaBar (devs s ! i) := None, systemBar (devs s ! i) := None)\<rparr>)"
  shows "ensures (err_cdev_init i s) (undone h0 s)"
proof -
  let ?t = "s\<lparr>registered := registered s - {MutexInit i}, heap := (heap s)(dmaBar (devs s ! i) := None)\<rparr>"
  have "err_cdev_init i s = err_allocate_dmaBar i ?t"
    using assms(1-7) by (simp add: err_cdev_init_def dev_at_def give_back_def exec)
  moreover have "ensures (err_allocate_dmaBar i ?t) (undone h0 ?t)"
    using assms by (intro err_allocate_dmaBar_ok [where K = K]) simp_all
  ultimately show ?thesis by simp
qed

lemma err_device_create_ok:
  assumes "i < length (devs s)" and "MutexInit i \<in> registered s" and "Cdev i \<in> registered s"
    and "systemBar (devs s ! i) \<noteq> NULL" and "dmaBar (devs s ! i) \<noteq> NULL"
    and "systemBar (devs s ! i) \<noteq> dmaBar (devs s ! i)"
    and "heap s (systemBar (devs s ! i)) \<noteq> None" and "heap s (dmaBar (devs s ! i)) \<noteq> None"
    and "holds h0 K 0 i (s\<lparr>registered := registered s - {Cdev i} - {MutexInit i},
      heap := (heap s)(dmaBar (devs s ! i) := None, systemBar (devs s ! i) := None)\<rparr>)"
  shows "ensures (err_device_create i s) (undone h0 s)"
proof -
  let ?t = "s\<lparr>registered := registered s - {Cdev i}\<rparr>"
  have "err_device_create i s = err_cdev_init i ?t"
    using assms(3) by (simp add: err_device_create_def give_back_def)
  moreover have "ensures (err_cdev_init i ?t) (undone h0 ?t)"
    using assms by (intro err_cdev_init_ok [where K = K]) simp_all
  ultimately show ?thesis by simp
qed

section \<open>One device is set up\<close>

text \<open>The device \<open>j\<close> as the loop leaves it.\<close>

definition fresh_dev :: "kernel \<Rightarrow> nat \<Rightarrow> ptr \<Rightarrow> ptr \<Rightarrow> mtcaDummyData" where
  "fresh_dev K j p q =
    \<lparr>inUse = 0, cdev_ops = file_ops_of j, slotNr = of_nat j, minor = of_nat j, major = k_major K,
     systemBar = p, dmaBar = q\<rparr>"

definition set_up :: "kernel \<Rightarrow> sys \<Rightarrow> nat \<Rightarrow> bool" where
  "set_up K s j \<longleftrightarrow>
    devs s ! j = fresh_dev K j (systemBar (devs s ! j)) (dmaBar (devs s ! j)) \<and>
    heap s (systemBar (devs s ! j)) = Some (initial_regs K) \<and>
    heap s (dmaBar (devs s ! j)) = Some (replicate DMA_WORDS 0)"

text \<open>The kernel has refused nothing that the code checks for the devices before \<open>i\<close>.\<close>

definition granted :: "kernel \<Rightarrow> nat \<Rightarrow> bool" where
  "granted K i \<longleftrightarrow> (\<forall>j < i. k_cdev_add K j = 0 \<and> k_device_create K j \<noteq> CreateNull)"

definition loading :: "heap \<Rightarrow> kernel \<Rightarrow> sys \<Rightarrow> nat \<Rightarrow> sys \<Rightarrow> bool" where
  "loading h0 K e i s \<longleftrightarrow>
    kmalloc_ok K \<and> holds h0 K 0 i s \<and> (\<forall>j < i. set_up K s j) \<and> same_outside e s \<and>
    length (devs s) = MTCADUMMY_NR_DEVS \<and>
    (\<forall>j. i \<le> j \<and> j < MTCADUMMY_NR_DEVS \<longrightarrow> devs s ! j = zero_dev) \<and> granted K i"

lemma kmalloc_cases:
  assumes "kmalloc_ok K"
  obtains "kmalloc K n s = Some (NULL, count_call s)"
  | p ws where "p \<noteq> NULL" "heap s p = None" "length ws = n div 4"
      "kmalloc K n s = Some (p, (count_call s)\<lparr>heap := (heap s)(p \<mapsto> ws)\<rparr>)"
proof -
  obtain p ws where k: "k_kmalloc K (tick s) (heap s) n = (p, ws)" by fastforce
  show thesis
  proof (cases "p = NULL")
    case True
    with k show ?thesis by (intro that(1)) (simp add: kmalloc_def count_call_def)
  next
    case False
    moreover have "heap s p = None" "length ws = n div 4"
      using assms k False unfolding kmalloc_ok_def
      by (metis (mono_tags, lifting) case_prod_conv)+
    ultimately show ?thesis
      using k by (intro that(2) [of p ws]) (simp_all add: kmalloc_def count_call_def)
  qed
qed

text \<open>The state in which the device \<open>i\<close> has its bars, before it is made available.\<close>

definition equipped :: "kernel \<Rightarrow> nat \<Rightarrow> ptr \<Rightarrow> ptr \<Rightarrow> sys \<Rightarrow> sys \<Rightarrow> bool" where
  "equipped K i p q s t \<longleftrightarrow>
    devs t = (devs s)[i := fresh_dev K i p q] \<and>
    heap t = (heap s)(p \<mapsto> initial_regs K, q \<mapsto> replicate DMA_WORDS 0) \<and>
    registered t = insert (MutexInit i) (registered s) \<and> same_outside s t"

lemma holds_depends:
  assumes "holds h0 K j i s" and "take i (devs t) = take i (devs s)" and "heap t = heap s"
    and "registered t = registered s" and "length (devs t) = length (devs s)"
  shows "holds h0 K j i t"
  using assms by (simp add: holds_def blocks_def)

lemma bar_blocks_snoc:
  assumes "i < length ds"
  shows "set (bar_blocks (take (Suc i) (ds[i := d]))) =
      {systemBar d, dmaBar d} \<union> set (bar_blocks (take i ds))"
    and "distinct (bar_blocks (take (Suc i) (ds[i := d]))) \<longleftrightarrow>
      distinct (bar_blocks (take i ds)) \<and> systemBar d \<noteq> dmaBar d \<and>
      systemBar d \<notin> set (bar_blocks (take i ds)) \<and> dmaBar d \<notin> set (bar_blocks (take i ds))"
proof -
  have "take (Suc i) (ds[i := d]) = take i ds @ [d]"
    using assms by (simp add: take_Suc_conv_app_nth)
  then show "set (bar_blocks (take (Suc i) (ds[i := d]))) =
      {systemBar d, dmaBar d} \<union> set (bar_blocks (take i ds))"
    and "distinct (bar_blocks (take (Suc i) (ds[i := d]))) \<longleftrightarrow>
      distinct (bar_blocks (take i ds)) \<and> systemBar d \<noteq> dmaBar d \<and>
      systemBar d \<notin> set (bar_blocks (take i ds)) \<and> dmaBar d \<notin> set (bar_blocks (take i ds))"
    by (auto simp: bar_blocks_def)
qed

text \<open>The two halves of a pass: the bars, and the registration with the kernel.\<close>

definition publish :: "kernel \<Rightarrow> nat \<Rightarrow> sys \<Rightarrow> (int \<times> sys) option" where
  "publish K i s = do {
     (status, s) \<leftarrow> cdev_add K i s;
     if status \<noteq> 0 then err_cdev_init i s else do {
     (created, s) \<leftarrow> device_create K i s;
     if created = CreateNull then err_device_create i s else Some (0, s)
   }}"

definition with_dma_bar :: "kernel \<Rightarrow> nat \<Rightarrow> ptr \<Rightarrow> sys \<Rightarrow> (int \<times> sys) option" where
  "with_dma_bar K i p s = do {
     (q, s) \<leftarrow> kmalloc K MTCADUMMY_DMA_SIZE s;
     (_, s) \<leftarrow> set_dev i (\<lambda>d. d\<lparr>dmaBar := q\<rparr>) s;
     if q = NULL then err_allocate_dmaBar i s else do {
     (_, s) \<leftarrow> memset_0 q MTCADUMMY_DMA_SIZE s;
     (_, s) \<leftarrow> mtcadummy_initialiseSystemBar K p s;
     (_, s) \<leftarrow> acquire (MutexInit i) s;
     (_, s) \<leftarrow> set_dev i (\<lambda>d. d\<lparr>inUse := 0, slotNr := of_nat i,
        minor := mtcaDummyMinorNr + of_nat i, major := k_major K, cdev_ops := file_ops_of i\<rparr>) s;
     publish K i s
   }}"

lemma init_body_halves:
  "init_body K i s = do {
     (p, s) \<leftarrow> kmalloc K (MTCADUMMY_N_REGISTERS * 4) s;
     (_, s) \<leftarrow> set_dev i (\<lambda>d. d\<lparr>systemBar := p\<rparr>) s;
     if p = NULL then err_allocate_systemBar i s else do {
     (_, s) \<leftarrow> memset_0 p (MTCADUMMY_N_REGISTERS * 4) s;
     with_dma_bar K i p s
   }}"
  unfolding init_body_def with_dma_bar_def publish_def by (rule refl)

lemma loadingD:
  assumes "loading h0 K e i s"
  shows "kmalloc_ok K" "holds h0 K 0 i s" "\<forall>j < i. set_up K s j" "same_outside e s"
    "length (devs s) = MTCADUMMY_NR_DEVS" "i < MTCADUMMY_NR_DEVS \<Longrightarrow> devs s ! i = zero_dev"
    "registered s = resources K 0 i" "granted K i"
  using assms by (auto simp: loading_def holds_def)

lemma restrict_restrict_free: "h p = None \<Longrightarrow> (h(p \<mapsto> x))(p := None) = h"
  by (simp add: fun_upd_idem)

text \<open>A device that has its bars and is registered extends the devices that are set up.\<close>

lemma equipped_holds:
  assumes "loading h0 K e i s" and "i < MTCADUMMY_NR_DEVS" and "equipped K i p q s t"
    and "heap s p = None" "heap s q = None" "p \<noteq> q" "p \<noteq> NULL" "q \<noteq> NULL"
    and "devs u = devs t" "heap u = heap t" "registered u = resources K 0 (Suc i)" "same_outside t u"
    and "k_cdev_add K i = 0" and "k_device_create K i \<noteq> CreateNull"
  shows "loading h0 K e (Suc i) u"
proof -
  note l = loadingD [OF assms(1)]
  have s: "distinct (bar_blocks (take i (devs s)))" "NULL \<notin> set (bar_blocks (take i (devs s)))"
    "heap s |` (- set (bar_blocks (take i (devs s)))) = h0"
    "set (bar_blocks (take i (devs s))) \<subseteq> dom (heap s)"
    using l(2) by (simp_all add: holds_def blocks_def)
  let ?d = "fresh_dev K i p q"
  have t: "devs u = (devs s)[i := ?d]"
    "heap u = (heap s)(p \<mapsto> initial_regs K, q \<mapsto> replicate DMA_WORDS 0)" "same_outside s u"
    using assms(3,9,10,12) same_outside_trans by (auto simp: equipped_def)
  have d: "systemBar ?d = p" "dmaBar ?d = q" by (simp_all add: fresh_dev_def)
  have fresh: "p \<notin> set (bar_blocks (take i (devs s)))" "q \<notin> set (bar_blocks (take i (devs s)))"
    using s(4) assms(4,5) by (auto simp: domIff)
  note b = bar_blocks_snoc [of i "devs s" ?d, unfolded d]
  have "heap u |` (- ({p, q} \<union> set (bar_blocks (take i (devs s))))) = h0"
    using assms(4,5) unfolding t(2) s(3) [symmetric] by (auto simp: restrict_map_def fun_eq_iff)
  then have "holds h0 K 0 (Suc i) u"
    using s l(5) assms(2,6-8,11) fresh b t by (auto simp: holds_def blocks_def)
  moreover have "set_up K u j" if "j < Suc i" for j
  proof (cases "j = i")
    case True
    with t l(5) assms(2,6) show ?thesis by (auto simp: set_up_def fresh_dev_def)
  next
    case False
    with that have j: "j < i" by simp
    then have "devs s ! j \<in> set (take i (devs s))"
      using l(5) assms(2) by (auto simp: in_set_conv_nth intro!: exI [of _ j])
    then have "systemBar (devs s ! j) \<in> set (bar_blocks (take i (devs s)))"
      "dmaBar (devs s ! j) \<in> set (bar_blocks (take i (devs s)))"
      by (auto simp: bar_blocks_def)
    with fresh have "systemBar (devs s ! j) \<noteq> p" "systemBar (devs s ! j) \<noteq> q"
      "dmaBar (devs s ! j) \<noteq> p" "dmaBar (devs s ! j) \<noteq> q" by auto
    with l(3) j t show ?thesis by (auto simp: set_up_def)
  qed
  moreover have "same_outside e u" using l(4) t(3) same_outside_trans by blast
  moreover have "\<forall>j. Suc i \<le> j \<and> j < MTCADUMMY_NR_DEVS \<longrightarrow> devs u ! j = zero_dev"
    using assms(1) t(1) by (auto simp: loading_def)
  moreover have "granted K (Suc i)"
    using l(8) assms(13,14) by (auto simp: granted_def less_Suc_eq)
  ultimately show ?thesis using l(1,5) t(1) by (simp add: loading_def)
qed

lemma publish_ok:
  assumes "loading h0 K e i s" and "i < MTCADUMMY_NR_DEVS" and "equipped K i p q s t"
    and "heap s p = None" "heap s q = None" "p \<noteq> q" "p \<noteq> NULL" "q \<noteq> NULL"
  shows "ensures (publish K i t) (\<lambda>r u. if r = 0 then loading h0 K e (Suc i) u else undone h0 e r u)"
proof -
  note l = loadingD [OF assms(1)]
  have t: "devs t = (devs s)[i := fresh_dev K i p q]"
    "heap t = (heap s)(p \<mapsto> initial_regs K, q \<mapsto> replicate DMA_WORDS 0)"
    "registered t = insert (MutexInit i) (resources K 0 i)" "same_outside s t"
    using assms(3) l(7) by (auto simp: equipped_def)
  have d: "i < length (devs t)" "systemBar (devs t ! i) = p" "dmaBar (devs t ! i) = q"
    using t(1) l(5) assms(2) by (simp_all add: fresh_dev_def)
  have heap: "(heap t)(q := None, p := None) = heap s"
    using t(2) assms(4-6) by (auto simp: fun_eq_iff)
  have out: "same_outside e t" using l(4) t(4) same_outside_trans by blast
  have e1: "ensures (err_cdev_init i t) (undone h0 t)"
    using d t assms(6-8) l(2,5,7) assms(2) heap
    by (intro err_cdev_init_ok [where K = K]) (auto intro: holds_depends [OF l(2)])
  let ?u = "t\<lparr>registered := insert (Cdev i) (registered t)\<rparr>"
  have e2: "ensures (err_device_create i ?u) (undone h0 ?u)"
    using d t assms(6-8) l(2,5,7) assms(2) heap
    by (intro err_device_create_ok [where K = K]) (auto intro: holds_depends [OF l(2)])
  have fin: "loading h0 K e (Suc i) (t\<lparr>registered := resources K 0 (Suc i)\<rparr>)"
    if "k_cdev_add K i = 0" "k_device_create K i \<noteq> CreateNull"
    using assms that by (intro equipped_holds [OF assms(1-8)]) (simp_all add: same_outside_def)
  have reg: "k_device_create K i = Created \<Longrightarrow>
      insert (DevNode i) (insert (Cdev i) (registered t)) = resources K 0 (Suc i)"
    "k_device_create K i \<noteq> Created \<Longrightarrow> insert (Cdev i) (registered t) = resources K 0 (Suc i)"
    using t(3) by (auto simp: resources_extend)
  have fresh: "Cdev i \<notin> registered t" "DevNode i \<notin> registered t" using t(3) by simp_all
  show ?thesis
  proof (cases "k_cdev_add K i = 0")
    case False
    have "ensures (publish K i t) (undone h0 t)"
      using False e1 by (simp add: publish_def cdev_add_def)
    then show ?thesis
      by (rule ensures_mono) (use undone_before [OF _ out] in \<open>auto simp: undone_def\<close>)
  next
    case True
    show ?thesis
    proof (cases "k_device_create K i")
      case Created
      with True fresh reg fin show ?thesis
        by (simp add: publish_def cdev_add_def device_create_def acquire_def)
    next
      case CreateErrPtr
      with True fresh reg fin show ?thesis
        by (simp add: publish_def cdev_add_def device_create_def acquire_def)
    next
      case CreateNull
      with True fresh e2 have "ensures (publish K i t) (undone h0 t)"
        by (simp add: publish_def cdev_add_def device_create_def acquire_def)
      then show ?thesis
        by (rule ensures_mono) (use undone_before [OF _ out] in \<open>auto simp: undone_def\<close>)
    qed
  qed
qed

lemma with_dma_bar_ok:
  assumes "loading h0 K e i s" and "i < MTCADUMMY_NR_DEVS" and "heap s p = None" "p \<noteq> NULL"
    and "devs t = (devs s)[i := zero_dev\<lparr>systemBar := p\<rparr>]"
    and "heap t = (heap s)(p \<mapsto> replicate MTCADUMMY_N_REGISTERS 0)"
    and "registered t = registered s" and "same_outside s t"
  shows "ensures (with_dma_bar K i p t)
    (\<lambda>r u. if r = 0 then loading h0 K e (Suc i) u else undone h0 e r u)"
proof -
  note l = loadingD [OF assms(1)]
  have out: "same_outside e t" using l(4) assms(8) same_outside_trans by blast
  have i: "i < length (devs t)" "devs t ! i = zero_dev\<lparr>systemBar := p\<rparr>"
    using assms(2,5) l(5) by simp_all
  from l(1) show ?thesis
  proof (cases rule: kmalloc_cases [where n = MTCADUMMY_DMA_SIZE and s = t])
    case 1
    let ?t = "(count_call t)\<lparr>devs := (devs t)[i := (devs t ! i)\<lparr>dmaBar := NULL\<rparr>]\<rparr>"
    have "with_dma_bar K i p t = err_allocate_dmaBar i ?t"
      using 1 i by (simp add: with_dma_bar_def set_dev_def)
    moreover have "ensures (err_allocate_dmaBar i ?t) (undone h0 ?t)"
      using i assms(3-7) l(2,5)
      by (intro err_allocate_dmaBar_ok [where K = K]) (auto intro: holds_depends [OF l(2)] simp: fun_upd_idem)
    moreover have "same_outside e ?t" using out by (simp add: same_outside_def)
    ultimately show ?thesis
      by (auto elim!: ensures_mono dest: undone_before simp: undone_def)
  next
    case (2 q ws)
    have q: "heap s q = None" "p \<noteq> q" using 2(2) assms(6) by (auto split: if_splits)
    let ?t = "t\<lparr>tick := Suc (tick t),
      heap := (heap t)(q \<mapsto> replicate DMA_WORDS 0, p \<mapsto> initial_regs K),
      log := log t @ replicate 7 (Access p), registered := insert (MutexInit i) (registered s),
      devs := (devs s)[i := fresh_dev K i p q]\<rparr>"
    have ws: "replicate (MTCADUMMY_DMA_SIZE div 4) 0 @ drop (MTCADUMMY_DMA_SIZE div 4) ws =
        replicate DMA_WORDS 0"
      using 2(3) by (simp add: size_defs)
    have "with_dma_bar K i p t = publish K i ?t"
      using 2 i q assms(5-7) ws l(5,7) assms(2)
      by (simp add: with_dma_bar_def set_dev_def memset_0_def count_call_def initialiseSystemBar_eq
          acquire_def fresh_dev_def zero_dev_def mtcaDummyMinorNr_def)
    moreover have "equipped K i p q s ?t"
      using assms(6,8) q(2) by (auto simp: equipped_def same_outside_def fun_upd_twist)
    from publish_ok [OF assms(1,2) this assms(3) q(1,2) assms(4) 2(1)]
    have "ensures (publish K i ?t) (\<lambda>r u. if r = 0 then loading h0 K e (Suc i) u else undone h0 e r u)" .
    ultimately show ?thesis by simp
  qed
qed

lemma init_iteration:
  assumes "i < MTCADUMMY_NR_DEVS" and "loading h0 K e i s"
  shows "ensures (init_body K i s)
    (\<lambda>r u. if r = 0 then loading h0 K e (Suc i) u else undone h0 e r u)"
proof -
  note l = loadingD [OF assms(2)]
  have i: "i < length (devs s)" "devs s ! i = zero_dev" using assms(1) l(5,6) by simp_all
  from l(1) show ?thesis
  proof (cases rule: kmalloc_cases [where n = "MTCADUMMY_N_REGISTERS * 4" and s = s])
    case 1
    let ?t = "(count_call s)\<lparr>devs := (devs s)[i := (devs s ! i)\<lparr>systemBar := NULL\<rparr>]\<rparr>"
    have "init_body K i s = err_allocate_systemBar i ?t"
      using 1 i by (simp add: init_body_halves set_dev_def)
    moreover have "holds h0 K 0 i ?t" by (rule holds_depends [OF l(2)]) simp_all
    from err_allocate_systemBar_ok [OF this]
    have "ensures (err_allocate_systemBar i ?t) (undone h0 ?t)" .
    moreover have "same_outside e ?t" using l(4) by (simp add: same_outside_def)
    ultimately show ?thesis
      by (auto elim!: ensures_mono dest: undone_before simp: undone_def)
  next
    case (2 p ws)
    let ?t = "s\<lparr>tick := Suc (tick s), devs := (devs s)[i := zero_dev\<lparr>systemBar := p\<rparr>],
      heap := (heap s)(p \<mapsto> replicate MTCADUMMY_N_REGISTERS 0)\<rparr>"
    have "init_body K i s = with_dma_bar K i p ?t"
      using 2 i by (simp add: init_body_halves set_dev_def memset_0_def count_call_def)
    with with_dma_bar_ok [OF assms(2,1) 2(2,1), of ?t] show ?thesis
      by (simp add: same_outside_def)
  qed
qed

interpretation init_loop: loop_body "init_body K" MTCADUMMY_NR_DEVS "loading h0 K e" "undone h0 e"
  for K h0 e
  by unfold_locales (rule init_iteration)

section \<open>Loading establishes the running module\<close>

text \<open>The ghost log of the running module starts when loading ends.\<close>

definition start_log :: "sys \<Rightarrow> sys" where
  "start_log s = s\<lparr>log := []\<rparr>"

lemma start_log_simps [simp]:
  "devs (start_log s) = devs s" "control (start_log s) = control s" "heap (start_log s) = heap s"
  "umem (start_log s) = umem s" "held (start_log s) = held s" "tick (start_log s) = tick s"
  "registered (start_log s) = registered s" "regs (start_log s) e = regs s e"
  "dma (start_log s) e = dma s e" "log (start_log s) = []"
  by (simp_all add: start_log_def regs_def dma_def)

definition loaded :: "kernel \<Rightarrow> sys \<Rightarrow> sys \<Rightarrow> bool" where
  "loaded K s t \<longleftrightarrow>
    idle (start_log t) \<and> same_outside s t \<and>
    registered t = module_resources K \<and>
    k_alloc_chrdev_region K = 0 \<and> k_class_create_ok K \<and> granted K MTCADUMMY_NR_DEVS \<and>
    (\<forall>d < MTCADUMMY_NR_DEVS.
       devs t ! d = fresh_dev K d (systemBar (devs t ! d)) (dmaBar (devs t ! d)) \<and>
       regs t d = initial_regs K \<and> dma t d = replicate DMA_WORDS 0)"

lemma loading_idle:
  assumes "loading h0 K e MTCADUMMY_NR_DEVS s" and "held s = {}"
  shows "idle (start_log s)"
    and "\<forall>d < MTCADUMMY_NR_DEVS. regs s d = initial_regs K \<and> dma s d = replicate DMA_WORDS 0"
proof -
  note l = loadingD [OF assms(1)]
  have up: "slotNr (devs s ! d) = of_nat d" "heap s (systemBar (devs s ! d)) = Some (initial_regs K)"
    "heap s (dmaBar (devs s ! d)) = Some (replicate DMA_WORDS 0)" if "d < MTCADUMMY_NR_DEVS" for d
  proof -
    have u: "set_up K s d" using l(3) that by blast
    then have "slotNr (devs s ! d) = slotNr (fresh_dev K d (systemBar (devs s ! d)) (dmaBar (devs s ! d)))"
      unfolding set_up_def by metis
    then show "slotNr (devs s ! d) = of_nat d" by (simp add: fresh_dev_def)
    from u show "heap s (systemBar (devs s ! d)) = Some (initial_regs K)"
      "heap s (dmaBar (devs s ! d)) = Some (replicate DMA_WORDS 0)"
      by (simp_all add: set_up_def)
  qed
  then show "\<forall>d < MTCADUMMY_NR_DEVS. regs s d = initial_regs K \<and> dma s d = replicate DMA_WORDS 0"
    by (simp add: regs_def dma_def block_def)
  have "wf_sys s"
    using up l(2,5) by (simp add: wf_sys_def has_block_def holds_def)
  then show "idle (start_log s)"
    using assms(2) by (simp add: idle_def live_def disciplined_def wf_sys_def)
qed

lemma mtcaDummy_init_module_refines:
  assumes "kmalloc_ok K" and "held s = {}" and "registered s = {}"
  shows "ensures (mtcaDummy_init_module K s)
    (\<lambda>r t. if r = 0 then loaded K s t \<and> holds (heap s) K 0 MTCADUMMY_NR_DEVS (t\<lparr>registered := registered t - {ProcEntry}\<rparr>)
      else undone (heap s) s r t)"
proof (cases "k_alloc_chrdev_region K = 0 \<and> k_class_create_ok K")
  case False
  with assms show ?thesis
    by (auto simp: mtcaDummy_init_module_def alloc_chrdev_region_def class_create_def acquire_def
        give_back_def err_alloc_chrdev_region_def err_class_create_def undone_def same_outside_def)
next
  case allowed: True
  let ?s = "s\<lparr>registered := {DevClass, ChrdevRegion}, devs := replicate MTCADUMMY_NR_DEVS zero_dev\<rparr>"
  have "loading (heap s) K s 0 ?s"
    using assms(1)
    by (auto simp: loading_def granted_def holds_def blocks_def bar_blocks_def same_outside_def resources_def
        restrict_map_def)
  from init_loop.loop_total [OF this] obtain r t where t:
    "for_loop (init_body K) 0 MTCADUMMY_NR_DEVS ?s = Some (r, t)"
    "if r = 0 then loading (heap s) K s MTCADUMMY_NR_DEVS t else undone (heap s) s r t"
    by (auto simp: ensures_iff)
  have run: "mtcaDummy_init_module K s =
      (if r \<noteq> 0 then Some (r, t) else do { (_, s) \<leftarrow> mtcadummy_create_proc K t; Some (0, s) })"
    using allowed assms(3) t(1)
    by (simp add: mtcaDummy_init_module_def alloc_chrdev_region_def class_create_def acquire_def)
  show ?thesis
  proof (cases "r = 0")
    case False
    with t(2) run show ?thesis by simp
  next
    case True
    with t(2) have l: "loading (heap s) K s MTCADUMMY_NR_DEVS t" by simp
    note ld = loadingD [OF l]
    have held: "held t = {}" using ld(4) assms(2) by (simp add: same_outside_def)
    let ?t = "t\<lparr>registered := module_resources K\<rparr>"
    have i: "idle (start_log ?t)" using loading_idle(1) [OF l held]
      by (simp add: idle_def live_def disciplined_def wf_sys_def)
    have b: "regs ?t d = initial_regs K" "dma ?t d = replicate DMA_WORDS 0" if "d < MTCADUMMY_NR_DEVS" for d
      using loading_idle(2) [OF l held] that by (simp_all add: regs_def dma_def)
    have "loaded K s ?t"
      using ld i b allowed by (auto simp: loaded_def same_outside_def set_up_def)
    moreover have "holds (heap s) K 0 MTCADUMMY_NR_DEVS (?t\<lparr>registered := registered ?t - {ProcEntry}\<rparr>)"
      by (rule holds_depends [OF ld(2)]) (simp_all add: ld(7))
    ultimately show ?thesis
      using True run ld(7) by (simp add: create_proc_run module_resources_def)
  qed
qed

section \<open>Unloading\<close>

lemma wf_holds:
  assumes "wf_sys s"
  shows "holds (heap s |` (- set (bar_blocks (devs s)))) K 0 MTCADUMMY_NR_DEVS
    (s\<lparr>registered := resources K 0 MTCADUMMY_NR_DEVS\<rparr>)"
proof -
  have "p \<in> dom (heap s)" if "p \<in> set (bar_blocks (devs s))" for p
  proof -
    from that obtain d where d: "d < MTCADUMMY_NR_DEVS"
      "p = systemBar (devs s ! d) \<or> p = dmaBar (devs s ! d)"
      using wf_length_devs [OF assms] by (auto simp: bar_blocks_def in_set_conv_nth)
    with wf_system_block [OF assms d(1)] wf_dma_block [OF assms d(1)] show ?thesis by auto
  qed
  then show ?thesis
    using assms by (auto simp: holds_def blocks_def wf_sys_def)
qed

lemma mtcaDummy_cleanup_module_refines:
  assumes "wf_sys s" and "registered s = module_resources K"
  shows "ensures (mtcaDummy_cleanup_module s)
    (\<lambda>_ t. heap t = heap s |` (- set (bar_blocks (devs s))) \<and> registered t = {} \<and> same_outside s t)"
proof -
  let ?s = "s\<lparr>registered := resources K 0 MTCADUMMY_NR_DEVS\<rparr>"
  have r: "mtcadummy_remove_proc s = Some ((), ?s)"
    by (simp add: mtcadummy_remove_proc_def forget_def assms(2))
  from unroll_all [OF wf_holds [OF assms(1)]] obtain t where
    "for_loop unroll_body 0 MTCADUMMY_NR_DEVS ?s = Some (0, t)"
    "heap t = heap s |` (- set (bar_blocks (devs s)))"
    "registered t = {ChrdevRegion, DevClass}" "same_outside ?s t"
    by (auto simp: ensures_iff)
  with r show ?thesis
    by (auto simp: mtcaDummy_cleanup_module_def give_back_def same_outside_def)
qed

lemma loaded_heap:
  assumes "holds h0 K 0 MTCADUMMY_NR_DEVS (t\<lparr>registered := R\<rparr>)" and "wf_sys t"
  shows "heap t |` (- set (bar_blocks (devs t))) = h0"
  using assms wf_length_devs [OF assms(2)] by (simp add: holds_def blocks_def)

end
