(* ===== verification/System.thy ===== *)
theory System
  imports Module_Init
begin

text \<open>
  The loaded module as a transition system: processes open, close, read, write and control
  the devices and use the proc file, in any order. A call reaches a handler through the
  table of file operations of its device, as the virtual file system dispatches it: a
  missing \<open>open\<close> or \<open>release\<close> succeeds, a missing \<open>read\<close> or \<open>write\<close> is refused with
  \<open>-EINVAL\<close> and a missing \<open>unlocked_ioctl\<close> with \<open>-ENOTTY\<close>. A call is one step; between two
  calls a process may change its memory.
\<close>

section \<open>Dispatch\<close>

definition call_open ::
    "entry_point option \<Rightarrow> kernel \<Rightarrow> nat \<Rightarrow> open_file \<Rightarrow> sys \<Rightarrow> ((int \<times> open_file) \<times> sys) option" where
  "call_open f K d filp s = (case f of
      None \<Rightarrow> Some ((0, filp), s)
    | Some e \<Rightarrow> if e = Mtca_open then mtcaDummy_open K d filp s else None)"

definition call_release :: "entry_point option \<Rightarrow> open_file \<Rightarrow> sys \<Rightarrow> (int \<times> sys) option" where
  "call_release f filp s = (case f of
      None \<Rightarrow> Some (0, s)
    | Some e \<Rightarrow> if e = Mtca_release then mtcaDummy_release filp s else None)"

text \<open>The handlers that do not use the file position leave it as it was.\<close>

definition keep_position :: "u64 \<Rightarrow> (int \<times> sys) option \<Rightarrow> ((int \<times> u64) \<times> sys) option" where
  "keep_position pos m = m \<bind> (\<lambda>(r, s). Some ((r, pos), s))"

definition call_read ::
    "entry_point option \<Rightarrow> kernel \<Rightarrow> open_file \<Rightarrow> u64 \<Rightarrow> u64 \<Rightarrow> u64 \<Rightarrow> sys \<Rightarrow>
      ((int \<times> u64) \<times> sys) option" where
  "call_read f K filp buf count pos s = (case f of
      None \<Rightarrow> Some ((- EINVAL, pos), s)
    | Some e \<Rightarrow>
        if e = Mtca_read then keep_position pos (mtcaDummy_read K filp buf count s)
        else if e = Mtca_read_no_struct then mtcaDummy_read_no_struct K filp buf count pos s
        else None)"

definition call_write ::
    "entry_point option \<Rightarrow> kernel \<Rightarrow> open_file \<Rightarrow> u64 \<Rightarrow> u64 \<Rightarrow> u64 \<Rightarrow> sys \<Rightarrow>
      ((int \<times> u64) \<times> sys) option" where
  "call_write f K filp buf count pos s = (case f of
      None \<Rightarrow> Some ((- EINVAL, pos), s)
    | Some e \<Rightarrow>
        if e = Mtca_write then keep_position pos (mtcaDummy_write K filp buf count s)
        else if e = Mtca_write_no_struct then mtcaDummy_write_no_struct K filp buf count pos s
        else None)"

definition call_ioctl ::
    "entry_point option \<Rightarrow> kernel \<Rightarrow> open_file \<Rightarrow> u32 \<Rightarrow> u64 \<Rightarrow> sys \<Rightarrow> (int \<times> sys) option" where
  "call_ioctl f K filp cmd arg s = (case f of
      None \<Rightarrow> Some (- ENOTTY, s)
    | Some e \<Rightarrow>
        if e = Mtca_ioctl then mtcaDummy_ioctl K filp cmd arg s
        else if e = Llrf_ioctl then llrfDummy_ioctl K filp cmd arg s
        else if e = Pcieuni_ioctl then pcieuniDummy_ioctl K filp cmd arg s
        else None)"

section \<open>Calls of processes\<close>

record handle =
  fh_dev :: nat
  fh_file :: open_file
  fh_pos :: u64

record world =
  kern :: sys
  files :: "handle list"

text \<open>
  A file is named by its place in the list of open files. \<open>Position\<close> stands for the
  position that \<open>pread\<close> and \<open>pwrite\<close> give with a call.
\<close>

datatype call =
    Open nat
  | Close nat
  | Read nat u64 u64
  | Write nat u64 u64
  | Ioctl nat u32 u64
  | Position nat u64
  | Proc_write u64 u64
  | Proc_show nat
  | User umem

definition ops_at :: "sys \<Rightarrow> nat \<Rightarrow> file_operations" where
  "ops_at s d = cdev_ops (devs s ! d)"

definition fresh_file :: open_file where
  "fresh_file = \<lparr>private_data = None\<rparr>"

definition remove_nth :: "nat \<Rightarrow> 'a list \<Rightarrow> 'a list" where
  "remove_nth i xs = take i xs @ drop (Suc i) xs"

fun exec_call :: "kernel \<Rightarrow> call \<Rightarrow> world \<Rightarrow> (int \<times> world) option" where
  "exec_call K (Open d) w = do {
     ((r, filp), s) \<leftarrow> call_open (fop_open (ops_at (kern w) d)) K d fresh_file (kern w);
     Some (r, if r = 0 then w\<lparr>kern := s, files := files w @ [\<lparr>fh_dev = d, fh_file = filp, fh_pos = 0\<rparr>]\<rparr>
              else w\<lparr>kern := s\<rparr>)
   }"
| "exec_call K (Close i) w = do {
     let h = files w ! i;
     (r, s) \<leftarrow> call_release (fop_release (ops_at (kern w) (fh_dev h))) (fh_file h) (kern w);
     Some (r, w\<lparr>kern := s, files := remove_nth i (files w)\<rparr>)
   }"
| "exec_call K (Read i buf count) w = do {
     let h = files w ! i;
     ((r, pos), s) \<leftarrow> call_read (fop_read (ops_at (kern w) (fh_dev h))) K (fh_file h) buf count
       (fh_pos h) (kern w);
     Some (r, w\<lparr>kern := s, files := (files w)[i := h\<lparr>fh_pos := pos\<rparr>]\<rparr>)
   }"
| "exec_call K (Write i buf count) w = do {
     let h = files w ! i;
     ((r, pos), s) \<leftarrow> call_write (fop_write (ops_at (kern w) (fh_dev h))) K (fh_file h) buf count
       (fh_pos h) (kern w);
     Some (r, w\<lparr>kern := s, files := (files w)[i := h\<lparr>fh_pos := pos\<rparr>]\<rparr>)
   }"
| "exec_call K (Ioctl i cmd arg) w = do {
     let h = files w ! i;
     (r, s) \<leftarrow> call_ioctl (fop_ioctl (ops_at (kern w) (fh_dev h))) K (fh_file h) cmd arg (kern w);
     Some (r, w\<lparr>kern := s\<rparr>)
   }"
| "exec_call K (Position i pos) w =
     Some (0, w\<lparr>files := (files w)[i := (files w ! i)\<lparr>fh_pos := pos\<rparr>]\<rparr>)"
| "exec_call K (Proc_write ubuf count) w = do {
     (r, s) \<leftarrow> mtcadummy_proc_write K ubuf count (kern w);
     Some (r, w\<lparr>kern := s\<rparr>)
   }"
| "exec_call K (Proc_show d) w = do {
     ((r, out), s) \<leftarrow> mtcadummy_seq_show K d (kern w);
     Some (r, w\<lparr>kern := s\<rparr>)
   }"
| "exec_call K (User m) w = Some (0, w\<lparr>kern := (kern w)\<lparr>umem := m\<rparr>\<rparr>)"

text \<open>
  The calls the kernel hands to the driver: files that are open, devices that exist, and
  transfer sizes within the limit of \<open>vfs_read\<close> and \<open>vfs_write\<close>. Of these, only the calls that
  copy from outside the DMA area are left out: a \<open>read\<close> with the structure, or a \<open>READ_DMA\<close>
  command, that gets as far as the copy with a request whose bound check wraps around.
\<close>

fun copies_outside_read :: "entry_point option \<Rightarrow> kernel \<Rightarrow> nat \<Rightarrow> u64 \<Rightarrow> u64 \<Rightarrow> sys \<Rightarrow> bool" where
  "copies_outside_read (Some Mtca_read) K d buf count s = read_escapes K d buf count s"
| "copies_outside_read _ K d buf count s = False"

fun copies_outside_ioctl :: "entry_point option \<Rightarrow> kernel \<Rightarrow> nat \<Rightarrow> u32 \<Rightarrow> u64 \<Rightarrow> sys \<Rightarrow> bool" where
  "copies_outside_ioctl (Some Mtca_ioctl) K d cmd arg s =
    ioctl_escapes mtca_accepts mtca_understand K d cmd arg s"
| "copies_outside_ioctl (Some Pcieuni_ioctl) K d cmd arg s =
    ioctl_escapes pcieuni_accepts pcieuni_understand K d cmd arg s"
| "copies_outside_ioctl _ K d cmd arg s = False"

fun permitted :: "kernel \<Rightarrow> call \<Rightarrow> world \<Rightarrow> bool" where
  "permitted K (Open d) w \<longleftrightarrow> d < MTCADUMMY_NR_DEVS"
| "permitted K (Close i) w \<longleftrightarrow> i < length (files w)"
| "permitted K (Read i buf count) w \<longleftrightarrow>
    i < length (files w) \<and> unat count \<le> MAX_RW_COUNT \<and>
    \<not> copies_outside_read (fop_read (ops_at (kern w) (fh_dev (files w ! i)))) K
      (fh_dev (files w ! i)) buf count (kern w)"
| "permitted K (Write i buf count) w \<longleftrightarrow> i < length (files w) \<and> unat count \<le> MAX_RW_COUNT"
| "permitted K (Ioctl i cmd arg) w \<longleftrightarrow>
    i < length (files w) \<and>
    \<not> copies_outside_ioctl (fop_ioctl (ops_at (kern w) (fh_dev (files w ! i)))) K
      (fh_dev (files w ! i)) cmd arg (kern w)"
| "permitted K (Position i pos) w \<longleftrightarrow> i < length (files w)"
| "permitted K (Proc_write ubuf count) w \<longleftrightarrow> unat count \<le> MAX_RW_COUNT"
| "permitted K (Proc_show d) w \<longleftrightarrow> d < MTCADUMMY_NR_DEVS"
| "permitted K (User m) w \<longleftrightarrow> True"

inductive step :: "kernel \<Rightarrow> world \<Rightarrow> call \<Rightarrow> int \<Rightarrow> world \<Rightarrow> bool" for K where
  step: "permitted K c w \<Longrightarrow> exec_call K c w = Some (r, w') \<Longrightarrow> step K w c r w'"

text \<open>The worlds that can be reached after the module was loaded into the state \<open>s\<close>.\<close>

inductive reachable :: "kernel \<Rightarrow> sys \<Rightarrow> world \<Rightarrow> bool" for K s where
  load: "mtcaDummy_init_module K s = Some (0, t) \<Longrightarrow>
    reachable K s \<lparr>kern = start_log t, files = []\<rparr>"
| call: "reachable K s w \<Longrightarrow> step K w c r w' \<Longrightarrow> reachable K s w'"

inductive_cases stepE: "step K w c r w'"

section \<open>The contract of a call on a device\<close>

text \<open>What a call leaves alone, if it may change the bars of the devices in \<open>D\<close>.\<close>

definition harmless :: "nat set \<Rightarrow> sys \<Rightarrow> sys \<Rightarrow> bool" where
  "harmless D s t \<longleftrightarrow>
    idle t \<and> devs t = devs s \<and> control t = control s \<and> registered t = registered s \<and>
    (\<forall>e < MTCADUMMY_NR_DEVS. e \<notin> D \<longrightarrow> regs t e = regs s e \<and> dma t e = dma s e)"

lemma call_on_harmless: "call_on d s t \<Longrightarrow> harmless {d} s t"
  by (auto simp: call_on_def harmless_def)

lemma call_on_still: "call_on d s t \<Longrightarrow> regs t d = regs s d \<Longrightarrow> dma t d = dma s d \<Longrightarrow> harmless {} s t"
  by (auto simp: call_on_def harmless_def)

lemma harmless_refl [simp]: "harmless D s s = idle s"
  by (auto simp: harmless_def)

lemma harmless_mono: "harmless {} s t \<Longrightarrow> harmless D s t"
  by (auto simp: harmless_def)

text \<open>
  What the rest of the module relies on, whatever a handler is asked to do: the call has
  a defined result, no mutex stays locked, and nothing of the other devices changes.
\<close>

locale device_call =
  fixes op :: "'a \<Rightarrow> sys \<Rightarrow> ('r \<times> sys) option"
    and dev :: "'a \<Rightarrow> nat"
    and ok :: "'a \<Rightarrow> sys \<Rightarrow> bool"
  assumes safe: "idle s \<Longrightarrow> ok a s \<Longrightarrow> ensures (op a s) (\<lambda>_ t. call_on (dev a) s t)"
begin

lemma guarded_by_device: "idle s \<Longrightarrow> ok a s \<Longrightarrow> ensures (op a s) (\<lambda>_ t. harmless {dev a} s t)"
  by (rule ensures_mono [OF safe]) (auto intro: call_on_harmless)

end

text \<open>A call that only looks: it changes no bar at all.\<close>

locale reading_call = device_call +
  assumes looks: "idle s \<Longrightarrow> ok a s \<Longrightarrow>
    ensures (op a s) (\<lambda>_ t. regs t (dev a) = regs s (dev a) \<and> dma t (dev a) = dma s (dev a))"
begin

lemma still: "idle s \<Longrightarrow> ok a s \<Longrightarrow> ensures (op a s) (\<lambda>_ t. harmless {} s t)"
  using safe [of s a] looks [of s a] by (auto simp: ensures_iff intro: call_on_still)

end

definition on_open_device :: "open_file \<Rightarrow> bool" where
  "on_open_device filp \<longleftrightarrow> (case private_data filp of None \<Rightarrow> False | Some d \<Rightarrow> d < MTCADUMMY_NR_DEVS)"

lemma on_open_deviceE:
  assumes "on_open_device filp"
  obtains d where "private_data filp = Some d" and "d < MTCADUMMY_NR_DEVS"
  using assms by (auto simp: on_open_device_def split: option.splits)

definition file_device :: "open_file \<Rightarrow> nat" where
  "file_device filp = (case private_data filp of None \<Rightarrow> 0 | Some d \<Rightarrow> d)"

interpretation read_call: reading_call "\<lambda>(K, filp, buf, count). mtcaDummy_read K filp buf count"
  "\<lambda>(K, filp, buf, count). file_device filp"
  "\<lambda>(K, filp, buf, count) s. on_open_device filp \<and>
    \<not> read_escapes K (file_device filp) buf count s"
  by unfold_locales
    (auto elim!: on_open_deviceE intro: ensures_mono [OF mtcaDummy_read_refines] simp: file_device_def)

interpretation write_call: device_call "\<lambda>(K, filp, buf, count). mtcaDummy_write K filp buf count"
  "\<lambda>(K, filp, buf, count). file_device filp" "\<lambda>(K, filp, buf, count) s. on_open_device filp"
  by unfold_locales
    (auto elim!: on_open_deviceE intro: ensures_mono [OF mtcaDummy_write_refines] simp: file_device_def)

interpretation read_no_struct_call: reading_call
  "\<lambda>(K, filp, buf, count, pos). mtcaDummy_read_no_struct K filp buf count pos"
  "\<lambda>(K, filp, buf, count, pos). file_device filp"
  "\<lambda>(K, filp, buf, count, pos) s. on_open_device filp \<and> uaccess_ok K \<and> unat count \<le> MAX_RW_COUNT"
  by unfold_locales
    (auto elim!: on_open_deviceE intro: ensures_mono [OF mtcaDummy_read_no_struct_refines]
      simp: file_device_def)

interpretation write_no_struct_call: device_call
  "\<lambda>(K, filp, buf, count, pos). mtcaDummy_write_no_struct K filp buf count pos"
  "\<lambda>(K, filp, buf, count, pos). file_device filp"
  "\<lambda>(K, filp, buf, count, pos) s. on_open_device filp \<and> uaccess_ok K \<and> unat count \<le> MAX_RW_COUNT"
  by unfold_locales
    (auto elim!: on_open_deviceE intro: ensures_mono [OF mtcaDummy_write_no_struct_refines]
      simp: file_device_def)

interpretation ioctl_call: reading_call "\<lambda>(f, K, filp, cmd, arg). call_ioctl f K filp cmd arg"
  "\<lambda>(f, K, filp, cmd, arg). file_device filp"
  "\<lambda>(f, K, filp, cmd, arg) s. f \<in> {Some Mtca_ioctl, Some Llrf_ioctl, Some Pcieuni_ioctl} \<and>
    on_open_device filp \<and> \<not> copies_outside_ioctl f K (file_device filp) cmd arg s"
  by unfold_locales
    (auto elim!: on_open_deviceE simp: file_device_def call_ioctl_def
      intro: ensures_mono [OF mtca.total] ensures_mono [OF llrf_total] ensures_mono [OF pcieuni.total])

interpretation show_call: reading_call "\<lambda>(K, d). mtcadummy_seq_show K d"
  "\<lambda>(K, d). d" "\<lambda>(K, d) s. d < MTCADUMMY_NR_DEVS"
  by unfold_locales (auto intro: ensures_mono [OF mtcadummy_seq_show_refines])

section \<open>The invariant of the running module\<close>

definition open_count :: "nat \<Rightarrow> handle list \<Rightarrow> nat" where
  "open_count d hs = length (filter (\<lambda>h. private_data (fh_file h) = Some d) hs)"

text \<open>A handle of the device 5, whose table has no \<open>open\<close>, has no private data.\<close>

definition handle_ok :: "handle \<Rightarrow> bool" where
  "handle_ok h \<longleftrightarrow> fh_dev h < MTCADUMMY_NR_DEVS \<and>
    private_data (fh_file h) = (if fh_dev h = 5 then None else Some (fh_dev h))"

definition world_ok :: "kernel \<Rightarrow> world \<Rightarrow> bool" where
  "world_ok K w \<longleftrightarrow>
    idle (kern w) \<and> registered (kern w) = module_resources K \<and>
    (\<forall>d < MTCADUMMY_NR_DEVS. ops_at (kern w) d = file_ops_of d \<and>
       inUse (devs (kern w) ! d) = of_nat (open_count d (files w))) \<and>
    list_all handle_ok (files w)"

lemma world_okD:
  assumes "world_ok K w"
  shows "idle (kern w)" "d < MTCADUMMY_NR_DEVS \<Longrightarrow> ops_at (kern w) d = file_ops_of d"
    "i < length (files w) \<Longrightarrow> handle_ok (files w ! i)"
  using assms by (auto simp: world_ok_def list_all_length)

text \<open>A call that leaves the table of devices alone.\<close>

lemma world_ok_call:
  assumes "world_ok K w" and "idle t" and "devs t = devs (kern w)"
    and "registered t = registered (kern w)"
    and "list_all handle_ok hs" and "\<And>d. open_count d hs = open_count d (files w)"
  shows "world_ok K (w\<lparr>kern := t, files := hs\<rparr>)" and "hs = files w \<Longrightarrow> world_ok K (w\<lparr>kern := t\<rparr>)"
  using assms by (auto simp: world_ok_def ops_at_def)

lemma move_handle:
  assumes "i < length hs" and "list_all handle_ok hs"
  shows "list_all handle_ok (hs[i := (hs ! i)\<lparr>fh_pos := p\<rparr>])"
    and "open_count d (hs[i := (hs ! i)\<lparr>fh_pos := p\<rparr>]) = open_count d hs"
proof -
  show "list_all handle_ok (hs[i := (hs ! i)\<lparr>fh_pos := p\<rparr>])"
    using assms by (auto simp: list_all_length nth_list_update handle_ok_def)
  have "map fh_file (hs[i := (hs ! i)\<lparr>fh_pos := p\<rparr>]) = map fh_file hs"
    using assms(1) by (simp add: map_update list_update_same_conv)
  moreover have "open_count d xs = length (filter (\<lambda>f. private_data f = Some d) (map fh_file xs))" for xs
    by (simp add: open_count_def filter_map comp_def)
  ultimately show "open_count d (hs[i := (hs ! i)\<lparr>fh_pos := p\<rparr>]) = open_count d hs"
    by metis
qed

lemma file_ops_cases:
  assumes "d < MTCADUMMY_NR_DEVS"
  shows "fop_open (file_ops_of d) = (if d = 5 then None else Some Mtca_open)"
    and "fop_release (file_ops_of d) = (if d = 5 then None else Some Mtca_release)"
    and "fop_read (file_ops_of d) =
      (if d = 5 then None else if d = 6 then Some Mtca_read_no_struct else Some Mtca_read)"
    and "fop_write (file_ops_of d) =
      (if d = 5 then None else if d = 6 then Some Mtca_write_no_struct else Some Mtca_write)"
    and "fop_ioctl (file_ops_of d) =
      (if d = 5 then None else if d = 6 then Some Pcieuni_ioctl
       else if d = 4 then Some Llrf_ioctl else Some Mtca_ioctl)"
  by (simp_all add: file_ops_of_def mtcaDummyFileOps_def llrfDummyFileOps_def
      noIoctlDummyFileOps_def pcieuniDummyFileOps_def)

lemma handle_device:
  assumes "handle_ok h"
  shows "fh_dev h < MTCADUMMY_NR_DEVS" and "fh_dev h \<noteq> 5 \<Longrightarrow> private_data (fh_file h) = Some (fh_dev h)"
    and "fh_dev h = 5 \<Longrightarrow> private_data (fh_file h) = None"
    and "fh_dev h \<noteq> 5 \<Longrightarrow> on_open_device (fh_file h)"
    and "fh_dev h \<noteq> 5 \<Longrightarrow> file_device (fh_file h) = fh_dev h"
  using assms by (auto simp: handle_ok_def on_open_device_def file_device_def)

lemma ensures_keep_position:
  "ensures m (\<lambda>_ t. P t) \<Longrightarrow> ensures (keep_position pos m) (\<lambda>_ t. P t)"
  by (cases m) (auto simp: keep_position_def)

lemma call_read_safe:
  assumes "idle s" "handle_ok h" "uaccess_ok K" "unat count \<le> MAX_RW_COUNT"
    "\<not> copies_outside_read (fop_read (file_ops_of (fh_dev h))) K (fh_dev h) buf count s"
  shows "ensures (call_read (fop_read (file_ops_of (fh_dev h))) K (fh_file h) buf count pos s)
    (\<lambda>_ t. harmless {} s t)"
proof -
  note h = handle_device [OF assms(2)]
  consider "fh_dev h = 5" | "fh_dev h = 6" | "fh_dev h \<noteq> 5" "fh_dev h \<noteq> 6" by blast
  then show ?thesis
  proof cases
    case 1
    then show ?thesis using assms(1) h by (simp add: call_read_def file_ops_cases)
  next
    case 2
    with h assms read_no_struct_call.still [of s "(K, fh_file h, buf, count, pos)"] show ?thesis
      by (auto simp: call_read_def file_ops_cases elim!: ensures_mono)
  next
    case 3
    with h assms read_call.still [of s "(K, fh_file h, buf, count)"] show ?thesis
      by (auto simp: call_read_def file_ops_cases
          intro!: ensures_keep_position elim!: ensures_mono)
  qed
qed

lemma call_write_safe:
  assumes "idle s" "handle_ok h" "uaccess_ok K" "unat count \<le> MAX_RW_COUNT"
  shows "ensures (call_write (fop_write (file_ops_of (fh_dev h))) K (fh_file h) buf count pos s)
    (\<lambda>_ t. harmless {fh_dev h} s t)"
proof -
  note h = handle_device [OF assms(2)]
  consider "fh_dev h = 5" | "fh_dev h = 6" | "fh_dev h \<noteq> 5" "fh_dev h \<noteq> 6" by blast
  then show ?thesis
  proof cases
    case 1
    then show ?thesis using assms(1) h by (simp add: call_write_def file_ops_cases)
  next
    case 2
    with h assms write_no_struct_call.guarded_by_device [of s "(K, fh_file h, buf, count, pos)"] show ?thesis
      by (auto simp: call_write_def file_ops_cases elim!: ensures_mono)
  next
    case 3
    with h assms write_call.guarded_by_device [of s "(K, fh_file h, buf, count)"] show ?thesis
      by (auto simp: call_write_def file_ops_cases
          intro!: ensures_keep_position elim!: ensures_mono)
  qed
qed

lemma call_ioctl_safe:
  assumes "idle s" "handle_ok h"
    "\<not> copies_outside_ioctl (fop_ioctl (file_ops_of (fh_dev h))) K (fh_dev h) cmd arg s"
  shows "ensures (call_ioctl (fop_ioctl (file_ops_of (fh_dev h))) K (fh_file h) cmd arg s)
    (\<lambda>_ t. harmless {} s t)"
proof (cases "fh_dev h = 5")
  case True
  with assms(1) handle_device(1) [OF assms(2)] show ?thesis
    by (simp add: call_ioctl_def file_ops_cases)
next
  case False
  note h = handle_device [OF assms(2)]
  have "fop_ioctl (file_ops_of (fh_dev h)) \<in> {Some Mtca_ioctl, Some Llrf_ioctl, Some Pcieuni_ioctl}"
    using False h(1) by (simp add: file_ops_cases)
  with False h assms ioctl_call.still [of s "(fop_ioctl (file_ops_of (fh_dev h)), K, fh_file h, cmd, arg)"]
  show ?thesis by (auto elim!: ensures_mono)
qed

lemma open_count_append:
  "open_count d (hs @ [h]) = open_count d hs + (if private_data (fh_file h) = Some d then 1 else 0)"
  by (simp add: open_count_def)

lemma open_count_remove:
  assumes "i < length hs"
  shows "open_count d hs =
    open_count d (remove_nth i hs) + (if private_data (fh_file (hs ! i)) = Some d then 1 else 0)"
proof -
  have "hs = take i hs @ hs ! i # drop (Suc i) hs" using assms by (rule id_take_nth_drop)
  then have "open_count d hs = open_count d (take i hs @ hs ! i # drop (Suc i) hs)" by simp
  then show ?thesis by (simp add: open_count_def remove_nth_def)
qed

lemma count_opens_ops:
  assumes "wf_sys s" and "e < MTCADUMMY_NR_DEVS"
  shows "ops_at (count_opens d k s) e = ops_at s e"
    and "inUse (devs (count_opens d k s) ! e) = inUse (devs s ! e) + (if e = d then k else 0)"
  using assms by (auto simp: ops_at_def count_opens_nth wf_length_devs)

lemma idle_wf: "idle s \<Longrightarrow> wf_sys s"
  by (simp add: idle_def live_def)

text \<open>The devices whose bars a call may change, and everything else that stays.\<close>

fun written :: "call \<Rightarrow> world \<Rightarrow> nat set" where
  "written (Write i buf count) w = {fh_dev (files w ! i)}"
| "written _ w = {}"

fun sets_switches :: "call \<Rightarrow> bool" where
  "sets_switches (Proc_write ubuf count) = True"
| "sets_switches _ = False"

definition frame :: "call \<Rightarrow> world \<Rightarrow> world \<Rightarrow> bool" where
  "frame c w w' \<longleftrightarrow>
    (\<forall>e < MTCADUMMY_NR_DEVS. e \<notin> written c w \<longrightarrow>
      regs (kern w') e = regs (kern w) e \<and> dma (kern w') e = dma (kern w) e) \<and>
    (\<not> sets_switches c \<longrightarrow> control (kern w') = control (kern w)) \<and>
    bar_blocks (devs (kern w')) = bar_blocks (devs (kern w))"

lemma frame_simps [simp]:
  "frame c w (w\<lparr>files := hs\<rparr>)"
  "frame (Open d) w (w\<lparr>kern := count_call (kern w)\<rparr>)"
  "frame (Open d) w (w\<lparr>kern := flag_read (kern w)\<rparr>)"
  "idle (kern w) \<Longrightarrow> frame (Open d) w (w\<lparr>kern := count_opens e k (flag_read (kern w)), files := hs\<rparr>)"
  "idle (kern w) \<Longrightarrow> frame (Close i) w (w\<lparr>kern := count_opens e k (kern w), files := hs\<rparr>)"
  using idle_wf [of "flag_read (kern w)"] idle_wf [of "kern w"]
  by (auto simp: frame_def bar_blocks_def)

lemma open_ok:
  assumes "world_ok K w" and "d < MTCADUMMY_NR_DEVS"
  shows "ensures (exec_call K (Open d) w) (\<lambda>_ w'. world_ok K w' \<and> frame (Open d) w w')"
proof -
  let ?s = "kern w" and ?new = "\<lparr>fh_dev = d, fh_file = fresh_file, fh_pos = 0\<rparr>"
  note i = world_okD(1) [OF assms(1)] and ops = world_okD(2) [OF assms(1,2)]
  have same: "world_ok K (w\<lparr>kern := t\<rparr>)" if "t = count_call ?s \<or> t = flag_read ?s" for t
  proof (rule world_ok_call(2) [OF assms(1), of _ "files w"])
    show "idle t" using that i flag_read_simps(10) [OF i] by (auto simp: idle_def)
  qed (use that assms(1) in \<open>auto simp: world_ok_def\<close>)
  show ?thesis
  proof (cases "d = 5")
    case True
    have "world_ok K (w\<lparr>files := files w @ [?new]\<rparr>)"
      using assms True by (simp add: world_ok_def open_count_append handle_ok_def fresh_file_def)
    with True ops assms(2) show ?thesis by (simp add: call_open_def file_ops_cases)
  next
    case False
    let ?new = "\<lparr>fh_dev = d, fh_file = fresh_file\<lparr>private_data := Some d\<rparr>, fh_pos = 0\<rparr>"
    have wf: "wf_sys (flag_read ?s)" using i flag_read_simps(10) idle_wf by blast
    have "world_ok K (w\<lparr>kern := count_opens d 1 (flag_read ?s), files := files w @ [?new]\<rparr>)"
      using assms False i wf
      by (auto simp: world_ok_def count_opens_ops open_count_append handle_ok_def)
        (simp_all add: ops_at_def)
    then show ?thesis
      using i False ops assms(2) same
      by (auto simp: call_open_def file_ops_cases wp intro!: ensures_mono [OF mtcaDummy_open_refines [OF i assms(2)]]
          split: if_splits)
  qed
qed

lemma close_ok:
  assumes "world_ok K w" and "i < length (files w)"
  shows "ensures (exec_call K (Close i) w) (\<lambda>_ w'. world_ok K w' \<and> frame (Close i) w w')"
proof -
  let ?s = "kern w" and ?h = "files w ! i"
  note idle = world_okD(1) [OF assms(1)] and h = handle_device [OF world_okD(3) [OF assms]]
  note ops = world_okD(2) [OF assms(1) h(1)]
  have rest: "list_all handle_ok (remove_nth i (files w))"
    using assms(1) by (auto simp: world_ok_def remove_nth_def list_all_iff dest: in_set_takeD in_set_dropD)
  note count = open_count_remove [OF assms(2)]
  show ?thesis
  proof (cases "fh_dev ?h = 5")
    case True
    have "world_ok K (w\<lparr>files := remove_nth i (files w)\<rparr>)"
      using assms(1) rest count h(3) [OF True] by (simp add: world_ok_def)
    with True ops h(1) show ?thesis by (simp add: call_release_def file_ops_cases)
  next
    case False
    have "world_ok K (w\<lparr>kern := count_opens (fh_dev ?h) (- 1) ?s, files := remove_nth i (files w)\<rparr>)"
      using assms(1) rest count h(2) [OF False] idle idle_wf [OF idle]
      by (auto simp: world_ok_def count_opens_ops)
    with idle False ops h mtcaDummy_release_refines [OF idle h(2) [OF False] h(1)] show ?thesis
      by (simp add: call_release_def file_ops_cases)
  qed
qed

lemma exec_call_ok:
  assumes "world_ok K w" and "permitted K c w" and "uaccess_ok K"
  shows "ensures (exec_call K c w) (\<lambda>_ w'. world_ok K w' \<and> frame c w w')"
proof (cases c)
  case (Open d)
  with open_ok [OF assms(1)] assms(2) show ?thesis by simp
next
  case (Close i)
  with close_ok [OF assms(1)] assms(2) show ?thesis by simp
next
  case (Read i buf count)
  with assms have p: "i < length (files w)" "unat count \<le> MAX_RW_COUNT"
    by simp_all
  note h = world_okD(3) [OF assms(1) p(1)]
  note ops = world_okD(2) [OF assms(1) handle_device(1) [OF h]]
  have inside: "\<not> copies_outside_read (fop_read (file_ops_of (fh_dev (files w ! i)))) K (fh_dev (files w ! i))
      buf count (kern w)"
    using assms(2) by (simp add: Read ops)
  have "list_all handle_ok (files w)" using assms(1) by (simp add: world_ok_def)
  note move = move_handle [OF p(1) this]
  show ?thesis
    using call_read_safe [OF world_okD(1) [OF assms(1)] h assms(3) p(2) inside, of "fh_pos (files w ! i)"]
    by (auto simp: Read ops wp case_prod_beta harmless_def frame_def intro!: world_ok_call(1) [OF assms(1)] move
        elim!: ensures_mono)
next
  case (Write i buf count)
  with assms have p: "i < length (files w)" "unat count \<le> MAX_RW_COUNT" by simp_all
  note h = world_okD(3) [OF assms(1) p(1)]
  note ops = world_okD(2) [OF assms(1) handle_device(1) [OF h]]
  have "list_all handle_ok (files w)" using assms(1) by (simp add: world_ok_def)
  note move = move_handle [OF p(1) this]
  show ?thesis
    using call_write_safe [OF world_okD(1) [OF assms(1)] h assms(3) p(2), of buf "fh_pos (files w ! i)"]
    by (auto simp: Write ops wp case_prod_beta harmless_def frame_def intro!: world_ok_call(1) [OF assms(1)] move
        elim!: ensures_mono)
next
  case (Ioctl i cmd arg)
  with assms have p: "i < length (files w)" by simp
  note h = world_okD(3) [OF assms(1) p]
  note ops = world_okD(2) [OF assms(1) handle_device(1) [OF h]]
  have inside: "\<not> copies_outside_ioctl (fop_ioctl (file_ops_of (fh_dev (files w ! i)))) K (fh_dev (files w ! i))
      cmd arg (kern w)"
    using assms(2) by (simp add: Ioctl ops)
  have hs: "list_all handle_ok (files w)" using assms(1) by (simp add: world_ok_def)
  show ?thesis
    using call_ioctl_safe [OF world_okD(1) [OF assms(1)] h inside]
    by (auto simp: Ioctl ops wp harmless_def frame_def intro!: world_ok_call(2) [OF assms(1)] hs elim!: ensures_mono)
next
  case (Position i pos)
  with assms have p: "i < length (files w)" by simp
  have "list_all handle_ok (files w)" using assms(1) by (simp add: world_ok_def)
  note move = move_handle [OF p this]
  from assms(1) show ?thesis by (simp add: Position world_ok_def move)
next
  case (Proc_write ubuf count)
  have hs: "list_all handle_ok (files w)" using assms(1) by (simp add: world_ok_def)
  show ?thesis
    using mtcadummy_proc_write_refines [OF world_okD(1) [OF assms(1)], of K ubuf count]
    by (auto simp: Proc_write wp call_on_switches_def frame_def intro!: world_ok_call(2) [OF assms(1)] hs
        elim!: ensures_mono)
next
  case (Proc_show d)
  have hs: "list_all handle_ok (files w)" using assms(1) by (simp add: world_ok_def)
  from Proc_show assms(2) have "d < MTCADUMMY_NR_DEVS" by simp
  from show_call.still [OF world_okD(1) [OF assms(1)], of "(K, d)"] this show ?thesis
    by (auto simp: Proc_show wp case_prod_beta harmless_def frame_def intro!: world_ok_call(2) [OF assms(1)] hs
        elim!: ensures_mono)
next
  case (User m)
  have "frame (User m) w (w\<lparr>kern := (kern w)\<lparr>umem := m\<rparr>\<rparr>)"
    by (simp add: frame_def regs_def dma_def)
  with assms(1) show ?thesis
    by (simp add: User world_ok_def idle_def live_def disciplined_def wf_sys_def ops_at_def regs_def dma_def)
qed

section \<open>Every reachable world\<close>

lemma loaded_world_ok:
  assumes "loaded K s t"
  shows "world_ok K \<lparr>kern = start_log t, files = []\<rparr>"
proof -
  have "cdev_ops (devs t ! d) = file_ops_of d \<and> inUse (devs t ! d) = 0" if "d < MTCADUMMY_NR_DEVS" for d
  proof -
    have "devs t ! d = fresh_dev K d (systemBar (devs t ! d)) (dmaBar (devs t ! d))"
      using assms that by (simp add: loaded_def)
    then have "cdev_ops (devs t ! d) = cdev_ops (fresh_dev K d (systemBar (devs t ! d)) (dmaBar (devs t ! d)))"
      "inUse (devs t ! d) = inUse (fresh_dev K d (systemBar (devs t ! d)) (dmaBar (devs t ! d)))" by metis+
    then show ?thesis by (simp add: fresh_dev_def)
  qed
  with assms show ?thesis by (simp add: world_ok_def loaded_def open_count_def ops_at_def)
qed

lemma reachable_world_ok:
  assumes "reachable K s w" and "kmalloc_ok K" and "uaccess_ok K" and "held s = {}" and "registered s = {}"
  shows "world_ok K w"
  using assms(1)
proof induction
  case (load t)
  with mtcaDummy_init_module_refines [OF assms(2,4,5)] have "loaded K s t" by simp
  then show ?case by (rule loaded_world_ok)
next
  case (call w c r w')
  from call.hyps(2) have "permitted K c w" "exec_call K c w = Some (r, w')" by (auto elim: stepE)
  with exec_call_ok [OF call.IH _ assms(3), of c] show ?case by simp
qed

section \<open>The reference machine is loaded\<close>

definition ref_unloaded :: sys where
  "ref_unloaded =
    \<lparr>devs = [], control = no_errors, heap = Map.empty, umem = (\<lambda>_. 0), held = {}, log = [],
     tick = 0, registered = {}\<rparr>"

definition ref_loading :: "nat \<Rightarrow> sys" where
  "ref_loading i =
    \<lparr>devs = map (\<lambda>d. fresh_dev ref_kernel d (2 * d + 1) (2 * d + 2)) [0..<i] @
       replicate (MTCADUMMY_NR_DEVS - i) zero_dev,
     control = no_errors,
     heap = (\<lambda>p. if 2 * i < p then None else ref_heap p),
     umem = (\<lambda>_. 0), held = {},
     log = concat (map (\<lambda>d. replicate 7 (Access (2 * d + 1))) [0..<i]),
     tick = 2 * i,
     registered = resources ref_kernel 0 i\<rparr>"

lemma ref_kmalloc:
  "heap s (Suc (tick s)) = None \<Longrightarrow>
    kmalloc ref_kernel n s = Some (Suc (tick s), s\<lparr>tick := Suc (tick s),
      heap := (heap s)(Suc (tick s) \<mapsto> replicate (n div 4) 0xDEADBEEF)\<rparr>)"
  by (simp add: kmalloc_def ref_kernel_def NULL_def)

lemma ref_publish:
  assumes "Cdev i \<notin> registered s" and "DevNode i \<notin> registered s"
  shows "publish ref_kernel i s =
    Some (0, s\<lparr>registered := insert (DevNode i) (insert (Cdev i) (registered s))\<rparr>)"
  using assms
  by (simp add: publish_def cdev_add_def device_create_def acquire_def ref_kernel_def)

lemma ref_init_body:
  assumes "i < MTCADUMMY_NR_DEVS"
  shows "init_body ref_kernel i (ref_loading i) = Some (0, ref_loading (Suc i))"
proof -
  let ?s = "ref_loading i" and ?p = "Suc (2 * i)" and ?q = "Suc (Suc (2 * i))"
  have i: "i < 7" using assms by (simp add: size_defs)
  have fields: "tick ?s = 2 * i" "heap ?s ?p = None" "registered ?s = resources ref_kernel 0 i"
    "i < length (devs ?s)" "devs ?s ! i = zero_dev"
    using i by (auto simp: ref_loading_def size_defs nth_append)
  have ds: "(devs ?s)[i := fresh_dev ref_kernel i ?p ?q] = devs (ref_loading (Suc i))"
  proof -
    have "replicate (7 - i) zero_dev = zero_dev # replicate (6 - i) zero_dev"
      using i by (cases "7 - i") (auto simp: Suc_diff_le)
    then show ?thesis using i by (simp add: ref_loading_def size_defs list_update_append)
  qed
  have hp: "(heap ?s)(?p \<mapsto> initial_regs ref_kernel, ?q \<mapsto> replicate DMA_WORDS 0) = heap (ref_loading (Suc i))"
    using i by (auto simp: ref_loading_def ref_heap_def NULL_def fun_eq_iff less_Suc_eq)
  have rs: "insert (DevNode i) (insert (Cdev i) (insert (MutexInit i) (resources ref_kernel 0 i))) =
      resources ref_kernel 0 (Suc i)"
    by (auto simp: resources_extend ref_kernel_def)
  let ?t = "?s\<lparr>tick := ?p, devs := (devs ?s)[i := zero_dev\<lparr>systemBar := ?p\<rparr>],
    heap := (heap ?s)(?p \<mapsto> replicate MTCADUMMY_N_REGISTERS 0)\<rparr>"
  have one: "init_body ref_kernel i ?s = with_dma_bar ref_kernel i ?p ?t"
    using fields by (simp add: init_body_halves ref_kmalloc set_dev_def memset_0_def NULL_def)
  have "heap ?t ?q = None" using fields by (simp add: ref_loading_def)
  then have "kmalloc ref_kernel MTCADUMMY_DMA_SIZE ?t = Some (?q, ?t\<lparr>tick := ?q,
      heap := (heap ?t)(?q \<mapsto> replicate DMA_WORDS 0xDEADBEEF)\<rparr>)"
    by (simp add: ref_kmalloc DMA_WORDS_def)
  then have two: "with_dma_bar ref_kernel i ?p ?t =
      Some (0, ?s\<lparr>tick := ?q, heap := (heap ?s)(?p \<mapsto> initial_regs ref_kernel, ?q \<mapsto> replicate DMA_WORDS 0),
        log := log ?s @ replicate 7 (Access ?p), registered := resources ref_kernel 0 (Suc i),
        devs := (devs ?s)[i := fresh_dev ref_kernel i ?p ?q]\<rparr>)"
    using fields rs
    by (simp add: with_dma_bar_def set_dev_def memset_0_def NULL_def initialiseSystemBar_eq acquire_def
        ref_publish DMA_WORDS_def [symmetric] fresh_dev_def zero_dev_def mtcaDummyMinorNr_def fun_upd_twist)
  have three: "?s\<lparr>tick := ?q, heap := (heap ?s)(?p \<mapsto> initial_regs ref_kernel, ?q \<mapsto> replicate DMA_WORDS 0),
      log := log ?s @ replicate 7 (Access ?p), registered := resources ref_kernel 0 (Suc i),
      devs := (devs ?s)[i := fresh_dev ref_kernel i ?p ?q]\<rparr> = ref_loading (Suc i)"
    unfolding hp ds by (simp add: ref_loading_def)
  show ?thesis unfolding one two three by (rule refl)
qed

definition ref_loaded :: sys where
  "ref_loaded = (ref_loading MTCADUMMY_NR_DEVS)\<lparr>registered :=
     module_resources ref_kernel\<rparr>"

lemma ref_init: "mtcaDummy_init_module ref_kernel ref_unloaded = Some (0, ref_loaded)"
proof -
  let ?I = "\<lambda>i s. s = ref_loading i"
  have body: "loop_body (init_body ref_kernel) MTCADUMMY_NR_DEVS ?I (\<lambda>_ _. False)"
    by unfold_locales (simp add: ref_init_body)
  have start: "ref_unloaded\<lparr>registered := {DevClass, ChrdevRegion},
      devs := replicate MTCADUMMY_NR_DEVS zero_dev\<rparr> = ref_loading 0"
    by (auto simp: ref_unloaded_def ref_loading_def resources_def ref_heap_def NULL_def fun_eq_iff)
  from loop_body.loop_total [OF body refl] have
    "for_loop (init_body ref_kernel) 0 MTCADUMMY_NR_DEVS (ref_loading 0) =
      Some (0, ref_loading MTCADUMMY_NR_DEVS)"
    by (auto simp: ensures_iff split: if_splits)
  moreover have "k_alloc_chrdev_region ref_kernel = 0" "k_class_create_ok ref_kernel"
    "registered ref_unloaded = {}" "registered (ref_loading n) = resources ref_kernel 0 n" for n
    by (simp_all add: ref_kernel_def ref_unloaded_def ref_loading_def)
  ultimately show ?thesis
    by (simp add: mtcaDummy_init_module_def alloc_chrdev_region_def class_create_def acquire_def start
        create_proc_run module_resources_def ref_loaded_def)
qed

definition ref_world :: world where
  "ref_world = \<lparr>kern = start_log ref_loaded, files = []\<rparr>"

lemma ref_reachable: "reachable ref_kernel ref_unloaded ref_world"
  unfolding ref_world_def by (rule reachable.load [OF ref_init])

lemma ref_unloaded_simps [simp]: "held ref_unloaded = {}" "registered ref_unloaded = {}"
  by (simp_all add: ref_unloaded_def)

lemma ref_world_ok: "world_ok ref_kernel ref_world"
  by (rule reachable_world_ok [OF ref_reachable]) simp_all

end
