(* ===== verification/Transfer_Properties.thy ===== *)
theory Transfer_Properties
  imports Ioctl No_Struct_Io
begin

text \<open>
  The properties of opening, closing, reading, writing and controlling a device, each with
  an application to the reference machine.
\<close>

section \<open>Transfers with a structure\<close>

text \<open>
  C1. The write handler, on every path: the early returns of the entry (signal, error
  switch), a buffer that is too small or cannot be read, every transfer mode, every bar and
  offset, and the action of the written register. It has a defined result, gives both
  mutexes back and changes nothing but the bars of its device, as \<open>spec_write\<close> says.
\<close>

theorem struct_write_contract:
  assumes "idle s" and "private_data filp = Some d" and "d < MTCADUMMY_NR_DEVS"
  shows "ensures (mtcaDummy_write K filp buf count s)
    (\<lambda>r t. call_on d s t \<and> umem t = umem s \<and>
      (r, regs t d, dma t d) =
        (case entry_gate K (write_error (control s)) d (tick s) of
           Some e \<Rightarrow> (e, regs s d, dma s d)
         | None \<Rightarrow>
            (case read_request K buf s of (req, missing) \<Rightarrow>
              if unat count < sizeof_device_rw \<or> missing \<noteq> 0 \<or> mode_rw req \<noteq> RW_D32
              then (- EFAULT, regs s d, dma s d)
              else case spec_write K (k_lock K (tick s + 3) ControlMutex \<noteq> 0)
                     (spi_error (control s)) (barx_rw req) (offset_rw req) (data_rw req)
                     (regs s d) (dma s d) of
                (e, rs, ds) \<Rightarrow> (if e = 0 then int sizeof_device_rw else e, rs, ds))))"
  by (rule mtcaDummy_write_refines [OF assms])

theorem struct_write_contract_witness:
  "\<exists>t. mtcaDummy_write ref_kernel (opened 2) 0 24 (ask (request RW_D32 0 0xC 42 0) ref_sys) =
      Some (24, t) \<and> regs t 2 = (initial_regs ref_kernel)[3 := 42]"
proof -
  have two: "2 < MTCADUMMY_NR_DEVS" by (simp add: size_defs)
  have "idle (ask (request RW_D32 0 0xC 42 0) ref_sys)" by simp
  from struct_write_contract [OF this opened_simps two, of ref_kernel 0 24] show ?thesis
    using two by (auto simp: ensures_iff sizeof_device_rw_def rw_mode_defs ref_eval REG_def unat_div)
qed

text \<open>
  C2. The read handler, on every path: which bytes reach the user for which request, the
  value it returns, and that it changes no bar. The request is read before it is
  interpreted. The only read without a defined result is the DMA read that gets as far as
  the copy with an offset and a size whose 32 bit sum wraps around to a number within the
  area: it copies from outside the DMA area.
\<close>

theorem struct_read_contract:
  assumes "idle s" and "private_data filp = Some d" and "d < MTCADUMMY_NR_DEVS"
  shows "if read_escapes K d buf count s then mtcaDummy_read K filp buf count s = None
    else ensures (mtcaDummy_read K filp buf count s)
    (\<lambda>r t. call_on d s t \<and> regs t d = regs s d \<and> dma t d = dma s d \<and>
      (r, umem t) =
        (case entry_gate K (read_error (control s)) d (tick s) of
           Some e \<Rightarrow> (e, umem s)
         | None \<Rightarrow>
            (case read_request K buf s of (req, missing) \<Rightarrow>
              if unat count < sizeof_device_rw \<or> missing \<noteq> 0 then (- EFAULT, umem s)
              else send_reply K buf s (spec_reply K (of_nat d) req (regs s d) (dma s d)))))"
  by (rule if_either [OF mtcaDummy_read_escapes [OF assms] mtcaDummy_read_refines [OF assms]])

theorem struct_read_contract_witness:
  "\<exists>t. mtcaDummy_read ref_kernel (opened 1) 0 24 (ask (request RW_D32 0 0x3C 0 0) ref_sys) =
      Some (24, t) \<and>
    umem_read (umem t) 0 24 = encode_device_rw (request RW_D32 0 0x3C MTCADUMMY_DMMY_AS_ASCII 0)"
proof -
  let ?s = "ask (request RW_D32 0 0x3C 0 0) ref_sys"
  let ?bs = "encode_device_rw (request RW_D32 0 0x3C MTCADUMMY_DMMY_AS_ASCII 0)"
  have one: "1 < MTCADUMMY_NR_DEVS" by (simp add: size_defs)
  have i: "idle ?s" by simp
  have inside: "\<not> read_escapes ref_kernel 1 0 24 ?s"
    by (rule not_escaping) (simp add: rw_mode_defs)
  have sp: "spec_read 0 0x3C (initial_regs ref_kernel) (replicate DMA_WORDS 0) = Inr MTCADUMMY_DMMY_AS_ASCII"
    by (simp add: spec_read_def bar_words_def valid_offset_def REG_def unat_div ref_regs_nth register_defs
        size_defs)
  have u: "umem_read (umem_write (umem ?s) 0 ?bs) 0 24 = ?bs"
    using umem_read_write [of ?bs "umem ?s" 0] by (simp add: sizeof_device_rw_def)
  from struct_read_contract [OF i opened_simps one, of ref_kernel 0 24] show ?thesis
    using one sp u inside
    by (auto simp: ensures_iff sizeof_device_rw_def send_reply_def spec_reply_def rw_mode_defs)
qed

text \<open>
  C13. Write, then read: when a write of a word has returned the size of the structure, a
  read of the same word through the same device that succeeds gives exactly the written
  value, in whatever buffer the second request stands, unless the word is one of the three
  read-only registers.
\<close>

theorem struct_write_read:
  assumes "idle s" and "private_data filp = Some d" and "d < MTCADUMMY_NR_DEVS" and "uaccess_ok K"
    and "buffer_holds (umem s) buf req"
    and "mtcaDummy_write K filp buf count s = Some (24, t)"
    and "buffer_holds m buf' req'" and "mode_rw req' = RW_D32"
    and "barx_rw req' = barx_rw req" and "offset_rw req' = offset_rw req"
    and "barx_rw req = 0 \<longrightarrow> offset_rw req \<notin>
      {MTCADUMMY_WORD_FIRMWARE, MTCADUMMY_WORD_COMPILATION, MTCADUMMY_WORD_DUMMY}"
    and "mtcaDummy_read K filp buf' count' (t\<lparr>umem := m\<rparr>) = Some (24, u)"
  shows "buffer_holds (umem u) buf' (req'\<lparr>data_rw := data_rw req\<rparr>)"
proof -
  note w = write_returned [OF assms(1-6)]
  obtain ws where ws: "bar_words (barx_rw req) (regs s d) (dma s d) = Some ws"
    "valid_offset (offset_rw req) ws" using w(3) by auto
  have i: "idle (t\<lparr>umem := m\<rparr>)" "regs (t\<lparr>umem := m\<rparr>) d = regs t d" "dma (t\<lparr>umem := m\<rparr>) d = dma t d"
    using w(1) by (auto simp: call_on_def idle_def live_def disciplined_def wf_sys_def regs_def dma_def)
  obtain v where v: "spec_read (barx_rw req) (offset_rw req) (regs t d) (dma t d) = Inr v"
    "buffer_holds (umem u) buf' (req'\<lparr>data_rw := v\<rparr>)"
    using read_returned(4) [OF i(1) assms(2,3,4) _ assms(8,12)] assms(7,9,10) i(2,3) by auto
  have "v = data_rw req"
    using v(1) by (rule spec_write_then_read [OF w(4) ws(2,1)]) (use assms(11) in blast)
  with v(2) show ?thesis by simp
qed

theorem struct_write_read_witness:
  "\<exists>t u. mtcaDummy_write ref_kernel (opened 3) 0 24 (ask (request RW_D32 2 8 42 0) ref_sys) = Some (24, t) \<and>
    mtcaDummy_read ref_kernel (opened 3) 0 24 (ask (request RW_D32 2 8 0 0) t) = Some (24, u) \<and>
    buffer_holds (umem u) 0 (request RW_D32 2 8 42 0)"
proof -
  have three: "3 < MTCADUMMY_NR_DEVS" by (simp add: size_defs)
  have sp: "spec_write ref_kernel False (spi_error (control ref_sys)) 2 8 42 (regs ref_sys 3) (dma ref_sys 3) =
      (0, regs ref_sys 3, (dma ref_sys 3)[2 := 42])"
    using three by (simp add: ref_eval REG_def unat_div)
  obtain t where t: "mtcaDummy_write ref_kernel (opened 3) 0 24 (ask (request RW_D32 2 8 42 0) ref_sys) = Some (24, t)"
    "dma t 3 = (dma ref_sys 3)[2 := 42]" "call_on 3 (ask (request RW_D32 2 8 42 0) ref_sys) t"
    by (rule ref_write [OF ref_idle three _ sp]) simp_all
  have ti: "idle t" "\<not> read_error (control t)" using t(3) by (simp_all add: call_on_def)
  have "spec_read 2 8 (regs t 3) (dma t 3) = Inr 42"
    using t(2) three by (simp add: ref_eval REG_def unat_div)
  then obtain u where u: "mtcaDummy_read ref_kernel (opened 3) 0 24 (ask (request RW_D32 2 8 0 0) t) = Some (24, u)"
    by (rule ref_read [OF ti(1) three ti(2)])
  have a: "t\<lparr>umem := umem (ask (request RW_D32 2 8 0 0) t)\<rparr> = ask (request RW_D32 2 8 0 0) t"
    by (simp add: ask_def with_umem_def)
  have "buffer_holds (umem u) 0 ((request RW_D32 2 8 0 0)\<lparr>data_rw := data_rw (request RW_D32 2 8 42 0)\<rparr>)"
    by (rule struct_write_read [OF _ opened_simps three ref_uaccess_ok ask_holds t(1) ask_holds,
        where s1 = t and count' = 24]) (simp_all add: u a)
  with t(1) u show ?thesis by auto
qed

section \<open>The registers with an action\<close>

lemma valid_register:
  "length rs = MTCADUMMY_N_REGISTERS \<Longrightarrow> off \<in> {MTCADUMMY_WORD_FIRMWARE,
    MTCADUMMY_WORD_COMPILATION, MTCADUMMY_WORD_DUMMY, MTCADUMMY_WORD_CLK_RST,
    MTCADUMMY_WORD_ADC_ENA, MTCADUMMY_BROKEN_REGISTER, MTCADUMMY_BROKEN_WRITE,
    MTCADUMMY_WORD_SPI_WRITE} \<Longrightarrow> valid_offset off rs"
  by (auto simp: valid_offset_def register_defs size_defs)

lemma valid_register_idle:
  assumes "idle s" and "d < MTCADUMMY_NR_DEVS"
    and "off \<in> {MTCADUMMY_WORD_FIRMWARE, MTCADUMMY_WORD_COMPILATION, MTCADUMMY_WORD_DUMMY,
      MTCADUMMY_WORD_CLK_RST, MTCADUMMY_WORD_ADC_ENA, MTCADUMMY_BROKEN_REGISTER,
      MTCADUMMY_BROKEN_WRITE, MTCADUMMY_WORD_SPI_WRITE}"
  shows "valid_offset off (regs s d)"
  using assms by (intro valid_register) (simp_all add: idle_def live_def wf_length_regs)

text \<open>What a write to the system bar that returned its full length has done to the bars.\<close>

lemma register_written:
  assumes "idle s" "private_data filp = Some d" "d < MTCADUMMY_NR_DEVS" "uaccess_ok K"
    and "buffer_holds (umem s) buf req" and "mtcaDummy_write K filp buf count s = Some (24, t)"
    and "barx_rw req = 0"
  shows "spec_action K (spi_error (control s)) (offset_rw req)
      ((regs s d)[REG (offset_rw req) := data_rw req]) (dma s d) = (0, regs t d, dma t d)"
    and "length (regs s d) = MTCADUMMY_N_REGISTERS" and "length (dma s d) = DMA_WORDS"
proof -
  note w = write_returned [OF assms(1-6)]
  show "spec_action K (spi_error (control s)) (offset_rw req)
      ((regs s d)[REG (offset_rw req) := data_rw req]) (dma s d) = (0, regs t d, dma t d)"
    using w(3,4) assms(7)
    by (auto simp: spec_write_def bar_words_def errno_defs split: if_splits prod.splits)
  show "length (regs s d) = MTCADUMMY_N_REGISTERS" "length (dma s d) = DMA_WORDS"
    using assms(1,3) by (simp_all add: idle_def live_def wf_length_regs wf_length_dma)
qed

text \<open>
  Read-only registers: after a successful write to one of them the register holds its
  fixed value (the version of the driver, or the word \<open>DMMY\<close>), whatever was written and
  whatever it held before, and nothing else has changed.
\<close>

theorem read_only_registers:
  assumes "idle s" and "private_data filp = Some d" and "d < MTCADUMMY_NR_DEVS" and "uaccess_ok K"
    and "buffer_holds (umem s) buf req" and "mtcaDummy_write K filp buf count s = Some (24, t)"
    and "barx_rw req = 0"
    and "(offset_rw req, fixed) \<in> {(MTCADUMMY_WORD_FIRMWARE, VERSION_MAJ K),
      (MTCADUMMY_WORD_COMPILATION, VERSION_MIN K), (MTCADUMMY_WORD_DUMMY, MTCADUMMY_DMMY_AS_ASCII)}"
  shows "regs t d = (regs s d)[REG (offset_rw req) := fixed] \<and> dma t d = dma s d"
  using register_written [OF assms(1-7)] assms(8)
  by (auto simp: spec_action_def register_defs REG_def unat_div)

theorem read_only_registers_witness:
  "\<exists>t. mtcaDummy_write ref_kernel (opened 0) 0 24 (ask (request RW_D32 0 0x3C 7 0) ref_sys) = Some (24, t) \<and>
    regs t 0 = (initial_regs ref_kernel)[15 := MTCADUMMY_DMMY_AS_ASCII]"
proof -
  have z: "0 < MTCADUMMY_NR_DEVS" by (simp add: size_defs)
  let ?s = "ask (request RW_D32 0 0x3C 7 0) ref_sys"
  obtain rs ds where sp: "spec_write ref_kernel False (spi_error (control ref_sys)) 0 0x3C 7
      (regs ref_sys 0) (dma ref_sys 0) = (0, rs, ds)"
    using z by (simp add: ref_eval REG_def unat_div)
  then obtain t where t: "mtcaDummy_write ref_kernel (opened 0) 0 24 ?s = Some (24, t)"
    by (rule ref_write [OF ref_idle z, rotated]) simp_all
  have "regs t 0 = (regs ?s 0)[REG (offset_rw (request RW_D32 0 0x3C 7 0)) := MTCADUMMY_DMMY_AS_ASCII]"
    by (rule read_only_registers [THEN conjunct1, OF _ opened_simps z ref_uaccess_ok ask_holds t])
      (simp_all add: register_defs)
  with t z show ?thesis by (auto simp: REG_def unat_div)
qed

text \<open>
  C28. The protection of a read-only register is lost when the attempt to take the control
  mutex inside the action is interrupted: the call returns \<open>-EIO\<close>, and the value written by
  the user stays in the register.
\<close>

theorem read_only_lost_on_signal:
  assumes "idle s" and "private_data filp = Some d" and "d < MTCADUMMY_NR_DEVS"
    and "entry_gate K (write_error (control s)) d (tick s) = None"
    and "k_lock K (tick s + 3) ControlMutex \<noteq> 0"
    and "sizeof_device_rw \<le> unat count" and "read_request K buf s = (req, 0)"
    and "mode_rw req = RW_D32" and "barx_rw req = 0"
    and "offset_rw req \<in> {MTCADUMMY_WORD_FIRMWARE, MTCADUMMY_WORD_COMPILATION, MTCADUMMY_WORD_DUMMY}"
  shows "ensures (mtcaDummy_write K filp buf count s)
    (\<lambda>r t. r = - EIO \<and> regs t d = (regs s d)[REG (offset_rw req) := data_rw req])"
proof -
  have "valid_offset (offset_rw req) (regs s d)"
    by (rule valid_register_idle [OF assms(1,3)]) (use assms(10) in auto)
  then have "spec_write K True (spi_error (control s)) (barx_rw req) (offset_rw req) (data_rw req)
      (regs s d) (dma s d) = (- EIO, (regs s d)[REG (offset_rw req) := data_rw req], dma s d)"
    using assms(9) by (simp add: spec_write_def bar_words_def)
  then show ?thesis
    using assms(4-9) by (auto intro: ensures_mono [OF mtcaDummy_write_refines [OF assms(1-3)]]
        simp: add.commute)
qed

text \<open>A kernel that interrupts every attempt after the first two.\<close>

definition late_signal :: kernel where
  "late_signal = ref_kernel\<lparr>k_lock := (\<lambda>t _. if t < 2 then 0 else - 4)\<rparr>"

theorem read_only_lost_on_signal_witness:
  "\<exists>t. mtcaDummy_write late_signal (opened 0) 0 24 (ask (request RW_D32 0 0x3C 7 0) ref_sys) = Some (- EIO, t) \<and>
    regs t 0 ! 15 = 7"
proof -
  have z: "0 < MTCADUMMY_NR_DEVS" by (simp add: size_defs)
  let ?s = "ask (request RW_D32 0 0x3C 7 0) ref_sys"
  have i: "idle ?s" by simp
  have "k_copy_from_user late_signal = k_copy_from_user ref_kernel" by (simp add: late_signal_def)
  then have rq: "read_request late_signal 0 ?s = (request RW_D32 0 0x3C 7 0, 0)"
    using ref_read_request [of "request RW_D32 0 0x3C 7 0" ref_sys] by (simp add: read_request_def)
  have "ensures (mtcaDummy_write late_signal (opened 0) 0 24 ?s) (\<lambda>r t. r = - EIO \<and>
      regs t 0 = (regs ?s 0)[REG (offset_rw (request RW_D32 0 0x3C 7 0)) := data_rw (request RW_D32 0 0x3C 7 0)])"
    by (rule read_only_lost_on_signal [OF i opened_simps z _ _ _ rq])
      (simp_all add: entry_gate_def late_signal_def register_defs sizeof_device_rw_def)
  then show ?thesis using z
    by (auto simp: ensures_iff REG_def unat_div initial_regs_def size_defs)
qed

text \<open>
  C26. The SPI handshake: a successful write to the SPI register copies the value to the
  answer register and acknowledges it, if the user has requested the synchronisation and
  no SPI error is switched on; otherwise it sets the error code and leaves the answer alone.
\<close>

theorem spi_handshake:
  assumes "idle s" and "private_data filp = Some d" and "d < MTCADUMMY_NR_DEVS" and "uaccess_ok K"
    and "buffer_holds (umem s) buf req" and "mtcaDummy_write K filp buf count s = Some (24, t)"
    and "barx_rw req = 0" and "offset_rw req = MTCADUMMY_WORD_SPI_WRITE"
  shows "regs t d =
      (if regs s d ! 22 = MTCADUMMY_SPI_SYNC_REQUESTED \<and> \<not> spi_error (control s)
       then (regs s d)[20 := data_rw req, 21 := data_rw req, 22 := MTCADUMMY_SPI_SYNC_OK]
       else (regs s d)[20 := data_rw req, 22 := MTCADUMMY_SPI_SYNC_ERROR]) \<and> dma t d = dma s d"
  using register_written [OF assms(1-7)] assms(8)
  by (auto simp: spec_action_def register_defs REG_def unat_div size_defs)

theorem spi_handshake_witness:
  "\<exists>s t u. mtcaDummy_write ref_kernel (opened 0) 0 24 (ask (request RW_D32 0 0x58 0xFF 0) ref_sys) = Some (24, s) \<and>
    mtcaDummy_write ref_kernel (opened 0) 0 24 (ask (request RW_D32 0 0x50 5 0) s) = Some (24, t) \<and>
    regs t 0 ! 21 = 5 \<and> regs t 0 ! 22 = MTCADUMMY_SPI_SYNC_OK \<and>
    mtcaDummy_write ref_kernel (opened 0) 0 24 (ask (request RW_D32 0 0x50 6 0) t) = Some (24, u) \<and>
    regs u 0 ! 21 = 5 \<and> regs u 0 ! 22 = MTCADUMMY_SPI_SYNC_ERROR"
proof -
  have z: "0 < MTCADUMMY_NR_DEVS" by (simp add: size_defs)
  have "spec_write ref_kernel False (spi_error (control ref_sys)) 0 0x58 0xFF (regs ref_sys 0) (dma ref_sys 0) =
      (0, (regs ref_sys 0)[22 := 0xFF], dma ref_sys 0)"
    using z by (simp add: ref_eval REG_def unat_div)
  then obtain s where s: "mtcaDummy_write ref_kernel (opened 0) 0 24 (ask (request RW_D32 0 0x58 0xFF 0) ref_sys) = Some (24, s)"
    "regs s 0 = (regs ref_sys 0)[22 := 0xFF]" "call_on 0 (ask (request RW_D32 0 0x58 0xFF 0) ref_sys) s"
    by (rule ref_write [OF ref_idle z, rotated]) simp_all
  have si: "idle s" "control s = no_errors" using s(3) by (simp_all add: call_on_def)
  obtain rs ds where "spec_write ref_kernel False (spi_error (control s)) 0 0x50 5 (regs s 0) (dma s 0) = (0, rs, ds)"
    using z by (simp add: s(2) ref_eval REG_def unat_div)
  then obtain t where t: "mtcaDummy_write ref_kernel (opened 0) 0 24 (ask (request RW_D32 0 0x50 5 0) s) = Some (24, t)"
    "call_on 0 (ask (request RW_D32 0 0x50 5 0) s) t"
    by (rule ref_write [OF si(1) z, rotated]) (simp_all add: si)
  have ti: "idle t" "control t = no_errors" using t(2) si by (simp_all add: call_on_def)
  have rt: "regs t 0 = (regs s 0)[20 := 5, 21 := 5, 22 := MTCADUMMY_SPI_SYNC_OK]"
    using spi_handshake [OF _ opened_simps z ref_uaccess_ok ask_holds t(1)] si s(2) z
    by (simp add: register_defs MTCADUMMY_SPI_SYNC_REQUESTED_def initial_regs_def size_defs)
  obtain rs ds where "spec_write ref_kernel False (spi_error (control t)) 0 0x50 6 (regs t 0) (dma t 0) = (0, rs, ds)"
    using z by (simp add: rt s(2) ref_eval REG_def unat_div)
  then obtain u where u: "mtcaDummy_write ref_kernel (opened 0) 0 24 (ask (request RW_D32 0 0x50 6 0) t) = Some (24, u)"
    by (rule ref_write [OF ti(1) z, rotated]) (simp_all add: ti)
  have ru: "regs u 0 = (regs t 0)[20 := 6, 22 := MTCADUMMY_SPI_SYNC_ERROR]"
    using spi_handshake [OF _ opened_simps z ref_uaccess_ok ask_holds u] ti rt s(2) z
    by (simp add: register_defs MTCADUMMY_SPI_SYNC_REQUESTED_def MTCADUMMY_SPI_SYNC_OK_def
        initial_regs_def size_defs)
  have "regs t 0 ! 21 = 5" "regs t 0 ! 22 = MTCADUMMY_SPI_SYNC_OK" by (simp_all add: rt s(2) z nth_list_update)
  moreover from this have "regs u 0 ! 21 = 5" "regs u 0 ! 22 = MTCADUMMY_SPI_SYNC_ERROR"
    by (simp_all add: ru rt s(2) z nth_list_update)
  ultimately show ?thesis using s(1) t(1) u by blast
qed

text \<open>
  The clock reset: a successful write of a value other than 0 to the reset register
  clears the two counters and the four multiplexers; writing 0 does nothing. No other
  register changes, and the DMA area does not.
\<close>

theorem clock_reset:
  assumes "idle s" and "private_data filp = Some d" and "d < MTCADUMMY_NR_DEVS" and "uaccess_ok K"
    and "buffer_holds (umem s) buf req" and "mtcaDummy_write K filp buf count s = Some (24, t)"
    and "barx_rw req = 0" and "offset_rw req = MTCADUMMY_WORD_CLK_RST" and "i < MTCADUMMY_N_REGISTERS"
  shows "regs t d ! i =
      (if i = REG MTCADUMMY_WORD_CLK_RST then data_rw req
       else if data_rw req \<noteq> 0 \<and> i \<in> {REG MTCADUMMY_WORD_CLK_CNT_0, REG MTCADUMMY_WORD_CLK_CNT_1,
         REG MTCADUMMY_WORD_CLK_MUX_0, REG MTCADUMMY_WORD_CLK_MUX_1, REG MTCADUMMY_WORD_CLK_MUX_2,
         REG MTCADUMMY_WORD_CLK_MUX_3}
       then 0 else regs s d ! i) \<and> dma t d = dma s d"
proof -
  note w = register_written [OF assms(1-7)]
  have "dma t d = dma s d"
    and e: "regs t d = (if data_rw req = 0 then (regs s d)[16 := data_rw req]
      else clear_clocks ((regs s d)[16 := data_rw req]))"
    using w(1,2) assms(8) by (auto simp: spec_action_def)
  then show ?thesis
    using w(2) assms(9) by (simp add: e clear_clocks_def nth_list_update)
qed

theorem clock_reset_witness:
  "\<exists>t u. mtcaDummy_write ref_kernel (opened 0) 0 24 (ask (request RW_D32 0 0x14 9 0) ref_sys) = Some (24, t) \<and>
    regs t 0 ! 5 = 9 \<and>
    mtcaDummy_write ref_kernel (opened 0) 0 24 (ask (request RW_D32 0 0x40 1 0) t) = Some (24, u) \<and>
    regs u 0 ! 5 = 0"
proof -
  have z: "0 < MTCADUMMY_NR_DEVS" by (simp add: size_defs)
  have "spec_write ref_kernel False (spi_error (control ref_sys)) 0 0x14 9 (regs ref_sys 0) (dma ref_sys 0) =
      (0, (regs ref_sys 0)[5 := 9], dma ref_sys 0)"
    using z by (simp add: ref_eval REG_def unat_div)
  then obtain t where t: "mtcaDummy_write ref_kernel (opened 0) 0 24 (ask (request RW_D32 0 0x14 9 0) ref_sys) = Some (24, t)"
    "regs t 0 = (regs ref_sys 0)[5 := 9]" "call_on 0 (ask (request RW_D32 0 0x14 9 0) ref_sys) t"
    by (rule ref_write [OF ref_idle z, rotated]) simp_all
  have ti: "idle t" "control t = no_errors" using t(3) by (simp_all add: call_on_def)
  obtain rs ds where "spec_write ref_kernel False (spi_error (control t)) 0 0x40 1 (regs t 0) (dma t 0) = (0, rs, ds)"
    using z by (simp add: t(2) ref_eval REG_def unat_div)
  then obtain u where u: "mtcaDummy_write ref_kernel (opened 0) 0 24 (ask (request RW_D32 0 0x40 1 0) t) = Some (24, u)"
    by (rule ref_write [OF ti(1) z, rotated]) (simp_all add: ti)
  have five: "5 < MTCADUMMY_N_REGISTERS" by simp
  have "regs u 0 ! 5 = 0"
    using clock_reset [OF _ opened_simps z ref_uaccess_ok ask_holds u _ _ five] ti
    by (simp add: register_defs REG_def unat_div)
  moreover have "regs t 0 ! 5 = 9" by (simp add: t(2) z)
  ultimately show ?thesis using t(1) u by blast
qed

text \<open>
  C27. Sampling: a successful write of a value other than 0 to the ADC register puts the
  parabola \<open>0, 1, 4, \<dots>, 24 * 24\<close> into the first 25 words of the DMA area, sets the sample
  counter to 25 and clears the reset register; the rest of the DMA area and of the
  registers stays as it was.
\<close>

theorem adc_sampling:
  assumes "idle s" and "private_data filp = Some d" and "d < MTCADUMMY_NR_DEVS" and "uaccess_ok K"
    and "buffer_holds (umem s) buf req" and "mtcaDummy_write K filp buf count s = Some (24, t)"
    and "barx_rw req = 0" and "offset_rw req = MTCADUMMY_WORD_ADC_ENA" and "data_rw req \<noteq> 0"
    and "i < DMA_WORDS"
  shows "dma t d ! i = (if i < 25 then of_nat (i * i) else dma s d ! i) \<and>
    regs t d = (regs s d)[17 := data_rw req, 4 := 25, 16 := 0]"
proof -
  note w = register_written [OF assms(1-7)]
  have "dma t d = parabola (dma s d)" "regs t d = (regs s d)[17 := data_rw req, 4 := 25, 16 := 0]"
    using w(1,2) assms(8,9)
    by (auto simp: spec_action_def MTCADUMMY_WORD_CLK_RST_def MTCADUMMY_WORD_ADC_ENA_def REG_def
        unat_div split: if_splits)
  moreover have "25 \<le> DMA_WORDS" by (simp add: size_defs)
  ultimately show ?thesis
    using assms(10) w(3) by (simp add: parabola_def nSamples_def nth_append)
qed

theorem adc_sampling_witness:
  "\<exists>t. mtcaDummy_write ref_kernel (opened 0) 0 24 (ask (request RW_D32 0 0x44 1 0) ref_sys) = Some (24, t) \<and>
    dma t 0 ! 24 = 576 \<and> dma t 0 ! 25 = 0 \<and> regs t 0 ! 4 = 25"
proof -
  have z: "0 < MTCADUMMY_NR_DEVS" by (simp add: size_defs)
  obtain rs ds where "spec_write ref_kernel False (spi_error (control ref_sys)) 0 0x44 1
      (regs ref_sys 0) (dma ref_sys 0) = (0, rs, ds)"
    using z by (simp add: ref_eval REG_def unat_div)
  then obtain t where t: "mtcaDummy_write ref_kernel (opened 0) 0 24 (ask (request RW_D32 0 0x44 1 0) ref_sys) = Some (24, t)"
    by (rule ref_write [OF ref_idle z, rotated]) simp_all
  have i: "24 < DMA_WORDS" "25 < DMA_WORDS" by (simp_all add: size_defs)
  have "dma t 0 ! 24 = 576 \<and> regs t 0 ! 4 = 25"
    using adc_sampling [OF _ opened_simps z ref_uaccess_ok ask_holds t _ _ _ i(1)] z
    by (simp add: MTCADUMMY_WORD_ADC_ENA_def)
  moreover have "dma t 0 ! 25 = 0"
    using adc_sampling [OF _ opened_simps z ref_uaccess_ok ask_holds t _ _ _ i(2)] z i
    by (simp add: MTCADUMMY_WORD_ADC_ENA_def)
  ultimately show ?thesis using t by blast
qed

text \<open>
  C29. The two registers for testing errors: reading the broken register and writing the
  broken or the write-protected one fail with \<open>-EIO\<close> on a device whose entry lets the call
  in. The failing read changes nothing; the failing write has stored the value all the
  same, and nothing else.
\<close>

theorem broken_registers:
  assumes "idle s" and "private_data filp = Some d" and "d < MTCADUMMY_NR_DEVS"
    and "sizeof_device_rw \<le> unat count" and "read_request K buf s = (req, 0)"
    and "mode_rw req = RW_D32" and "barx_rw req = 0"
  shows "(entry_gate K (read_error (control s)) d (tick s) = None \<and>
      offset_rw req = MTCADUMMY_BROKEN_REGISTER \<longrightarrow>
      ensures (mtcaDummy_read K filp buf count s)
        (\<lambda>r t. r = - EIO \<and> regs t d = regs s d \<and> dma t d = dma s d \<and> umem t = umem s)) \<and>
    (entry_gate K (write_error (control s)) d (tick s) = None \<and>
      offset_rw req \<in> {MTCADUMMY_BROKEN_REGISTER, MTCADUMMY_BROKEN_WRITE} \<longrightarrow>
      ensures (mtcaDummy_write K filp buf count s)
        (\<lambda>r t. r = - EIO \<and> regs t d = (regs s d)[REG (offset_rw req) := data_rw req] \<and>
          dma t d = dma s d))"
proof (intro conjI impI; elim conjE)
  assume "entry_gate K (read_error (control s)) d (tick s) = None"
      "offset_rw req = MTCADUMMY_BROKEN_REGISTER"
  moreover from this have "spec_reply K (of_nat d) req (regs s d) (dma s d) = Inl (- EIO)"
      using assms(6,7) valid_register_idle [OF assms(1,3)] by (simp add: spec_reply_def spec_read_def bar_words_def)
  moreover have "\<not> read_escapes K d buf count s"
    by (rule not_escaping) (use assms(5,6) in \<open>simp add: rw_mode_defs\<close>)
  ultimately show "ensures (mtcaDummy_read K filp buf count s)
        (\<lambda>r t. r = - EIO \<and> regs t d = regs s d \<and> dma t d = dma s d \<and> umem t = umem s)"
      using assms(4-6)
      by (auto intro!: ensures_mono [OF mtcaDummy_read_refines [OF assms(1-3)]]
          simp: send_reply_def)
next
  assume "entry_gate K (write_error (control s)) d (tick s) = None"
    "offset_rw req \<in> {MTCADUMMY_BROKEN_REGISTER, MTCADUMMY_BROKEN_WRITE}"
  moreover from this have "spec_write K i (spi_error (control s)) (barx_rw req) (offset_rw req)
      (data_rw req) (regs s d) (dma s d) =
      (- EIO, (regs s d)[REG (offset_rw req) := data_rw req], dma s d)" for i
    using assms(7) valid_register_idle [OF assms(1,3), of "offset_rw req"]
    by (auto simp: spec_write_def bar_words_def spec_action_def register_defs)
  ultimately show "ensures (mtcaDummy_write K filp buf count s)
      (\<lambda>r t. r = - EIO \<and> regs t d = (regs s d)[REG (offset_rw req) := data_rw req] \<and> dma t d = dma s d)"
    using assms(4-6)
    by (auto intro!: ensures_mono [OF mtcaDummy_write_refines [OF assms(1-3)]])
qed

theorem broken_registers_witness:
  "(\<exists>t. mtcaDummy_read ref_kernel (opened 0) 0 24 (ask (request RW_D32 0 0x48 0 0) ref_sys) = Some (- EIO, t)) \<and>
    (\<exists>t. mtcaDummy_write ref_kernel (opened 0) 0 24 (ask (request RW_D32 0 0x4C 42 0) ref_sys) = Some (- EIO, t) \<and>
      regs t 0 ! 19 = 42)"
proof -
  have z: "0 < MTCADUMMY_NR_DEVS" by (simp add: size_defs)
  have i: "idle (ask r ref_sys)" for r by simp
  have c: "sizeof_device_rw \<le> unat (24 :: u64)" by (simp add: sizeof_device_rw_def)
  have r: "\<exists>t. mtcaDummy_read ref_kernel (opened 0) 0 24 (ask (request RW_D32 0 0x48 0 0) ref_sys) = Some (- EIO, t)"
    using broken_registers [OF i [of "request RW_D32 0 0x48 0 0"] opened_simps z c ref_read_request]
    by (auto simp: ensures_iff register_defs)
  have "\<exists>t. mtcaDummy_write ref_kernel (opened 0) 0 24 (ask (request RW_D32 0 0x4C 42 0) ref_sys) = Some (- EIO, t) \<and>
      regs t 0 = (regs ref_sys 0)[19 := 42]"
    using broken_registers [OF i [of "request RW_D32 0 0x4C 42 0"] opened_simps z c ref_read_request]
    by (auto simp: ensures_iff register_defs REG_def unat_div)
  with r z show ?thesis by (auto simp: size_defs)
qed

definition footprint :: "u32 \<Rightarrow> nat set" where
  "footprint off = {REG off} \<union>
    (if off = MTCADUMMY_WORD_CLK_RST then {4, 5, 8, 9, 10, 11}
     else if off = MTCADUMMY_WORD_ADC_ENA then {4, 16}
     else if off = MTCADUMMY_WORD_SPI_WRITE then {21, 22} else {})"

lemma spec_write_footprint:
  assumes "spec_write K intr spiFail bar off v rs ds = (r, rs', ds')"
  shows "bar = 0 \<Longrightarrow> i \<notin> footprint off \<Longrightarrow> rs' ! i = rs ! i"
    and "bar \<noteq> 0 \<Longrightarrow> rs' = rs"
    and "bar = 0 \<Longrightarrow> off \<noteq> MTCADUMMY_WORD_ADC_ENA \<Longrightarrow> ds' = ds"
    and "bar \<noteq> 0 \<Longrightarrow> i \<noteq> REG off \<Longrightarrow> ds' ! i = ds ! i"
  using assms
  by (auto simp: spec_write_def spec_action_def bar_words_def footprint_def clear_clocks_def
      REG_def unat_div register_defs split: option.splits if_splits)

text \<open>
  The footprint of a write: whatever a write returns, also on the error paths and when
  it is interrupted, the registers that may change are the written one and the targets of
  its action, and the DMA area changes only in a write to it or when sampling is enabled.
\<close>

theorem write_footprint:
  assumes "idle s" and "private_data filp = Some d" and "d < MTCADUMMY_NR_DEVS"
    and "read_request K buf s = (req, missing)"
    and "barx_rw req = 0 \<longrightarrow> i \<notin> footprint (offset_rw req)"
    and "barx_rw req = 0 \<longrightarrow> offset_rw req \<noteq> MTCADUMMY_WORD_ADC_ENA"
    and "barx_rw req = 2 \<longrightarrow> j \<noteq> REG (offset_rw req)"
  shows "ensures (mtcaDummy_write K filp buf count s)
    (\<lambda>r t. regs t d ! i = regs s d ! i \<and> dma t d ! j = dma s d ! j)"
proof (rule ensures_mono [OF mtcaDummy_write_refines [OF assms(1-3)]], unfold assms(4), goal_cases)
  case (1 r t)
  obtain e rs ds where w: "spec_write K (k_lock K (tick s + 3) ControlMutex \<noteq> 0) (spi_error (control s))
      (barx_rw req) (offset_rw req) (data_rw req) (regs s d) (dma s d) = (e, rs, ds)"
    by (metis prod.exhaust)
  have "rs ! i = regs s d ! i \<and> ds ! j = dma s d ! j"
  proof (cases "barx_rw req = 0 \<or> barx_rw req = 2")
    case True
    with spec_write_footprint(1) [OF w, of i] spec_write_footprint(2,3) [OF w]
      spec_write_footprint(4) [OF w, of j] assms(5-7)
    show ?thesis by auto
  next
    case False
    with w show ?thesis by (auto simp: spec_write_def bar_words_def)
  qed
  with 1 w show ?case by (auto split: option.splits if_splits)
qed

theorem write_footprint_witness:
  "\<exists>r t. mtcaDummy_write ref_kernel (opened 0) 0 24 (ask (request RW_D32 0 0x4C 42 0) ref_sys) = Some (r, t) \<and>
    regs t 0 ! 15 = MTCADUMMY_DMMY_AS_ASCII"
proof -
  have z: "0 < MTCADUMMY_NR_DEVS" by (simp add: size_defs)
  have i: "idle (ask (request RW_D32 0 0x4C 42 0) ref_sys)" by simp
  from write_footprint [OF i opened_simps z ref_read_request, of 15 0 24] z show ?thesis
    by (auto simp: ensures_iff footprint_def register_defs REG_def unat_div initial_regs_def size_defs)
qed

text \<open>
  C33. The bound check of a DMA read adds offset and size in 32 bits. A request for which
  the sum wraps around passes the check, and the copy that follows leaves the DMA area:
  the call has no defined result.
\<close>

theorem struct_read_dma_wrap:
  assumes "idle s" and "private_data filp = Some d" and "d < MTCADUMMY_NR_DEVS"
    and "entry_gate K (read_error (control s)) d (tick s) = None"
    and "sizeof_device_rw \<le> unat count" and "read_request K buf s = (req, 0)"
    and "mode_rw req = RW_DMA" and "2 ^ 32 \<le> unat (size_rw req) + unat (offset_rw req)"
    and "unat (size_rw req + offset_rw req) \<le> MTCADUMMY_DMA_SIZE"
  shows "mtcaDummy_read K filp buf count s = None"
  by (rule mtcaDummy_read_dma_wrap [OF assms])

theorem struct_read_dma_wrap_witness:
  "mtcaDummy_read ref_kernel (opened 0) 0 24 (ask (request RW_DMA 2 0xFFFFFFF8 0 16) ref_sys) = None"
proof -
  have z: "0 < MTCADUMMY_NR_DEVS" by (simp add: size_defs)
  have i: "idle (ask (request RW_DMA 2 0xFFFFFFF8 0 16) ref_sys)" by simp
  show ?thesis
    by (rule struct_read_dma_wrap [OF i opened_simps z _ _ ref_read_request])
      (simp_all add: sizeof_device_rw_def size_defs)
qed

section \<open>Transfers without a structure\<close>

text \<open>
  C12. The bounds of a transfer: a request that passes the check is aligned and starts within
  one of the two bars. If the 64 bit sum of offset and count does not wrap around, the
  transfer ends within the bar and has the length that was asked for unless the end of the
  bar cuts it short. If the sum wraps around, the check does not notice: the count is
  truncated to 32 bits, and the transfer goes beyond the end of the bar. Only the limit that
  the kernel sets to the count of a call, far below such a count, keeps it from happening.
\<close>

theorem no_struct_in_bounds:
  assumes "checkAndCalculateTransferInformation (devs s ! d) count v = Inr ti"
    and "idle s" and "d < MTCADUMMY_NR_DEVS"
  shows "\<exists>ws. bar_words (position_bar v) (regs s d) (dma s d) = Some ws \<and>
    heap s (barStart ti) = Some ws \<and>
    unat (ti_offset ti) = unat (position_offset v) \<and> 4 dvd unat (ti_offset ti) \<and>
    4 dvd unat (nBytesToTransfer ti) \<and>
    (if unat (position_offset v) + unat count < 2 ^ 64 then
       unat (ti_offset ti) + unat (nBytesToTransfer ti) \<le> 4 * length ws \<and>
       unat (nBytesToTransfer ti) = min (unat count) (4 * length ws - unat (position_offset v))
     else
       4 * length ws < unat (ti_offset ti) + unat (nBytesToTransfer ti) \<and>
       unat (nBytesToTransfer ti) = unat count mod 2 ^ 32 \<and> MAX_RW_COUNT < unat count)"
proof -
  have wf: "wf_sys s" using assms(2) by (simp add: idle_def live_def)
  note len = wf_length_regs [OF wf assms(3)] wf_length_dma [OF wf assms(3)]
  note heap = wf_system_block [OF wf assms(3)] wf_dma_block [OF wf assms(3)]
  show ?thesis
  proof (cases "unat (position_offset v) + unat count < 2 ^ 64")
    case True
    from check_accepts_sum [OF assms(1) True len] obtain ws where
      ws: "bar_words (ti_bar ti) (regs s d) (dma s d) = Some ws" "ti_bar ti = position_bar v"
        "ti_offset ti = position_offset v"
        "select_bar (devs s ! d) (ti_bar ti) = Some (barStart ti, 4 * length ws)"
        "transfer_ok ti ws (unat count)" by auto
    then have "heap s (barStart ti) = Some ws"
      using heap by (auto simp: select_bar_def elim!: bar_words_cases)
    with ws True show ?thesis by (auto simp: transfer_ok_def min_def)
  next
    case False
    then have "2 ^ 64 \<le> unat (position_offset v) + unat count" by simp
    note wraps = check_wraps [OF assms(1) this len]
    obtain ws where
      ws: "bar_words (position_bar v) (regs s d) (dma s d) = Some ws" "ti_offset ti = position_offset v"
        "select_bar (devs s ! d) (position_bar v) = Some (barStart ti, 4 * length ws)"
        "unat (position_offset v) mod 4 = 0" "unat count mod 4 = 0"
        "unat (nBytesToTransfer ti) = unat count mod 2 ^ 32"
        "4 * length ws < unat (ti_offset ti) + unat (nBytesToTransfer ti)" using wraps by (elim exE conjE)
    then have "heap s (barStart ti) = Some ws"
      using heap by (auto simp: select_bar_def bar_words_def split: if_splits)
    moreover have "4 dvd unat count mod 2 ^ 32" using ws(5) by (intro dvd_mod) (simp_all add: dvd_eq_mod_eq_0)
    moreover have "MAX_RW_COUNT < unat count" using False within_rw_count [of count v] by linarith
    moreover have "4 dvd unat (position_offset v)" using ws(4) by (simp only: dvd_eq_mod_eq_0)
    ultimately show ?thesis
      unfolding if_not_P [OF False] ws(2,6) using ws(1,7) [unfolded ws(2,6)] by blast
  qed
qed

theorem no_struct_in_bounds_witness:
  "\<exists>ti ti'. checkAndCalculateTransferInformation (devs ref_sys ! 6) 100 (position 2 4090) = Inl (- EFAULT) \<and>
    checkAndCalculateTransferInformation (devs ref_sys ! 6) 100 (position 2 4092) = Inr ti \<and>
    unat (nBytesToTransfer ti) = 4 \<and>
    checkAndCalculateTransferInformation (devs ref_sys ! 6) (- 4) (position 2 4) = Inr ti' \<and>
    unat (nBytesToTransfer ti') = 0xFFFFFFFC"
proof -
  have six: "6 < MTCADUMMY_NR_DEVS" by (simp add: size_defs)
  let ?c = "checkAndCalculateTransferInformation (devs ref_sys ! 6) 100"
  have "position 2 4090 mod 4 \<noteq> 0" by (simp add: position_def)
  then have bad: "?c (position 2 4090) = Inl (- EFAULT)"
    by (simp add: checkAndCalculateTransferInformation_def)
  have p: "position_bar (position 2 4092) = 2" "position_offset (position 2 4092) = 4092"
    using position_fields [of 2 4092] by simp_all
  have "position 2 4092 mod 4 = 0" by (simp add: position_def)
  then obtain ti where ti: "?c (position 2 4092) = Inr ti"
    using six by (simp add: check_unfold p ref_dev_def NULL_def size_defs)
  from no_struct_in_bounds [OF ti ref_idle six] have "unat (nBytesToTransfer ti) = 4"
    using six by (auto simp: p bar_words_def size_defs)
  moreover have "position_bar (position 2 4) = 2" "position_offset (position 2 4) = 4"
    using position_fields [of 2 4] by simp_all
  then obtain ti' where ti': "checkAndCalculateTransferInformation (devs ref_sys ! 6) (- 4) (position 2 4) = Inr ti'"
    using six by (simp add: check_unfold ref_dev_def NULL_def size_defs position_def)
  moreover from no_struct_in_bounds [OF ti' ref_idle six] have "unat (nBytesToTransfer ti') = 0xFFFFFFFC"
    using position_fields [of 2 4] by auto
  ultimately show ?thesis using bad ti by blast
qed

text \<open>
  C10. The read handler without a structure: the early returns, a refused position, and the
  transfer itself. A prefix of the words of the bar reaches the user in order, the file
  position moves by as many bytes, and the result tells whether the transfer was complete,
  ended at the broken register, or at an address that cannot be written. The bars do not
  change, and no mutex stays locked.
\<close>

theorem no_struct_read_contract:
  assumes "idle s" and "private_data filp = Some d" and "d < MTCADUMMY_NR_DEVS"
    and "uaccess_ok K" and "unat count \<le> MAX_RW_COUNT"
  shows "ensures (mtcaDummy_read_no_struct K filp buf count f_pos s)
    (\<lambda>(r, f) t. call_on d s t \<and> regs t d = regs s d \<and> dma t d = dma s d \<and>
      (case checkAndCalculateTransferInformation (devs s ! d) count f_pos of
         Inr ti \<Rightarrow>
           (case entry_gate K (read_error (control s)) d (tick s) of
              None \<Rightarrow> \<exists>ws k. bar_words (ti_bar ti) (regs s d) (dma s d) = Some ws \<and>
                read_outcome K (n_words ti) ti buf f_pos ws (umem s) k r f (umem t)
            | Some e \<Rightarrow> r = e \<and> f = f_pos \<and> umem t = umem s)
       | Inl e \<Rightarrow> f = f_pos \<and> umem t = umem s \<and>
           r = (if k_lock K (tick s) ControlMutex \<noteq> 0 then - ERESTARTSYS
                else if read_error (control s) then - EFAULT else e)))"
  by (rule mtcaDummy_read_no_struct_refines [OF assms])

theorem no_struct_read_contract_witness:
  "\<exists>t. mtcaDummy_read_no_struct ref_kernel (opened 6) 0 8 (position 0 0x40) ref_sys =
      Some ((8, position 0 0x40 + 8), t) \<and>
    umem_read (umem t) 0 8 = bytes_of_words [1, 0]"
proof -
  let ?v = "position 0 0x40"
  have six: "6 < MTCADUMMY_NR_DEVS" by (simp add: size_defs)
  have p: "position_bar ?v = 0" "position_offset ?v = 0x40"
    using position_fields [of 0 "0x40"] by simp_all
  have c: "covers ref_sys 6 ?v 8 (initial_regs ref_kernel) 16 2"
    using six by (simp add: covers_def p bar_words_def MAX_RW_COUNT_def size_defs) (simp add: position_def)
  obtain ti where ti: "checkAndCalculateTransferInformation (devs ref_sys ! 6) 8 ?v = Inr ti"
    "ti_bar ti = 0" "first_word ti = 16" "n_words ti = 2"
    using covers_check [OF c ref_idle six] p by metis
  have m: "unat (8 :: u64) \<le> MAX_RW_COUNT" by (simp add: MAX_RW_COUNT_def)
  from no_struct_read_contract [OF ref_idle opened_simps six ref_uaccess_ok m, of 0 ?v] ti
  obtain r f t k where run: "mtcaDummy_read_no_struct ref_kernel (opened 6) 0 8 ?v ref_sys = Some ((r, f), t)"
    and o: "read_outcome ref_kernel 2 ti 0 ?v (initial_regs ref_kernel) (umem ref_sys) k r f (umem t)"
    using six by (auto simp: ensures_iff bar_words_def)
  from quiet_read_outcome [OF ref_quiet o] have "k = 2" "r = 8"
    by (auto simp: broken_word_def ti)
  moreover have "take 2 (drop 16 (initial_regs ref_kernel)) = [1, 0]"
    by (simp add: initial_regs_def size_defs numeral_eq_Suc)
  ultimately show ?thesis using run o by (simp add: read_outcome_def ti)
qed

text \<open>
  C11. The write handler without a structure: the early returns, a refused position, and the
  transfer itself. A prefix of the words of the user buffer is written in order, each with
  its action, and the file position moves by as many bytes; the transfer ends early at a
  word that cannot be copied, whose place in the bar then holds an arbitrary value, or at
  a word whose action fails.
\<close>

theorem no_struct_write_contract:
  assumes "idle s" and "private_data filp = Some d" and "d < MTCADUMMY_NR_DEVS"
    and "uaccess_ok K" and "unat count \<le> MAX_RW_COUNT"
  shows "ensures (mtcaDummy_write_no_struct K filp buf count f_pos s)
    (\<lambda>(r, f) t. call_on d s t \<and> umem t = umem s \<and>
      (case checkAndCalculateTransferInformation (devs s ! d) count f_pos of
         Inr ti \<Rightarrow>
           (case entry_gate K (write_error (control s)) d (tick s) of
              None \<Rightarrow> \<exists>k. write_outcome K d s ti buf f_pos k r f (regs t d) (dma t d)
            | Some e \<Rightarrow> r = e \<and> f = f_pos \<and> regs t d = regs s d \<and> dma t d = dma s d)
       | Inl e \<Rightarrow> f = f_pos \<and> regs t d = regs s d \<and> dma t d = dma s d \<and>
           r = (if k_lock K (tick s) ControlMutex \<noteq> 0 then - ERESTARTSYS
                else if write_error (control s) then - EFAULT else e)))"
  by (rule mtcaDummy_write_no_struct_refines [OF assms])

theorem no_struct_write_contract_witness:
  "\<exists>t. mtcaDummy_write_no_struct ref_kernel (opened 6) 0 8 (position 2 3) ref_sys =
      Some ((- EFAULT, position 2 3), t) \<and> dma t 6 = replicate DMA_WORDS 0"
proof -
  have six: "6 < MTCADUMMY_NR_DEVS" by (simp add: size_defs)
  have m: "unat (8 :: u64) \<le> MAX_RW_COUNT" by (simp add: MAX_RW_COUNT_def)
  have "checkAndCalculateTransferInformation (devs ref_sys ! 6) 8 (position 2 3) = Inl (- EFAULT)"
    by (simp add: checkAndCalculateTransferInformation_def position_def)
  with no_struct_write_contract [OF ref_idle opened_simps six ref_uaccess_ok m, of 0 "position 2 3"] six
  show ?thesis by (auto simp: ensures_iff)
qed

lemma position_word:
  assumes "bar \<in> {0, 2}" and "off mod 4 = 0"
  shows "position_bar (position bar off) = bar" "position_offset (position bar off) = ucast off"
    "position bar off mod 4 = 0" "unat (ucast off div 4 :: u64) = REG off"
  using position_fields [OF assms(1), of off] position_aligned [OF assms(2), of bar]
  by (simp_all add: REG_def unat_div ucast_off)

text \<open>
  C39. On the device without a structure, the protection of a read-only register is lost when
  the value cannot be copied from the user completely: the copy goes straight into the
  register, with zeros for the missing bytes, and the call returns \<open>-EFAULT\<close> before the
  action that would restore the register.
\<close>

theorem read_only_lost_on_fault:
  assumes "idle s" and "private_data filp = Some d" and "d < MTCADUMMY_NR_DEVS" and "uaccess_ok K"
    and "entry_gate K (write_error (control s)) d (tick s) = None"
    and "off \<in> {MTCADUMMY_WORD_FIRMWARE, MTCADUMMY_WORD_COMPILATION, MTCADUMMY_WORD_DUMMY}"
    and "snd (k_copy_from_user K (tick s + 2) (umem s) buf 4) = missing" and "missing \<noteq> 0"
  shows "ensures (mtcaDummy_write_no_struct K filp buf 4 (position 0 off) s)
    (\<lambda>(r, f) t. r = - EFAULT \<and> f = position 0 off \<and> dma t d = dma s d \<and>
      regs t d = (regs s d)[REG off := le32 (umem_read (umem s) buf (4 - missing) @ replicate missing 0)])"
proof -
  let ?e = "entered d s"
  have r: "ready d ?e" "held ?e = {DevMutex d}" using assms by simp_all
  obtain bytes where c: "k_copy_from_user K (Suc (Suc (tick s))) (umem s) buf 4 = (bytes, missing)"
    using assms(7) by (cases "k_copy_from_user K (tick s + 2) (umem s) buf 4") auto
  note bs = uaccess_from(2) [OF assms(4) c]
  have al: "off mod 4 = 0" and reg: "REG off < MTCADUMMY_N_REGISTERS" "\<not> (128 :: u64) < ucast off"
      "\<not> (128 :: u64) < ucast off + 4"
    using assms(6) by (auto simp: register_defs size_defs REG_def)
  note p = position_word [of 0, OF _ al, simplified]
  have wf: "wf_sys s" using assms(1) by (simp add: idle_def live_def)
  note b = wf_bar_not_NULL [OF wf assms(3)]
  let ?ti = "\<lparr>ti_bar = 0, ti_offset = ucast off, barSizeInBytes = 128, barStart = systemBar (devs s ! d),
    barEnd = (systemBar (devs s ! d), 32), nBytesToTransfer = 4\<rparr>"
  have ti: "checkAndCalculateTransferInformation (devs s ! d) 4 (position 0 off) = Inr ?ti"
    using b p reg by (simp add: check_unfold size_defs)
  have da: "dev_at (flag_read s) d = Some (devs s ! d)"
    using assms(1,3) by (simp add: dev_at_def idle_length_devs)
  have st: "store (systemBar (devs s ! d)) (REG off) v (count_call ?e) =
      Some ((), put_regs d ((regs s d)[REG off := v]) (count_call ?e))" for v
    using store_exec(1) [of d "count_call ?e" "devs s" "REG off" v] r reg(1) assms(3) by simp
  have gate: "k_lock K (tick s) ControlMutex = 0" "\<not> write_error (control s)"
      "k_lock K (Suc (tick s)) (DevMutex d) = 0"
    using assms(5) by (auto simp: entry_gate_def split: if_splits)
  note facts = assms(1-3,8) gate ti da c r p st
  show ?thesis
    using facts
    by (simp add: mtcaDummy_write_no_struct_def handler_run idleD write_no_struct_body_def for_loop_step [of 0] bs)
qed

text \<open>A kernel for which the byte at the user address 2 cannot be read.\<close>

definition short_copy :: kernel where
  "short_copy = ref_kernel\<lparr>k_copy_from_user := (\<lambda>_ m a n.
     if a = 0 \<and> 2 < n then (umem_read m a 2 @ replicate (n - 2) 0, n - 2) else (umem_read m a n, 0))\<rparr>"

lemma short_copy_ok: "uaccess_ok short_copy"
  by (simp add: uaccess_ok_def short_copy_def)

theorem read_only_lost_on_fault_witness:
  "\<exists>t. mtcaDummy_write_no_struct short_copy (opened 6) 0 4 (position 0 0x3C)
      (with_umem 0 [7, 0, 0, 0] ref_sys) = Some ((- EFAULT, position 0 0x3C), t) \<and> regs t 6 ! 15 = 7"
proof -
  let ?s = "with_umem 0 [7, 0, 0, 0] ref_sys"
  have six: "6 < MTCADUMMY_NR_DEVS" by (simp add: size_defs)
  have i: "idle ?s" by simp
  have off: "0x3C \<in> {MTCADUMMY_WORD_FIRMWARE, MTCADUMMY_WORD_COMPILATION, MTCADUMMY_WORD_DUMMY}"
    by (simp add: register_defs)
  have c: "snd (k_copy_from_user short_copy (tick ?s + 2) (umem ?s) 0 4) = 2" by (simp add: short_copy_def)
  have g: "entry_gate short_copy (write_error (control ?s)) 6 (tick ?s) = None"
    by (simp add: entry_gate_def short_copy_def)
  have u: "umem_read (umem ?s) 0 2 = [7, 0]"
    by (simp add: with_umem_def umem_read_def umem_write_def numeral_2_eq_2)
  have "replicate 2 (0 :: u8) = [0, 0]" by (simp add: numeral_2_eq_2)
  with read_only_lost_on_fault [OF i opened_simps six short_copy_ok g off c] six u show ?thesis
    by (auto simp: ensures_iff REG_def unat_div initial_regs_def size_defs le32_def)
qed

text \<open>
  C9. A write without a structure that nothing disturbs is the sequence of single word
  writes: the bars end up as if the words had been written one by one, from the position
  on, with the same action for each, and the first one that fails ends the transfer.
\<close>

theorem no_struct_write_is_word_writes:
  assumes "quiet K" and "idle s" and "private_data filp = Some d" and "d < MTCADUMMY_NR_DEVS"
    and "\<not> write_error (control s)" and "covers s d v count ws a n"
  shows "ensures (mtcaDummy_write_no_struct K filp buf count v s)
    (\<lambda>(r, f) t. call_on d s t \<and> umem t = umem s \<and>
      (r, regs t d, dma t d) =
        (case spec_writes K (spi_error (control s)) (position_bar v) a (user_words (umem s) buf n)
            (regs s d) (dma s d) of
          (e, rs, ds) \<Rightarrow> (if e = 0 then int (4 * n) else e, rs, ds)))"
  by (rule quiet_write [OF assms])

theorem no_struct_write_is_word_writes_witness:
  "\<exists>f t. mtcaDummy_write_no_struct ref_kernel (opened 6) 0 8 (position 0 0x3C)
      (with_umem 0 (bytes_of_words [7, 9]) ref_sys) = Some ((8, f), t) \<and>
    regs t 6 = (initial_regs ref_kernel)[15 := MTCADUMMY_DMMY_AS_ASCII, 16 := 9]"
proof -
  let ?v = "position 0 0x3C" and ?s = "with_umem 0 (bytes_of_words [7, 9]) ref_sys"
  have six: "6 < MTCADUMMY_NR_DEVS" by (simp add: size_defs)
  have p: "position_bar ?v = 0" "position_offset ?v = 0x3C"
    using position_fields [of 0 "0x3C"] by simp_all
  have c: "covers ?s 6 ?v 8 (initial_regs ref_kernel) 15 2"
    using six by (simp add: covers_def p bar_words_def MAX_RW_COUNT_def size_defs) (simp add: position_def)
  have i: "idle ?s" and e: "\<not> write_error (control ?s)" by simp_all
  have "umem_read (umem ?s) 0 (4 * 2) = bytes_of_words [7, 9]"
    using umem_read_write [of "bytes_of_words [7, 9]" "umem ref_sys" 0] by simp
  then have "bytes_of_words (user_words (umem ?s) 0 2) = bytes_of_words [7, 9]"
    by (simp only: bytes_of_user_words)
  then have uw: "user_words (umem ?s) 0 2 = [7, 9]" by (simp add: numeral_eq_Suc)
  have "spec_writes ref_kernel False 0 15 [7, 9] (initial_regs ref_kernel) (replicate DMA_WORDS 0) =
      (0, (initial_regs ref_kernel)[15 := MTCADUMMY_DMMY_AS_ASCII, 16 := 9, 4 := 0, 5 := 0, 8 := 0, 9 := 0, 10 := 0, 11 := 0],
       replicate DMA_WORDS 0)"
    by (simp add: ref_eval REG_def unat_div clear_clocks_def MTCADUMMY_DMMY_AS_ASCII_def)
  moreover have "(initial_regs ref_kernel)[15 := MTCADUMMY_DMMY_AS_ASCII, 16 := 9, 4 := 0, 5 := 0, 8 := 0, 9 := 0, 10 := 0, 11 := 0] =
      (initial_regs ref_kernel)[15 := MTCADUMMY_DMMY_AS_ASCII, 16 := 9]"
    by (rule nth_equalityI) (auto simp: nth_list_update ref_regs_nth)
  ultimately show ?thesis
    using no_struct_write_is_word_writes [OF ref_quiet i opened_simps six e c, of 0] uw six p
    by (auto simp: ensures_iff)
qed

lemma umem_update [simp]:
  "idle (t\<lparr>umem := m\<rparr>) = idle t" "regs (t\<lparr>umem := m\<rparr>) d = regs t d" "dma (t\<lparr>umem := m\<rparr>) d = dma t d"
  by (simp_all add: idle_def live_def disciplined_def wf_sys_def regs_def dma_def)

lemma bar_two: "bar_words 2 rs ds = Some ds"
  by (simp add: bar_words_def)

text \<open>
  A round trip through the DMA bar: when nothing disturbs the transfers, words written
  at a position are read back unchanged from the same position with the same length, into
  whatever buffer, and both calls transfer the requested length, cut at the end of the bar.
\<close>

theorem no_struct_dma_roundtrip:
  assumes "quiet K" and "idle s" and "private_data filp = Some d" and "d < MTCADUMMY_NR_DEVS"
    and "\<not> write_error (control s)" and "\<not> read_error (control s)"
    and "position_bar v = 2" and "covers s d v count (dma s d) a n"
  shows "ensures (mtcaDummy_write_no_struct K filp buf count v s) (\<lambda>(r, f) t. r = int (4 * n) \<and>
    ensures (mtcaDummy_read_no_struct K filp buf' count v (t\<lparr>umem := m\<rparr>)) (\<lambda>(r', f') u.
      r' = int (4 * n) \<and> umem_read (umem u) buf' (4 * n) = umem_read (umem s) buf (4 * n)))"
proof (rule ensures_mono [OF quiet_write [OF assms(1-5,8), of buf]], goal_cases)
  case (1 x t)
  obtain r f where x: "x = (r, f)" by (cases x)
  have len: "length (dma s d) = DMA_WORDS"
    using assms(2,4) by (simp add: idle_def live_def wf_length_dma)
  have an: "a + n \<le> length (dma s d)" using assms(8) by (auto simp: covers_def)
  let ?ws = "user_words (umem s) buf n"
  define ds where "ds = take a (dma s d) @ ?ws @ drop (a + n) (dma s d)"
  have ds: "length ds = length (dma s d)" "take n (drop a ds) = ?ws" using an by (simp_all add: ds_def)
  have "spec_writes K (spi_error (control s)) 2 a ?ws (regs s d) (dma s d) = (0, regs s d, ds)"
    using spec_writes_dma [of a ?ws "dma s d"] an len by (simp add: ds_def)
  with 1 have t: "call_on d s t" "r = int (4 * n)" "dma t d = ds" by (simp_all add: x assms(7))
  let ?t = "t\<lparr>umem := m\<rparr>"
  have ti: "idle ?t" "\<not> read_error (control ?t)" using t(1) assms(6) by (simp_all add: call_on_def)
  from assms(7,8) t(3) ds(1) have c: "covers ?t d v count ds a n"
    by (simp add: covers_def bar_two)
  have "ensures (mtcaDummy_read_no_struct K filp buf' count v ?t) (\<lambda>(r', f') u.
      r' = int (4 * n) \<and> umem_read (umem u) buf' (4 * n) = umem_read (umem s) buf (4 * n))"
    by (rule ensures_mono [OF quiet_read [OF assms(1) ti(1) assms(3,4) ti(2) c, of buf']])
      (use assms(7) ds(2) in \<open>auto simp: bytes_of_user_words\<close>)
  with t(2) show ?case by (simp add: x)
qed

theorem no_struct_dma_roundtrip_witness:
  "\<exists>f t f' u. mtcaDummy_write_no_struct ref_kernel (opened 6) 0 8 (position 2 0xFF8)
      (with_umem 0 (bytes_of_words [7, 9]) ref_sys) = Some ((8, f), t) \<and>
    mtcaDummy_read_no_struct ref_kernel (opened 6) 0 8 (position 2 0xFF8) (t\<lparr>umem := (\<lambda>_. 0)\<rparr>) = Some ((8, f'), u) \<and>
    umem_read (umem u) 0 8 = bytes_of_words [7, 9]"
proof -
  let ?v = "position 2 0xFF8" and ?s = "with_umem 0 (bytes_of_words [7, 9]) ref_sys"
  have six: "6 < MTCADUMMY_NR_DEVS" by (simp add: size_defs)
  have p: "position_bar ?v = 2" "position_offset ?v = 0xFF8"
    using position_fields [of 2 "0xFF8"] by simp_all
  have c: "covers ?s 6 ?v 8 (dma ?s 6) 1022 2"
    using six by (simp add: covers_def p bar_words_def MAX_RW_COUNT_def size_defs) (simp add: position_def)
  have i: "idle ?s" "\<not> write_error (control ?s)" "\<not> read_error (control ?s)" by simp_all
  have "umem_read (umem ?s) 0 (4 * 2) = bytes_of_words [7, 9]"
    using umem_read_write [of "bytes_of_words [7, 9]" "umem ref_sys" 0] by simp
  with no_struct_dma_roundtrip [OF ref_quiet i(1) opened_simps six i(2,3) p(1) c, of 0 0 "\<lambda>_. 0"]
  show ?thesis by (auto simp: ensures_iff)
qed

text \<open>
  Reading without a structure cuts the length at the end of the bar: the result is the
  smaller of the requested length and the bytes that are left, 0 at the end, and the words
  of the bar from the position on are what the user gets; the broken register is the only
  obstacle.
\<close>

theorem no_struct_read_complete:
  assumes "quiet K" and "idle s" and "private_data filp = Some d" and "d < MTCADUMMY_NR_DEVS"
    and "\<not> read_error (control s)" and "covers s d v count ws a n"
    and "position_bar v = 0 \<longrightarrow> \<not> (a \<le> REG MTCADUMMY_BROKEN_REGISTER \<and> REG MTCADUMMY_BROKEN_REGISTER < a + n)"
    and "len = min (unat count) (4 * length ws - unat (position_offset v))"
  shows "ensures (mtcaDummy_read_no_struct K filp buf count v s)
    (\<lambda>(r, f) t. r = int len \<and> f = v + of_nat len \<and>
      umem_read (umem t) buf len = bytes_of_words (take n (drop a ws)))"
proof -
  have "unat count mod 4 = 0" using assms(6) by (simp add: covers_def word_mod4)
  then obtain k where "unat count = 4 * k" by auto
  then have n: "len = 4 * n"
    using assms(6,8) by (auto simp: covers_def min_def)
  show ?thesis
    unfolding n using assms(7)
    by (intro ensures_mono [OF quiet_read [OF assms(1-6), of buf]]) auto
qed

theorem no_struct_read_complete_witness:
  "\<exists>f t. mtcaDummy_read_no_struct ref_kernel (opened 6) 0 0x1000 (position 2 0xFF8) ref_sys = Some ((8, f), t) \<and>
    umem_read (umem t) 0 8 = bytes_of_words (replicate 2 0)"
proof -
  let ?v = "position 2 0xFF8"
  have six: "6 < MTCADUMMY_NR_DEVS" by (simp add: size_defs)
  have p: "position_bar ?v = 2" "position_offset ?v = 0xFF8"
    using position_fields [of 2 "0xFF8"] by simp_all
  have c: "covers ref_sys 6 ?v 0x1000 (replicate DMA_WORDS 0) 1022 2"
    using six by (simp add: covers_def p bar_words_def MAX_RW_COUNT_def size_defs) (simp add: position_def)
  have len: "8 = min (unat (0x1000 :: u64)) (4 * length (replicate DMA_WORDS (0 :: u32)) - unat (position_offset ?v))"
    by (simp add: p size_defs)
  have "take 2 (drop 1022 (replicate DMA_WORDS 0)) = (replicate 2 0 :: u32 list)" by (simp add: size_defs)
  with no_struct_read_complete [OF ref_quiet ref_idle opened_simps six _ c _ len, of 0] p(1)
  show ?thesis by (auto simp: ensures_iff)
qed

text \<open>
  The two interfaces agree: on the same state, a write of a word through the structure
  and a write of the same four bytes at the position of the word leave the same bars, and
  either both succeed, each with the length of its own transfer, or both fail with
  \<open>-EIO\<close>.
\<close>

theorem struct_and_position_agree:
  assumes "quiet K" and "idle s" and "private_data filp = Some d" and "d < MTCADUMMY_NR_DEVS"
    and "\<not> write_error (control s)" and "buffer_holds (umem s) buf req" and "mode_rw req = RW_D32"
    and "sizeof_device_rw \<le> unat count"
    and "bar_words (barx_rw req) (regs s d) (dma s d) = Some ws" and "valid_offset (offset_rw req) ws"
    and "umem_read (umem s) buf' 4 = bytes_of (data_rw req)"
  shows "ensures (mtcaDummy_write K filp buf count s) (\<lambda>r t.
    ensures (mtcaDummy_write_no_struct K filp buf' 4 (position (barx_rw req) (offset_rw req)) s)
      (\<lambda>(r', f) u. regs u d = regs t d \<and> dma u d = dma t d \<and>
        (r = int sizeof_device_rw \<and> r' = 4 \<or> r = - EIO \<and> r' = - EIO)))"
proof -
  obtain e rs ds where w: "spec_write K False (spi_error (control s)) (barx_rw req) (offset_rw req)
      (data_rw req) (regs s d) (dma s d) = (e, rs, ds)" by (metis prod.exhaust)
  have e: "e = 0 \<or> e = - EIO" using spec_write_error [OF w assms(9,10)] by blast
  have off: "offset_rw req mod 4 = 0" using assms(10) by (simp add: valid_offset_def)
  have "read_request K buf s = (req, 0)"
    using assms(6) by (simp add: read_request_def quietD [OF assms(1)] buffer_holds_def)
  then have "ensures (mtcaDummy_write K filp buf count s) (\<lambda>r t. regs t d = rs \<and> dma t d = ds \<and>
      r = (if e = 0 then int sizeof_device_rw else e))"
    by (intro ensures_mono [OF mtcaDummy_write_refines [OF assms(2-4)]])
      (use assms(5,7,8) w in \<open>auto simp: quiet_gate [OF assms(1)] quietD [OF assms(1)]\<close>)
  moreover have "user_words (umem s) buf' 1 = [data_rw req]"
    using assms(11) by (simp add: user_word_def byte_offset_def)
  then have "ensures (mtcaDummy_write_no_struct K filp buf' 4 (position (barx_rw req) (offset_rw req)) s)
      (\<lambda>(r', f) u. regs u d = rs \<and> dma u d = ds \<and> r' = (if e = 0 then 4 else e))"
    using w spec_writes_word [OF off] assms(9) position_fields(1) [of "barx_rw req"]
    by (intro ensures_mono [OF quiet_write [OF assms(1-5) covers_word [OF assms(9,10)], of buf']])
      (auto elim!: bar_words_cases)
  ultimately show ?thesis
    using e by (auto simp: ensures_iff errno_defs)
qed

theorem struct_and_position_agree_witness:
  "\<exists>t f u. mtcaDummy_write ref_kernel (opened 6) 0 24 (ask (request RW_D32 0 0x3C 7 0) ref_sys) = Some (24, t) \<and>
    mtcaDummy_write_no_struct ref_kernel (opened 6) 4 4 (position 0 0x3C)
      (ask (request RW_D32 0 0x3C 7 0) ref_sys) = Some ((4, f), u) \<and>
    regs u 6 = regs t 6"
proof -
  let ?r = "request RW_D32 0 0x3C 7 0"
  let ?s = "ask ?r ref_sys"
  have six: "6 < MTCADUMMY_NR_DEVS" by (simp add: size_defs)
  have i: "idle ?s" "\<not> write_error (control ?s)" by simp_all
  have ws: "bar_words (barx_rw ?r) (regs ?s 6) (dma ?s 6) = Some (initial_regs ref_kernel)"
    using six by (simp add: bar_words_def)
  have off: "valid_offset (offset_rw ?r) (initial_regs ref_kernel)"
    by (simp add: valid_offset_def size_defs)
  have "umem_read (umem ?s) 0 (4 + 20) = encode_device_rw ?r"
    using ask_holds [of ?r ref_sys] by (simp add: buffer_holds_def sizeof_device_rw_def)
  then have "drop 4 (umem_read (umem ?s) 0 (4 + 20)) = drop 4 (encode_device_rw ?r)" by simp
  then have "umem_read (umem ?s) 4 20 = drop 4 (encode_device_rw ?r)"
    unfolding umem_read_append by simp
  then have "umem_read (umem ?s) 4 (4 + 16) = drop 4 (encode_device_rw ?r)" by simp
  then have "take 4 (umem_read (umem ?s) 4 (4 + 16)) = take 4 (drop 4 (encode_device_rw ?r))" by simp
  then have data: "umem_read (umem ?s) 4 4 = bytes_of (data_rw ?r)"
    unfolding umem_read_append by (simp add: encode_device_rw_def)
  obtain rs ds where sp: "spec_write ref_kernel False (spi_error (control ref_sys)) 0 0x3C 7
      (regs ref_sys 6) (dma ref_sys 6) = (0, rs, ds)"
    using six by (simp add: ref_eval REG_def unat_div)
  then obtain t where "mtcaDummy_write ref_kernel (opened 6) 0 24 ?s = Some (24, t)"
    by (rule ref_write [OF ref_idle six, rotated]) simp_all
  with struct_and_position_agree [OF ref_quiet i(1) opened_simps six i(2) ask_holds _ _ ws off data, of 24]
  show ?thesis by (auto simp: ensures_iff sizeof_device_rw_def errno_defs)
qed

section \<open>Opening and closing\<close>

text \<open>
  Opening: on a signal or with the open error switched on, the file stays without a
  device and no count changes; otherwise the file belongs to the device, whose open count
  has gone up by one. Closing the file afterwards restores the count. No bar changes, and
  no mutex stays locked.
\<close>

theorem open_close:
  assumes "idle s" and "i < MTCADUMMY_NR_DEVS"
  shows "ensures (mtcaDummy_open K i filp s) (\<lambda>(r, filp') t.
    idle t \<and> (e < MTCADUMMY_NR_DEVS \<longrightarrow> regs t e = regs s e) \<and>
    (if k_lock K (tick s) ControlMutex \<noteq> 0 then r = - ERESTARTSYS \<and> filp' = filp \<and> devs t = devs s
     else if open_error (control s) then r = - EINVAL \<and> filp' = filp \<and> devs t = devs s
     else r = 0 \<and> private_data filp' = Some i \<and>
       devs t = (devs s)[i := (devs s ! i)\<lparr>inUse := inUse (devs s ! i) + 1\<rparr>] \<and>
       ensures (mtcaDummy_release filp' t) (\<lambda>r' u. r' = 0 \<and> idle u \<and> devs u = devs s)))"
proof (rule ensures_mono [OF mtcaDummy_open_refines [OF assms]], goal_cases)
  case (1 x t)
  obtain r filp' where x: "x = (r, filp')" by (cases x)
  have i: "i < length (devs s)" using assms by (simp add: idle_length_devs)
  have wf: "wf_sys s" "wf_sys (flag_read s)"
    using assms(1) flag_read_simps(10) [OF assms(1)] by (simp_all add: idle_def live_def)
  let ?t = "count_opens i 1 (flag_read s)"
  have t: "idle ?t" using flag_read_simps(10) [OF assms(1)] by simp
  have "devs (count_opens i (- 1) ?t) = devs s" using i by (simp add: count_opens_def)
  moreover have "mtcaDummy_release filp' ?t = Some (0, count_opens i (- 1) ?t)" if "private_data filp' = Some i"
    using mtcaDummy_release_refines [OF t that assms(2)] .
  moreover have "idle (count_opens i (- 1) ?t)" using t by simp
  moreover have "regs ?t e = regs s e" if "e < MTCADUMMY_NR_DEVS" using that wf by simp
  moreover have "idle (count_call s)" using assms(1) by (simp add: idle_def)
  ultimately show ?case
    using 1 t flag_read_simps(10) [OF assms(1)]
    by (simp add: x split: if_splits) (simp_all add: count_opens_def)
qed

theorem open_close_witness:
  "\<exists>filp t u. mtcaDummy_open ref_kernel 4 \<lparr>private_data = None\<rparr> ref_sys = Some ((0, filp), t) \<and>
    inUse (devs t ! 4) = 1 \<and> mtcaDummy_release filp t = Some (0, u) \<and> inUse (devs u ! 4) = 0"
proof -
  have four: "4 < MTCADUMMY_NR_DEVS" by (simp add: size_defs)
  from open_close [OF ref_idle four, of ref_kernel "\<lparr>private_data = None\<rparr>" 0] four show ?thesis
    by (auto simp: ensures_iff ref_dev_def)
qed

section \<open>Control calls\<close>

lemma handlers_contract:
  "(handler, accepts, understand) \<in>
      {(mtcaDummy_ioctl, mtca_accepts, mtca_understand), (llrfDummy_ioctl, llrf_accepts, llrf_understand),
       (pcieuniDummy_ioctl, pcieuni_accepts, pcieuni_understand)} \<Longrightarrow>
    ioctl_handler handler accepts understand"
  by (auto intro: mtca.ioctl_handler_axioms llrf.ioctl_handler_axioms pcieuni.ioctl_handler_axioms)

text \<open>
  C30. The three control handlers, on every path and for every command: a command outside
  the ranges of the handler and one without a branch in its \<open>switch\<close> give \<open>-ENOTTY\<close>, an
  address the kernel refuses \<open>-EFAULT\<close>, a signal \<open>-ERESTARTSYS\<close>; the others get the answer
  of \<open>ioctl_outcome\<close>. No handler changes a bar or leaves a mutex locked. The only calls
  without a defined result are the accepted \<open>READ_DMA\<close> commands that reach the copy with an
  aligned offset and a size whose 32 bit sum wraps around to a number within the area: they
  copy from outside it.
\<close>

theorem ioctl_contract:
  assumes "idle s" and "private_data filp = Some d" and "d < MTCADUMMY_NR_DEVS"
    and "(handler, accepts, understand) \<in>
      {(mtcaDummy_ioctl, mtca_accepts, mtca_understand), (llrfDummy_ioctl, llrf_accepts, llrf_understand),
       (pcieuniDummy_ioctl, pcieuni_accepts, pcieuni_understand)}"
  shows "if ioctl_escapes accepts understand K d cmd arg s then handler K filp cmd arg s = None
    else ensures (handler K filp cmd arg s) (\<lambda>r t. call_on d s t \<and> regs t d = regs s d \<and>
    dma t d = dma s d \<and>
    (r, umem t) =
      (if \<not> accepts cmd then (- ENOTTY, umem s)
       else if \<not> user_access_ok K cmd arg then (- EFAULT, umem s)
       else if k_lock K (tick s) (DevMutex d) \<noteq> 0 then (- ERESTARTSYS, umem s)
       else ioctl_outcome K d (dma s d) (Suc (tick s)) (umem s) (understand cmd) arg))"
  by (rule if_either [OF ioctl_handler.escapes [OF handlers_contract [OF assms(4)] assms(1-3)]
        ioctl_handler.total [OF handlers_contract [OF assms(4)] assms(1-3)]])

lemma ref_access [simp]: "user_access_ok ref_kernel cmd arg"
  by (simp add: user_access_ok_def)

theorem ioctl_contract_witness:
  "\<exists>t. mtcaDummy_ioctl ref_kernel (opened 3) PCIEDEV_WRITE_DMA 0 ref_sys = Some (- ENOTTY, t)"
proof -
  have three: "3 < MTCADUMMY_NR_DEVS" by (simp add: size_defs)
  have u: "mtca_understand PCIEDEV_WRITE_DMA = Unsupported" "mtca_accepts PCIEDEV_WRITE_DMA"
    using command_table(1) commands_accepted(1) by simp_all
  have "if ioctl_escapes mtca_accepts mtca_understand ref_kernel 3 PCIEDEV_WRITE_DMA 0 ref_sys
    then mtcaDummy_ioctl ref_kernel (opened 3) PCIEDEV_WRITE_DMA 0 ref_sys = None
    else ensures (mtcaDummy_ioctl ref_kernel (opened 3) PCIEDEV_WRITE_DMA 0 ref_sys)
    (\<lambda>r t. call_on 3 ref_sys t \<and> regs t 3 = regs ref_sys 3 \<and> dma t 3 = dma ref_sys 3 \<and>
      (r, umem t) = (if \<not> mtca_accepts PCIEDEV_WRITE_DMA then (- ENOTTY, umem ref_sys)
       else if \<not> user_access_ok ref_kernel PCIEDEV_WRITE_DMA 0 then (- EFAULT, umem ref_sys)
       else if k_lock ref_kernel (tick ref_sys) (DevMutex 3) \<noteq> 0 then (- ERESTARTSYS, umem ref_sys)
       else ioctl_outcome ref_kernel 3 (dma ref_sys 3) (Suc (tick ref_sys)) (umem ref_sys)
         (mtca_understand PCIEDEV_WRITE_DMA) 0))"
    by (rule ioctl_contract [OF ref_idle opened_simps three]) simp
  then show ?thesis by (auto simp: ensures_iff u ioctl_outcome_def ioctl_escapes_def)
qed

lemma decode_encode_ioctrl_data [simp]: "decode_ioctrl_data (encode_ioctrl_data r) = r"
  by (simp add: decode_ioctrl_data_def encode_ioctrl_data_def word_at_encode eval_nat_numeral
      del: bytes_of_words_simps)

lemma length_encode_ioctrl_data [simp]: "length (encode_ioctrl_data r) = sizeof_device_ioctrl_data"
  by (simp add: encode_ioctrl_data_def sizeof_device_ioctrl_data_def)

text \<open>What an answered request has left in the argument structure.\<close>

lemma outcome_answer:
  assumes "uaccess_ok K" and "ioctl_outcome K d ds tk m req arg = (0, m')"
    and "req = Physical_slot \<or> req = Version"
  shows "\<exists>r. ioctl_answer K d ds req (umem_read m arg sizeof_device_ioctrl_data) = Inr (encode_ioctrl_data r) \<and>
    decode_ioctrl_data (umem_read m' arg sizeof_device_ioctrl_data) = r"
proof -
  have n: "request_size req = sizeof_device_ioctrl_data" "req \<noteq> Unsupported" using assms(3) by auto
  obtain bs x where c: "k_copy_from_user K tk m arg sizeof_device_ioctrl_data = (bs, x)" by fastforce
  have x: "x = 0" using assms(2) n c by (auto simp: ioctl_outcome_def errno_defs split: if_splits)
  with uaccess_from(2) [OF assms(1) c] have bs: "bs = umem_read m arg sizeof_device_ioctrl_data" by simp
  obtain r where r: "ioctl_answer K d ds req bs = Inr (encode_ioctrl_data r)" using assms(3) by auto
  obtain m2 y where o: "k_copy_to_user K (Suc tk) m arg (encode_ioctrl_data r) = (m2, y)" by fastforce
  have "y = 0" "m' = m2"
    using assms(2) n c x r o by (auto simp: ioctl_outcome_def errno_defs split: if_splits)
  with uaccess_to [OF assms(1) o] have "m' = umem_write m arg (encode_ioctrl_data r)" by simp
  then have "umem_read m' arg sizeof_device_ioctrl_data = encode_ioctrl_data r"
    using umem_read_write [of "encode_ioctrl_data r" m arg] by (simp add: sizeof_device_ioctrl_data_def)
  with r bs show ?thesis by auto
qed

lemma slot_version_commands:
  assumes "(handler, slot, versions) \<in>
      {(mtcaDummy_ioctl, PCIEDEV_PHYSICAL_SLOT, {PCIEDEV_DRIVER_VERSION, PCIEDEV_FIRMWARE_VERSION}),
       (llrfDummy_ioctl, LLRFDRV_PHYSICAL_SLOT, {LLRFDRV_DRIVER_VERSION, LLRFDRV_FIRMWARE_VERSION}),
       (pcieuniDummy_ioctl, PCIEUNI_PHYSICAL_SLOT, {PCIEUNI_DRIVER_VERSION, PCIEUNI_FIRMWARE_VERSION})}"
    and "cmd = slot \<or> cmd \<in> versions"
  shows "\<exists>accepts understand. ioctl_handler handler accepts understand \<and>
    understand cmd = (if cmd = slot then Physical_slot else Version)"
proof -
  have "mtca_understand cmd = (if cmd = slot then Physical_slot else Version)"
    if "slot = PCIEDEV_PHYSICAL_SLOT" "versions = {PCIEDEV_DRIVER_VERSION, PCIEDEV_FIRMWARE_VERSION}"
    using assms(2) that by (auto simp: mtca_understand_def)
  moreover have "llrf_understand cmd = (if cmd = slot then Physical_slot else Version)"
    if "slot = LLRFDRV_PHYSICAL_SLOT" "versions = {LLRFDRV_DRIVER_VERSION, LLRFDRV_FIRMWARE_VERSION}"
    using assms(2) that by (auto simp: llrf_understand_def)
  moreover have "pcieuni_understand cmd = (if cmd = slot then Physical_slot else Version)"
    if "slot = PCIEUNI_PHYSICAL_SLOT" "versions = {PCIEUNI_DRIVER_VERSION, PCIEUNI_FIRMWARE_VERSION}"
    using assms(2) that by (auto simp: pcieuni_understand_def)
  ultimately show ?thesis
    using assms(1) mtca.ioctl_handler_axioms llrf.ioctl_handler_axioms pcieuni.ioctl_handler_axioms
    by blast
qed

text \<open>
  The commands for the slot and the versions mean the same on every device: when a
  call returns 0, the structure in user memory is the one that was there, with the slot
  number of the device in \<open>data\<close>, or the version of the driver in \<open>data\<close> and \<open>offset\<close>.
\<close>

theorem ioctl_slot_and_version:
  assumes "idle s" and "private_data filp = Some d" and "d < MTCADUMMY_NR_DEVS" and "uaccess_ok K"
    and "(handler, slot, versions) \<in>
      {(mtcaDummy_ioctl, PCIEDEV_PHYSICAL_SLOT, {PCIEDEV_DRIVER_VERSION, PCIEDEV_FIRMWARE_VERSION}),
       (llrfDummy_ioctl, LLRFDRV_PHYSICAL_SLOT, {LLRFDRV_DRIVER_VERSION, LLRFDRV_FIRMWARE_VERSION}),
       (pcieuniDummy_ioctl, PCIEUNI_PHYSICAL_SLOT, {PCIEUNI_DRIVER_VERSION, PCIEUNI_FIRMWARE_VERSION})}"
    and "handler K filp cmd arg s = Some (0, t)" and "cmd = slot \<or> cmd \<in> versions"
    and "before = decode_ioctrl_data (umem_read (umem s) arg sizeof_device_ioctrl_data)"
  shows "decode_ioctrl_data (umem_read (umem t) arg sizeof_device_ioctrl_data) =
    (if cmd = slot then before\<lparr>ctl_data := of_nat d\<rparr>
     else before\<lparr>ctl_data := VERSION_MAJ K, ctl_offset := VERSION_MIN K\<rparr>)"
proof -
  define req where "req = (if cmd = slot then Physical_slot else Version)"
  obtain accepts understand where h: "ioctl_handler handler accepts understand" "understand cmd = req"
    using slot_version_commands [OF assms(5,7)] by (auto simp: req_def)
  then have "\<not> ioctl_escapes accepts understand K d cmd arg s"
    by (simp add: req_def ioctl_escapes_def)
  note run = ioctl_handler.total [OF h(1) assms(1-3) this]
  have "(0, umem t) =
      (if \<not> accepts cmd then (- ENOTTY, umem s)
       else if \<not> user_access_ok K cmd arg then (- EFAULT, umem s)
       else if k_lock K (tick s) (DevMutex d) \<noteq> 0 then (- ERESTARTSYS, umem s)
       else ioctl_outcome K d (dma s d) (Suc (tick s)) (umem s) req arg)"
    using run by (simp only: assms(6) h(2) ensures_Some)
  then have "ioctl_outcome K d (dma s d) (Suc (tick s)) (umem s) req arg = (0, umem t)"
    by (auto simp: errno_defs split: if_splits)
  from outcome_answer [OF assms(4) this] show ?thesis
    by (auto simp: req_def assms(8) dest!: arg_cong [where f = decode_ioctrl_data] split: if_splits)
qed

text \<open>An argument structure at the user address 0.\<close>

definition ask_ioctl :: "u32 list \<Rightarrow> sys \<Rightarrow> sys" where
  "ask_ioctl ws s = with_umem 0 (bytes_of_words ws) s"

lemma ask_ioctl_simps [simp]:
  "devs (ask_ioctl ws s) = devs s" "control (ask_ioctl ws s) = control s"
  "tick (ask_ioctl ws s) = tick s" "regs (ask_ioctl ws s) d = regs s d"
  "dma (ask_ioctl ws s) d = dma s d" "idle (ask_ioctl ws s) = idle s"
  by (simp_all add: ask_ioctl_def)

lemma ask_ioctl_bytes:
  "length ws < 2 ^ 61 \<Longrightarrow> umem_read (umem (ask_ioctl ws s)) 0 (4 * length ws) = bytes_of_words ws"
  using umem_read_write [of "bytes_of_words ws" "umem s" 0] by (simp add: ask_ioctl_def)

lemma ask_ioctl_data:
  "decode_ioctrl_data (umem_read (umem (ask_ioctl [a, b, c, e] s)) 0 sizeof_device_ioctrl_data) =
    \<lparr>ctl_offset = a, ctl_data = b, ctl_cmd = c, ctl_reserved = e\<rparr>"
  using ask_ioctl_bytes [of "[a, b, c, e]" s]
    decode_encode_ioctrl_data [of "\<lparr>ctl_offset = a, ctl_data = b, ctl_cmd = c, ctl_reserved = e\<rparr>"]
  by (simp add: sizeof_device_ioctrl_data_def encode_ioctrl_data_def)

theorem ioctl_slot_and_version_witness:
  "\<exists>t. llrfDummy_ioctl ref_kernel (opened 4) LLRFDRV_PHYSICAL_SLOT 0 (ask_ioctl [1, 2, 3, 5] ref_sys) = Some (0, t) \<and>
    ctl_data (decode_ioctrl_data (umem_read (umem t) 0 sizeof_device_ioctrl_data)) = 4"
proof -
  let ?s = "ask_ioctl [1, 2, 3, 5] ref_sys"
  have four: "4 < MTCADUMMY_NR_DEVS" by (simp add: size_defs)
  have i: "idle ?s" by simp
  have u: "llrf_understand LLRFDRV_PHYSICAL_SLOT = Physical_slot" "llrf_accepts LLRFDRV_PHYSICAL_SLOT"
    using command_table(2) commands_accepted(2) by simp_all
  from llrf_total [OF i opened_simps four, of ref_kernel LLRFDRV_PHYSICAL_SLOT 0] u
  obtain t where t: "llrfDummy_ioctl ref_kernel (opened 4) LLRFDRV_PHYSICAL_SLOT 0 ?s = Some (0, t)"
    by (auto simp: ensures_iff ioctl_outcome_def)
  have h: "(llrfDummy_ioctl, LLRFDRV_PHYSICAL_SLOT, {LLRFDRV_DRIVER_VERSION, LLRFDRV_FIRMWARE_VERSION}) \<in>
      {(mtcaDummy_ioctl, PCIEDEV_PHYSICAL_SLOT, {PCIEDEV_DRIVER_VERSION, PCIEDEV_FIRMWARE_VERSION}),
       (llrfDummy_ioctl, LLRFDRV_PHYSICAL_SLOT, {LLRFDRV_DRIVER_VERSION, LLRFDRV_FIRMWARE_VERSION}),
       (pcieuniDummy_ioctl, PCIEUNI_PHYSICAL_SLOT, {PCIEUNI_DRIVER_VERSION, PCIEUNI_FIRMWARE_VERSION})}"
    by simp
  from ioctl_slot_and_version [OF i opened_simps four ref_uaccess_ok h t disjI1 [OF refl] refl] t
  show ?thesis by simp
qed

text \<open>What an answered DMA request has left in user memory.\<close>

lemma outcome_read_dma:
  assumes "uaccess_ok K" and "ioctl_outcome K d ds tk m Read_dma arg = (0, m')"
    and "r = decode_ioctrl_dma (umem_read m arg sizeof_device_ioctrl_dma)" and "length ds = DMA_WORDS"
    and "unat (dma_offset r) + unat (dma_size r) < 2 ^ 32"
  shows "dma_offset r mod 4 = 0" and "unat (dma_offset r) + unat (dma_size r) \<le> MTCADUMMY_DMA_SIZE"
    and "umem_read m' arg (unat (dma_size r)) =
      take (unat (dma_size r)) (drop (unat (dma_offset r)) (bytes_of_words ds))"
proof -
  obtain bs x where c: "k_copy_from_user K tk m arg sizeof_device_ioctrl_dma = (bs, x)" by fastforce
  have x: "x = 0" using assms(2) c by (auto simp: ioctl_outcome_def errno_defs split: if_splits)
  with uaccess_from(2) [OF assms(1) c] have bs: "bs = umem_read m arg sizeof_device_ioctrl_dma" by simp
  obtain out where out: "out = take (unat (dma_size r)) (drop (unat (dma_offset r)) (bytes_of_words ds))"
    by simp
  have ok: "dma_offset r mod 4 = 0 \<and> unat (dma_offset r + dma_size r) \<le> MTCADUMMY_DMA_SIZE"
  proof (rule ccontr)
    assume "\<not> ?thesis"
    then have "ioctl_answer K d ds Read_dma bs = Inl (- EFAULT)"
      unfolding bs by (auto simp: Let_def assms(3) [symmetric])
    with assms(2) c x show False by (simp add: ioctl_outcome_def errno_defs)
  qed
  then show "dma_offset r mod 4 = 0" by simp
  have s: "unat (dma_offset r + dma_size r) = unat (dma_offset r) + unat (dma_size r)"
    using assms(5) by (simp add: unat_word_ariths)
  with ok show le: "unat (dma_offset r) + unat (dma_size r) \<le> MTCADUMMY_DMA_SIZE" by simp
  have a: "ioctl_answer K d ds Read_dma bs = Inr out"
    using ok unfolding bs out by (simp add: Let_def assms(3) [symmetric] not_less)
  obtain m2 y where o: "k_copy_to_user K (Suc tk) m arg out = (m2, y)" by fastforce
  have "y = 0" "m' = m2"
    using assms(2) c x a o by (auto simp: ioctl_outcome_def errno_defs split: if_splits)
  with uaccess_to [OF assms(1) o] have m: "m' = umem_write m arg out" by simp
  have l: "length out = unat (dma_size r)" using le assms(4) by (simp add: out size_defs)
  moreover have "unat (dma_size r) < 2 ^ 64" using le by (simp add: size_defs)
  ultimately show "umem_read m' arg (unat (dma_size r)) =
      take (unat (dma_size r)) (drop (unat (dma_offset r)) (bytes_of_words ds))"
    using umem_read_write [of out m arg] unfolding m by (simp add: out [symmetric])
qed

text \<open>
  C31. Both handlers with a DMA command give the user the bytes of the DMA area: when a call
  returns 0, the requested range is aligned and within the area, and the user buffer holds
  exactly this range.
\<close>

theorem ioctl_read_dma_bytes:
  assumes "idle s" and "private_data filp = Some d" and "d < MTCADUMMY_NR_DEVS" and "uaccess_ok K"
    and "(handler, cmd) \<in> {(mtcaDummy_ioctl, PCIEDEV_READ_DMA), (pcieuniDummy_ioctl, PCIEUNI_READ_DMA)}"
    and "handler K filp cmd arg s = Some (0, t)"
    and "r = decode_ioctrl_dma (umem_read (umem s) arg sizeof_device_ioctrl_dma)"
    and "unat (dma_offset r) + unat (dma_size r) < 2 ^ 32"
  shows "dma_offset r mod 4 = 0 \<and> unat (dma_offset r) + unat (dma_size r) \<le> MTCADUMMY_DMA_SIZE \<and>
    umem_read (umem t) arg (unat (dma_size r)) =
      take (unat (dma_size r)) (drop (unat (dma_offset r)) (bytes_of_words (dma s d)))"
proof -
  have h: "ioctl_handler handler mtca_accepts mtca_understand \<and> mtca_understand cmd = Read_dma \<or>
      ioctl_handler handler pcieuni_accepts pcieuni_understand \<and> pcieuni_understand cmd = Read_dma"
    using assms(5) mtca.ioctl_handler_axioms pcieuni.ioctl_handler_axioms command_table(1,3) by auto
  then obtain accepts understand where h: "ioctl_handler handler accepts understand" "understand cmd = Read_dma"
    by blast
  have len: "length (dma s d) = DMA_WORDS"
    using assms(1,3) by (simp add: idle_def live_def wf_length_dma)
  obtain bs x where c: "k_copy_from_user K (Suc (tick s)) (umem s) arg sizeof_device_ioctrl_dma = (bs, x)" by fastforce
  have "unat (dma_offset (decode_ioctrl_dma bs)) + unat (dma_size (decode_ioctrl_dma bs)) < 2 ^ 32" if "x = 0"
    using assms(8) uaccess_from(2) [OF assms(4) c] that by (simp add: assms(7))
  with c have fits: "dma_request_fits K (Suc (tick s)) (umem s) arg"
    by (auto simp: dma_request_fits_def dma_wraps_def Let_def)
  have "(0, umem t) =
      (if \<not> accepts cmd then (- ENOTTY, umem s)
       else if \<not> user_access_ok K cmd arg then (- EFAULT, umem s)
       else if k_lock K (tick s) (DevMutex d) \<noteq> 0 then (- ERESTARTSYS, umem s)
       else ioctl_outcome K d (dma s d) (Suc (tick s)) (umem s) Read_dma arg)"
    using ioctl_handler.total [OF h(1) assms(1-3), of K cmd arg] fits
    by (simp only: ioctl_escapes_def assms(6) h(2) ensures_Some simp_thms)
  then have "ioctl_outcome K d (dma s d) (Suc (tick s)) (umem s) Read_dma arg = (0, umem t)"
    by (auto simp: errno_defs split: if_splits)
  from outcome_read_dma [OF assms(4) this assms(7) len assms(8)] show ?thesis by simp
qed

lemma ask_ioctl_dma:
  "decode_ioctrl_dma (umem_read (umem (ask_ioctl [a, b, c, e, f, g] s)) 0 sizeof_device_ioctrl_dma) =
    \<lparr>dma_offset = a, dma_size = b, dma_cmd = c, dma_pattern = e, dma_reserved1 = f, dma_reserved2 = g\<rparr>"
proof -
  have "umem_read (umem (ask_ioctl [a, b, c, e, f, g] s)) 0 sizeof_device_ioctrl_dma =
      bytes_of_words [a, b, c, e, f, g]"
    using ask_ioctl_bytes [of "[a, b, c, e, f, g]" s]
    by (simp add: sizeof_device_ioctrl_dma_def del: bytes_of_words_simps)
  then show ?thesis
    by (simp add: decode_ioctrl_dma_def word_at_encode eval_nat_numeral del: bytes_of_words_simps)
qed

lemma bytes_of_zeros: "bytes_of_words (replicate n 0) = replicate (4 * n) 0"
proof (induction n)
  case (Suc n)
  have "bytes_of (0 :: u32) = [0, 0, 0, 0]" by (simp add: bytes_of_def)
  with Suc show ?case by (simp add: numeral_eq_Suc)
qed simp

theorem ioctl_read_dma_bytes_witness:
  "\<exists>t. pcieuniDummy_ioctl ref_kernel (opened 6) PCIEUNI_READ_DMA 0 (ask_ioctl [8, 4, 0, 0, 0, 0] ref_sys) = Some (0, t) \<and>
    umem_read (umem t) 0 4 = [0, 0, 0, 0]"
proof -
  let ?s = "ask_ioctl [8, 4, 0, 0, 0, 0] ref_sys"
  let ?r = "\<lparr>dma_offset = 8, dma_size = 4, dma_cmd = 0, dma_pattern = 0, dma_reserved1 = 0, dma_reserved2 = 0\<rparr>"
  have six: "6 < MTCADUMMY_NR_DEVS" by (simp add: size_defs)
  have i: "idle ?s" by simp
  have u: "pcieuni_understand PCIEUNI_READ_DMA = Read_dma" "pcieuni_accepts PCIEUNI_READ_DMA"
    using command_table(3) commands_accepted(3) by simp_all
  have "dma_request_fits ref_kernel (Suc (tick ?s)) (umem ?s) 0"
    by (simp add: dma_request_fits_def dma_wraps_def ask_ioctl_dma Let_def)
  with pcieuni.total [OF i opened_simps six, of ref_kernel PCIEUNI_READ_DMA 0] u
  obtain t where t: "pcieuniDummy_ioctl ref_kernel (opened 6) PCIEUNI_READ_DMA 0 ?s = Some (0, t)"
    by (auto simp: ensures_iff ioctl_escapes_def ioctl_outcome_def ask_ioctl_dma Let_def size_defs)
  have z: "take 4 (drop 8 (bytes_of_words (replicate DMA_WORDS 0))) = [0, 0, 0, 0 :: u8]"
  proof -
    have "take 4 (drop 8 (bytes_of_words (replicate DMA_WORDS 0))) = (replicate 4 0 :: u8 list)"
      by (simp add: bytes_of_zeros size_defs)
    then show ?thesis by (simp add: eval_nat_numeral)
  qed
  have h: "(pcieuniDummy_ioctl, PCIEUNI_READ_DMA) \<in>
      {(mtcaDummy_ioctl, PCIEDEV_READ_DMA), (pcieuniDummy_ioctl, PCIEUNI_READ_DMA)}" by simp
  from ioctl_read_dma_bytes [OF i opened_simps six ref_uaccess_ok h t ask_ioctl_dma [symmetric]] z six t
  show ?thesis by auto
qed

text \<open>
  C32. The bound check of a DMA command adds two 32-bit numbers: when their sum wraps
  around to at most the size of the area, the handler goes on to copy from outside the
  area, so the model has no result for the call.
\<close>

theorem ioctl_dma_wrap:
  assumes "idle s" and "private_data filp = Some d" and "d < MTCADUMMY_NR_DEVS"
    and "(handler, cmd) \<in> {(mtcaDummy_ioctl, PCIEDEV_READ_DMA), (pcieuniDummy_ioctl, PCIEUNI_READ_DMA)}"
    and "user_access_ok K cmd arg" and "k_lock K (tick s) (DevMutex d) = 0"
    and "k_copy_from_user K (Suc (tick s)) (umem s) arg sizeof_device_ioctrl_dma = (bytes, 0)"
    and "r = decode_ioctrl_dma bytes" and "dma_offset r mod 4 = 0"
    and "2 ^ 32 \<le> unat (dma_offset r) + unat (dma_size r)"
    and "unat (dma_offset r + dma_size r) \<le> MTCADUMMY_DMA_SIZE"
  shows "handler K filp cmd arg s = None"
proof -
  have "mtca_accepts PCIEDEV_READ_DMA" "mtca_understand PCIEDEV_READ_DMA = Read_dma"
    "pcieuni_accepts PCIEUNI_READ_DMA" "pcieuni_understand PCIEUNI_READ_DMA = Read_dma"
    using commands_accepted command_table by simp_all
  with assms(4) show ?thesis
    using run_ioctl_dma_wrap [OF assms(1-3) _ _ assms(5-11)] by (auto simp: handlers_run)
qed

theorem ioctl_dma_wrap_witness:
  "mtcaDummy_ioctl ref_kernel (opened 3) PCIEDEV_READ_DMA 0
     (ask_ioctl [0xFFFFFFFC, 8, 0, 0, 0, 0] ref_sys) = None"
proof -
  let ?s = "ask_ioctl [0xFFFFFFFC, 8, 0, 0, 0, 0] ref_sys"
  let ?bytes = "umem_read (umem ?s) 0 sizeof_device_ioctrl_dma"
  have three: "3 < MTCADUMMY_NR_DEVS" by (simp add: size_defs)
  have i: "idle ?s" by simp
  have h: "(mtcaDummy_ioctl, PCIEDEV_READ_DMA) \<in>
      {(mtcaDummy_ioctl, PCIEDEV_READ_DMA), (pcieuniDummy_ioctl, PCIEUNI_READ_DMA)}" by simp
  have c: "k_copy_from_user ref_kernel (Suc (tick ?s)) (umem ?s) 0 sizeof_device_ioctrl_dma = (?bytes, 0)"
    by simp
  show ?thesis
    by (rule ioctl_dma_wrap [OF i opened_simps three h _ _ c ask_ioctl_dma [symmetric]])
      (simp_all add: size_defs)
qed

text \<open>Every command of the three headers, with the handler it is for and what it asks for.\<close>

definition header_commands ::
    "((kernel \<Rightarrow> open_file \<Rightarrow> u32 \<Rightarrow> u64 \<Rightarrow> sys \<Rightarrow> (int \<times> sys) option) \<times> u32 \<times> request) set" where
  "header_commands =
     {(mtcaDummy_ioctl, PCIEDEV_PHYSICAL_SLOT, Physical_slot),
      (mtcaDummy_ioctl, PCIEDEV_DRIVER_VERSION, Version),
      (mtcaDummy_ioctl, PCIEDEV_FIRMWARE_VERSION, Version),
      (mtcaDummy_ioctl, PCIEDEV_READ_DMA, Read_dma),
      (mtcaDummy_ioctl, PCIEDEV_GET_DMA_TIME, Unsupported),
      (mtcaDummy_ioctl, PCIEDEV_WRITE_DMA, Unsupported),
      (mtcaDummy_ioctl, PCIEDEV_SET_IRQ, Unsupported),
      (llrfDummy_ioctl, LLRFDRV_PHYSICAL_SLOT, Physical_slot),
      (llrfDummy_ioctl, LLRFDRV_DRIVER_VERSION, Version),
      (llrfDummy_ioctl, LLRFDRV_FIRMWARE_VERSION, Version),
      (pcieuniDummy_ioctl, PCIEUNI_PHYSICAL_SLOT, Physical_slot),
      (pcieuniDummy_ioctl, PCIEUNI_DRIVER_VERSION, Version),
      (pcieuniDummy_ioctl, PCIEUNI_FIRMWARE_VERSION, Version),
      (pcieuniDummy_ioctl, PCIEUNI_READ_DMA, Read_dma),
      (pcieuniDummy_ioctl, PCIEUNI_GET_DMA_TIME, Unsupported),
      (pcieuniDummy_ioctl, PCIEUNI_WRITE_DMA, Unsupported),
      (pcieuniDummy_ioctl, PCIEUNI_SET_IRQ, Unsupported)}"

lemma header_commands_contract:
  assumes "(handler, cmd, req) \<in> header_commands"
  obtains accepts understand where "ioctl_handler handler accepts understand"
    and "accepts cmd" and "understand cmd = req"
proof -
  consider "handler = mtcaDummy_ioctl" "mtca_accepts cmd" "mtca_understand cmd = req"
    | "handler = llrfDummy_ioctl" "llrf_accepts cmd" "llrf_understand cmd = req"
    | "handler = pcieuniDummy_ioctl" "pcieuni_accepts cmd" "pcieuni_understand cmd = req"
    using assms commands_accepted command_table
    by (simp only: header_commands_def insert_iff empty_iff prod.inject list.pred_inject list.map list.inject
        simp_thms) blast
  then show thesis
    by cases (rule that; (assumption | simp add: mtca.ioctl_handler_axioms llrf.ioctl_handler_axioms
      pcieuni.ioctl_handler_axioms))+
qed

text \<open>
  C34. The command numbers, on the handlers themselves: called with a command of the header
  of its interface, the handler that gets its device gives the answer the name of the command
  asks for (the slot number, the version, the bytes of the DMA area; the DMA time, DMA write
  and interrupt commands are answered with \<open>-ENOTTY\<close>), or copies from outside the DMA area
  when the request of a \<open>READ_DMA\<close> wraps around. And every number, in the headers or not, is
  refused with \<open>-ENOTTY\<close>, before the state is touched, by at least two of the three handlers.
\<close>

theorem command_numbers:
  assumes "idle s" and "private_data filp = Some d" and "d < MTCADUMMY_NR_DEVS"
    and "(handler, cmd, req) \<in> header_commands"
    and "user_access_ok K cmd arg" and "k_lock K (tick s) (DevMutex d) = 0"
  shows "(if req = Read_dma \<and> \<not> dma_request_fits K (Suc (tick s)) (umem s) arg
      then handler K filp cmd arg s = None
      else ensures (handler K filp cmd arg s) (\<lambda>r t. regs t d = regs s d \<and> dma t d = dma s d \<and>
        (r, umem t) = ioctl_outcome K d (dma s d) (Suc (tick s)) (umem s) req arg)) \<and>
    length (filter (\<lambda>handler. handler K filp' cmd' arg' s' \<noteq> Some (- ENOTTY, s'))
      [mtcaDummy_ioctl, llrfDummy_ioctl, pcieuniDummy_ioctl]) \<le> 1"
proof
  obtain accepts understand where h: "ioctl_handler handler accepts understand"
    and c: "accepts cmd" "understand cmd = req"
    using assms(4) by (rule header_commands_contract)
  show "if req = Read_dma \<and> \<not> dma_request_fits K (Suc (tick s)) (umem s) arg
      then handler K filp cmd arg s = None
      else ensures (handler K filp cmd arg s) (\<lambda>r t. regs t d = regs s d \<and> dma t d = dma s d \<and>
        (r, umem t) = ioctl_outcome K d (dma s d) (Suc (tick s)) (umem s) req arg)"
    using ioctl_handler.escapes [OF h assms(1-3), of K cmd arg]
      ioctl_handler.serves [OF h c(1) assms(5,1-3,6)] c assms(5,6)
    by (auto simp: ioctl_escapes_def elim: ensures_mono)
  show "length (filter (\<lambda>handler. handler K filp' cmd' arg' s' \<noteq> Some (- ENOTTY, s'))
      [mtcaDummy_ioctl, llrfDummy_ioctl, pcieuniDummy_ioctl]) \<le> 1"
    using accepted_once [of cmd'] mtca.rejects [of cmd' K filp' arg' s']
      llrf.rejects [of cmd' K filp' arg' s'] pcieuni.rejects [of cmd' K filp' arg' s']
    by (cases "mtca_accepts cmd'"; cases "llrf_accepts cmd'"; simp)
qed

theorem command_numbers_witness:
  "\<exists>t. llrfDummy_ioctl ref_kernel (opened 4) LLRFDRV_PHYSICAL_SLOT 0 (ask_ioctl [1, 2, 3, 5] ref_sys) =
      Some (0, t) \<and>
    umem t = umem_write (umem (ask_ioctl [1, 2, 3, 5] ref_sys)) 0
      (encode_ioctrl_data \<lparr>ctl_offset = 1, ctl_data = 4, ctl_cmd = 3, ctl_reserved = 5\<rparr>)"
proof -
  let ?s = "ask_ioctl [1, 2, 3, 5] ref_sys"
  have four: "4 < MTCADUMMY_NR_DEVS" by (simp add: size_defs)
  have i: "idle ?s" by simp
  have h: "(llrfDummy_ioctl, LLRFDRV_PHYSICAL_SLOT, Physical_slot) \<in> header_commands"
    by (simp add: header_commands_def)
  from conjunct1 [OF command_numbers [OF i opened_simps four h, of ref_kernel 0]] show ?thesis
    by (auto simp: ensures_iff ioctl_outcome_def ask_ioctl_data)
qed

end
