(* ===== verification/System_Properties.thy ===== *)
theory System_Properties
  imports System Transfer_Properties Proc_Properties
begin

text \<open>
  The properties of the module as a whole: loading and unloading, what holds in every world
  that processes can reach, and how the proc file, the devices and the tables of file
  operations act together.
\<close>

section \<open>Loading and unloading\<close>

text \<open>
  C21. Loading is all or nothing for every refusal that the code checks (the device numbers,
  the class, the memory, adding a character device, a null pointer for a device node): either
  the module returns 0, none of these was refused, and every device is set up, with its bars
  allocated and initialised; or it returns -1, with nothing registered and the heap as it was
  found. Two refusals are not checked: a device node refused with an error pointer and a
  refused proc entry are missing among the registered resources of a module that has
  returned 0.
\<close>

theorem init_all_or_nothing:
  assumes "kmalloc_ok K" and "held s = {}" and "registered s = {}"
  shows "ensures (mtcaDummy_init_module K s) (\<lambda>r t.
    held t = {} \<and> control t = control s \<and> umem t = umem s \<and>
    (if r = 0 then
       k_alloc_chrdev_region K = 0 \<and> k_class_create_ok K \<and>
       (\<forall>d \<in> {..<MTCADUMMY_NR_DEVS}. k_cdev_add K d = 0 \<and> k_device_create K d \<noteq> CreateNull) \<and>
       wf_sys t \<and>
       registered t = {ChrdevRegion, DevClass} \<union> (\<Union>d \<in> {..<MTCADUMMY_NR_DEVS}. {MutexInit d, Cdev d}) \<union>
         DevNode ` {d \<in> {..<MTCADUMMY_NR_DEVS}. k_device_create K d = Created} \<union>
         (if k_proc_create_ok K then {ProcEntry} else {}) \<and>
       (\<forall>d \<in> {..<MTCADUMMY_NR_DEVS}.
         devs t ! d = fresh_dev K d (systemBar (devs t ! d)) (dmaBar (devs t ! d)) \<and>
         regs t d = initial_regs K \<and> dma t d = replicate DMA_WORDS 0)
     else r = - 1 \<and> registered t = {} \<and> heap t = heap s))"
proof (rule ensures_mono [OF mtcaDummy_init_module_refines [OF assms]], goal_cases)
  case (1 r t)
  show ?case
  proof (cases "r = 0")
    case True
    with 1 have l: "loaded K s t" by simp
    then have "wf_sys t" by (simp add: loaded_def idle_def live_def wf_sys_def)
    moreover have "{0..<MTCADUMMY_NR_DEVS} = {..<MTCADUMMY_NR_DEVS}" by auto
    ultimately show ?thesis using l True assms(2)
      by (simp add: loaded_def same_outside_def granted_def module_resources_def resources_def)
  next
    case False
    with 1 assms(2) show ?thesis by (simp add: undone_def same_outside_def)
  qed
qed

theorem init_all_or_nothing_witness:
  "\<exists>t. mtcaDummy_init_module ref_kernel ref_unloaded = Some (0, t) \<and>
    regs t 6 = initial_regs ref_kernel \<and> slotNr (devs t ! 6) = 6"
proof -
  have six: "6 \<in> {..<MTCADUMMY_NR_DEVS}" by (simp add: size_defs)
  have "devs ref_loaded ! 6 = fresh_dev ref_kernel 6 (systemBar (devs ref_loaded ! 6)) (dmaBar (devs ref_loaded ! 6)) \<and>
      regs ref_loaded 6 = initial_regs ref_kernel"
    using init_all_or_nothing [OF ref_kmalloc_ok ref_unloaded_simps] six
    unfolding ref_init by (simp only: ensures_Some if_True refl)
  moreover from this have "slotNr (devs ref_loaded ! 6) = of_nat 6"
    by (metis fresh_dev_def mtcaDummyData.select_convs(3))
  ultimately show ?thesis using ref_init by auto
qed

text \<open>
  C22. Loading and then unloading gives back everything: no resource is left, and the heap
  is the one the module found.
\<close>

theorem load_unload:
  assumes "kmalloc_ok K" and "held s = {}" and "registered s = {}"
    and "mtcaDummy_init_module K s = Some (0, t)"
  shows "ensures (mtcaDummy_cleanup_module t) (\<lambda>_ u.
    heap u = heap s \<and> registered u = {} \<and> held u = {} \<and> control u = control s \<and> umem u = umem s)"
proof -
  have l: "loaded K s t"
    "holds (heap s) K 0 MTCADUMMY_NR_DEVS (t\<lparr>registered := registered t - {ProcEntry}\<rparr>)"
    using mtcaDummy_init_module_refines [OF assms(1-3)] assms(4) by simp_all
  then have wf: "wf_sys t" and r: "registered t = module_resources K"
    by (simp_all add: loaded_def idle_def live_def wf_sys_def)
  show ?thesis
    using l(1) assms(2) by (auto intro!: ensures_mono [OF mtcaDummy_cleanup_module_refines [OF wf r]]
        simp: loaded_heap [OF l(2) wf] same_outside_def loaded_def)
qed

theorem load_unload_witness:
  "\<exists>u. mtcaDummy_cleanup_module ref_loaded = Some ((), u) \<and> heap u = Map.empty \<and> registered u = {}"
  using load_unload [OF ref_kmalloc_ok ref_unloaded_simps ref_init]
  by (auto simp: ensures_iff ref_unloaded_def)

section \<open>Every reachable world\<close>

lemma world_ok_count:
  assumes "world_ok K w" and "d < MTCADUMMY_NR_DEVS"
  shows "inUse (devs (kern w) ! d) =
    (if d = 5 then 0 else of_nat (length (filter (\<lambda>h. fh_dev h = d) (files w))))"
proof -
  have "private_data (fh_file h) = Some d \<longleftrightarrow> d \<noteq> 5 \<and> fh_dev h = d" if "h \<in> set (files w)" for h
    using assms(1) that by (auto simp: world_ok_def list_all_iff handle_ok_def)
  then have "filter (\<lambda>h. private_data (fh_file h) = Some d) (files w) =
      filter (\<lambda>h. d \<noteq> 5 \<and> fh_dev h = d) (files w)"
    by (intro filter_cong) auto
  with assms show ?thesis by (simp add: world_ok_def open_count_def)
qed

text \<open>The reference machine after a process has opened the device \<open>d\<close>.\<close>

definition ref_opened :: "nat \<Rightarrow> world" where
  "ref_opened d =
    \<lparr>kern = count_opens d 1 (flag_read (kern ref_world)),
     files = [\<lparr>fh_dev = d, fh_file = opened d, fh_pos = 0\<rparr>]\<rparr>"

lemma reach_call:
  assumes "reachable K s w" and "permitted K c w" and "exec_call K c w = Some (r, w')"
  shows "reachable K s w'"
  using assms by (blast intro: reachable.call step.step)

lemma ref_world_simps [simp]:
  "files ref_world = []" "log (kern ref_world) = []" "control (kern ref_world) = no_errors"
  by (simp_all add: ref_world_def ref_loaded_def ref_loading_def)

lemma ref_open_exec:
  assumes "d < MTCADUMMY_NR_DEVS" and "d \<noteq> 5"
  shows "exec_call ref_kernel (Open d) ref_world = Some (0, ref_opened d)"
proof -
  have idle: "idle (kern ref_world)" using ref_world_ok by (rule world_okD)
  from mtcaDummy_open_refines [OF idle assms(1), of ref_kernel fresh_file]
  have "mtcaDummy_open ref_kernel d fresh_file (kern ref_world) =
      Some ((0, opened d), count_opens d 1 (flag_read (kern ref_world)))"
    by (auto simp: ensures_iff fresh_file_def opened_def)
  then show ?thesis
    using world_okD(2) [OF ref_world_ok assms(1)] assms
    by (simp add: call_open_def file_ops_cases ref_opened_def)
qed

lemma ref_opened_reachable:
  assumes "d < MTCADUMMY_NR_DEVS" and "d \<noteq> 5"
  shows "reachable ref_kernel ref_unloaded (ref_opened d)"
  using reach_call [OF ref_reachable _ ref_open_exec [OF assms]] assms(1) by simp

lemma ref_opened_log: "log (kern (ref_opened d)) = [Acquire ControlMutex, Flags, Release ControlMutex]"
  by (simp add: ref_opened_def flag_read_def take_lock_def note_flags_def drop_lock_def)

text \<open>
  C4. The invariant of the running module, after any sequence of calls of any processes: no
  mutex is held between calls, the bars are distinct blocks of the right sizes, the
  resources are exactly those that the kernel has granted to the loaded module (a device node
  that was refused with an error pointer and a proc entry that was refused are missing), and
  the open count of every device is the number of its open files; the count of the device 5,
  whose table of file operations is empty, is 0 whatever files of it are open.
\<close>

theorem running_invariant:
  assumes "reachable K s w" and "kmalloc_ok K" and "uaccess_ok K" and "held s = {}" and "registered s = {}"
  shows "held (kern w) = {} \<and> wf_sys (kern w) \<and>
    registered (kern w) = module_resources K \<and>
    (\<forall>d \<in> {..<MTCADUMMY_NR_DEVS}. inUse (devs (kern w) ! d) =
      (if d = 5 then 0 else of_nat (length (filter (\<lambda>h. fh_dev h = d) (files w)))))"
proof -
  have w: "world_ok K w" by (rule reachable_world_ok [OF assms])
  then have "idle (kern w)" by (rule world_okD)
  with w world_ok_count [OF w] show ?thesis by (simp add: idle_def live_def world_ok_def)
qed

theorem running_invariant_witness:
  "inUse (devs (kern (ref_opened 2)) ! 2) = 1 \<and> inUse (devs (kern (ref_opened 2)) ! 3) = 0"
proof -
  have two: "2 < MTCADUMMY_NR_DEVS" "2 \<in> {..<MTCADUMMY_NR_DEVS}" "3 \<in> {..<MTCADUMMY_NR_DEVS}"
    by (simp_all add: size_defs)
  have "reachable ref_kernel ref_unloaded (ref_opened 2)"
    by (rule ref_opened_reachable) (simp_all add: two)
  from running_invariant [OF this ref_kmalloc_ok ref_uaccess_ok ref_unloaded_simps] two(2,3)
  show ?thesis by (simp add: ref_opened_def del: count_opens_bars)
qed

text \<open>
  C3. Safety: in every reachable world, every call the kernel may hand to the driver has a
  defined result. No handler follows a pointer outside its blocks, unlocks a mutex it does
  not hold, takes one it holds, or runs on a file without a device. What is excluded are only
  the calls that get as far as copying for a DMA request whose bound check has wrapped around.
\<close>

theorem calls_are_safe:
  assumes "reachable K s w" and "kmalloc_ok K" and "uaccess_ok K" and "held s = {}" and "registered s = {}"
    and "permitted K c w"
  shows "\<exists>r w'. exec_call K c w = Some (r, w') \<and> step K w c r w' \<and> reachable K s w'"
proof -
  have "world_ok K w" by (rule reachable_world_ok [OF assms(1-5)])
  from exec_call_ok [OF this assms(6,3)] obtain r w' where "exec_call K c w = Some (r, w')"
    by (auto simp: ensures_iff)
  then show ?thesis
    using assms(1,6) by (blast intro: reach_call step.step)
qed

theorem calls_are_safe_witness:
  "\<exists>r w'. exec_call ref_kernel (Proc_show 5) ref_world = Some (r, w') \<and>
    step ref_kernel ref_world (Proc_show 5) r w' \<and> reachable ref_kernel ref_unloaded w'"
  by (rule calls_are_safe [OF ref_reachable ref_kmalloc_ok ref_uaccess_ok ref_unloaded_simps])
    (simp add: size_defs)

text \<open>
  C5. The locking discipline, at every moment of every run: the bars of a device are only
  touched under the mutex of this device, the error switches only under the control mutex,
  a mutex is released only when it is held, and it is taken only when all mutexes that are
  held come before it in one fixed order, the devices before the control mutex, so that
  processes cannot wait for each other in a circle.
\<close>

theorem locking_discipline:
  assumes "reachable K s w" and "kmalloc_ok K" and "uaccess_ok K" and "held s = {}" and "registered s = {}"
    and "log (kern w) = before @ e # after"
  shows "\<exists>H. lock_run (devs (kern w)) before {} = Some H \<and>
    (case e of
       Acquire m \<Rightarrow> \<forall>h \<in> H. h < m
     | Release m \<Rightarrow> m \<in> H
     | Access p \<Rightarrow> \<forall>d \<in> {..<MTCADUMMY_NR_DEVS}.
         p = systemBar (devs (kern w) ! d) \<or> p = dmaBar (devs (kern w) ! d) \<longrightarrow> DevMutex d \<in> H
     | Flags \<Rightarrow> ControlMutex \<in> H)"
proof -
  have "world_ok K w" by (rule reachable_world_ok [OF assms(1-5)])
  then have i: "idle (kern w)" by (rule world_okD)
  then have "lock_run (devs (kern w)) (before @ e # after) {} = Some {}"
    by (simp add: idle_def live_def disciplined_def assms(6) [symmetric])
  then obtain H H' where "lock_run (devs (kern w)) before {} = Some H"
    "lock_step (devs (kern w)) e H = Some H'"
    by (auto simp: lock_run_append bind_eq_Some_conv)
  then show ?thesis
    using idle_length_devs [OF i]
    by (intro exI [of _ H] conjI) (auto simp: guarded_def list_all_iff split: event.splits if_splits)
qed

theorem locking_discipline_witness:
  "\<exists>H. lock_run (devs (kern (ref_opened 2))) [Acquire ControlMutex] {} = Some H \<and> ControlMutex \<in> H"
proof -
  have r: "reachable ref_kernel ref_unloaded (ref_opened 2)"
    by (rule ref_opened_reachable) (simp_all add: size_defs)
  have l: "log (kern (ref_opened 2)) = [Acquire ControlMutex] @ Flags # [Release ControlMutex]"
    by (simp add: ref_opened_log)
  from locking_discipline [OF r ref_kmalloc_ok ref_uaccess_ok ref_unloaded_simps l] show ?thesis
    by simp
qed

text \<open>
  C8. What a call can change: the bars of a device are only changed by writing to a file of
  this device, and the error switches only by writing to the proc file. No other call, on
  whatever file and with whatever arguments, and no error path of any call changes them.
\<close>

theorem call_footprint:
  assumes "reachable K s w" and "kmalloc_ok K" and "uaccess_ok K" and "held s = {}" and "registered s = {}"
    and "permitted K c w" and "exec_call K c w = Some (r, w')" and "d < MTCADUMMY_NR_DEVS"
    and "\<And>i buf count. c = Write i buf count \<Longrightarrow> fh_dev (files w ! i) \<noteq> d"
  shows "regs (kern w') d = regs (kern w) d \<and> dma (kern w') d = dma (kern w) d \<and>
    ((\<forall>ubuf count. c \<noteq> Proc_write ubuf count) \<longrightarrow> control (kern w') = control (kern w))"
proof -
  have "world_ok K w" by (rule reachable_world_ok [OF assms(1-5)])
  from exec_call_ok [OF this assms(6,3)] assms(7) have f: "frame c w w'" by simp
  have "d \<notin> written c w" using assms(9) by (cases c) auto
  moreover have "sets_switches c \<Longrightarrow> \<exists>ubuf count. c = Proc_write ubuf count" by (cases c) auto
  ultimately show ?thesis using f assms(8) by (auto simp: frame_def)
qed

theorem call_footprint_witness:
  "\<exists>r w'. exec_call ref_kernel (Write 0 0 24) (ref_opened 2) = Some (r, w') \<and>
    regs (kern w') 3 = regs (kern (ref_opened 2)) 3 \<and> control (kern w') = no_errors"
proof -
  have r: "reachable ref_kernel ref_unloaded (ref_opened 2)"
    by (rule ref_opened_reachable) (simp_all add: size_defs)
  have p: "permitted ref_kernel (Write 0 0 24) (ref_opened 2)"
    by (simp add: ref_opened_def MAX_RW_COUNT_def)
  have three: "3 < MTCADUMMY_NR_DEVS" by (simp add: size_defs)
  have "world_ok ref_kernel (ref_opened 2)"
    by (rule reachable_world_ok [OF r]) simp_all
  from exec_call_ok [OF this p ref_uaccess_ok] obtain x w' where
    e: "exec_call ref_kernel (Write 0 0 24) (ref_opened 2) = Some (x, w')"
    by (auto simp: ensures_iff)
  have "regs (kern w') 3 = regs (kern (ref_opened 2)) 3 \<and> dma (kern w') 3 = dma (kern (ref_opened 2)) 3 \<and>
    ((\<forall>ubuf count. Write 0 0 24 \<noteq> Proc_write ubuf count) \<longrightarrow>
      control (kern w') = control (kern (ref_opened 2)))"
    by (rule call_footprint [OF r ref_kmalloc_ok ref_uaccess_ok ref_unloaded_simps p e three])
      (auto simp: ref_opened_def)
  then have "regs (kern w') 3 = regs (kern (ref_opened 2)) 3" "control (kern w') = control (kern (ref_opened 2))"
    by simp_all
  moreover have "control (kern (ref_opened 2)) = no_errors" by (simp add: ref_opened_def)
  ultimately show ?thesis using e by auto
qed

text \<open>
  C23. Unloading from any reachable world, also with files still open, runs to its end: it
  frees exactly the bars of the seven devices, each once, and gives every resource back.
\<close>

theorem unload_anywhere:
  assumes "reachable K s w" and "kmalloc_ok K" and "uaccess_ok K" and "held s = {}" and "registered s = {}"
  shows "ensures (mtcaDummy_cleanup_module (kern w)) (\<lambda>_ t.
    registered t = {} \<and> heap t = heap (kern w) |` (- set (bar_blocks (devs (kern w)))) \<and>
    held t = {} \<and> control t = control (kern w))"
proof -
  have w: "world_ok K w" by (rule reachable_world_ok [OF assms])
  then have i: "idle (kern w)" and r: "registered (kern w) = module_resources K"
    by (simp_all add: world_ok_def)
  show ?thesis
    by (rule ensures_mono [OF mtcaDummy_cleanup_module_refines [OF idle_wf [OF i] r]])
      (use i in \<open>auto simp: same_outside_def idle_def\<close>)
qed

theorem unload_anywhere_witness:
  "\<exists>t. mtcaDummy_cleanup_module (kern (ref_opened 6)) = Some ((), t) \<and> registered t = {}"
proof -
  have r: "reachable ref_kernel ref_unloaded (ref_opened 6)"
    by (rule ref_opened_reachable) (simp_all add: size_defs)
  from unload_anywhere [OF r ref_kmalloc_ok ref_uaccess_ok ref_unloaded_simps] show ?thesis
    by (auto simp: ensures_iff)
qed

text \<open>
  C40. The device 5 is inert: it can be opened without limit and even while opening is
  switched to fail, but every read, write and control call on it is refused, and none of
  its calls, not even opening it, reaches the driver. Its table of file operations,
  \<open>noIoctlDummyFileOps\<close>, is only declared; the table that the code fills has another name.
\<close>

theorem device_5_inert:
  assumes "reachable K s w" and "kmalloc_ok K" and "uaccess_ok K" and "held s = {}" and "registered s = {}"
    and "i < length (files w)" and "fh_dev (files w ! i) = 5"
  shows "exec_call K (Open 5) w =
      Some (0, w\<lparr>files := files w @ [\<lparr>fh_dev = 5, fh_file = fresh_file, fh_pos = 0\<rparr>]\<rparr>) \<and>
    exec_call K (Read i buf count) w = Some (- EINVAL, w) \<and>
    exec_call K (Write i buf count) w = Some (- EINVAL, w) \<and>
    exec_call K (Ioctl i cmd arg) w = Some (- ENOTTY, w)"
proof -
  have w: "world_ok K w" by (rule reachable_world_ok [OF assms(1-5)])
  have five: "5 < MTCADUMMY_NR_DEVS" by (simp add: size_defs)
  note ops = world_okD(2) [OF w five]
  have "(files w)[i := (files w ! i)\<lparr>fh_pos := fh_pos (files w ! i)\<rparr>] = files w" by simp
  then show ?thesis
    using assms(7) by (simp add: ops five file_ops_cases call_open_def call_read_def call_write_def call_ioctl_def)
qed

theorem device_5_inert_witness:
  "\<exists>w. exec_call ref_kernel (Open 5) ref_world = Some (0, w) \<and>
    exec_call ref_kernel (Read 0 0 24) w = Some (- EINVAL, w)"
proof -
  have five: "5 < MTCADUMMY_NR_DEVS" by (simp add: size_defs)
  let ?w = "ref_world\<lparr>files := [\<lparr>fh_dev = 5, fh_file = fresh_file, fh_pos = 0\<rparr>]\<rparr>"
  have e: "exec_call ref_kernel (Open 5) ref_world = Some (0, ?w)"
    using world_okD(2) [OF ref_world_ok five] by (simp add: five file_ops_cases call_open_def)
  from reach_call [OF ref_reachable _ e] five have r: "reachable ref_kernel ref_unloaded ?w" by simp
  have "exec_call ref_kernel (Read 0 0 24) ?w = Some (- EINVAL, ?w)"
    using device_5_inert [OF r ref_kmalloc_ok ref_uaccess_ok ref_unloaded_simps, of 0 0 24] by simp
  with e show ?thesis by blast
qed

section \<open>The proc file and the devices\<close>

lemma call_open_failing:
  assumes "world_ok K w" and "d < MTCADUMMY_NR_DEVS" and "d \<noteq> 5" and "open_error (control (kern w))"
  shows "ensures (exec_call K (Open d) w) (\<lambda>e w'. e < 0 \<and> files w' = files w)"
  using world_okD(2) [OF assms(1,2)] assms(2-4) mtcaDummy_open_refines [OF world_okD(1) [OF assms(1)] assms(2), of K fresh_file]
  by (auto simp: call_open_def file_ops_cases wp errno_defs elim!: ensures_mono split: if_splits)

lemma call_read_failing:
  assumes "world_ok K w" and "uaccess_ok K" and "i < length (files w)" and "unat count \<le> MAX_RW_COUNT"
    and "fh_dev (files w ! i) \<noteq> 5" and "read_error (control (kern w))"
  shows "ensures (exec_call K (Read i buf count) w) (\<lambda>e w'. e < 0 \<and> umem (kern w') = umem (kern w))"
proof -
  let ?h = "files w ! i"
  note idle = world_okD(1) [OF assms(1)] and h = handle_device [OF world_okD(3) [OF assms(1,3)]]
  note pd = h(2) [OF assms(5)]
  note ops = world_okD(2) [OF assms(1) h(1)]
  have op: "fop_read (ops_at (kern w) (fh_dev ?h)) =
      (if fh_dev ?h = 6 then Some Mtca_read_no_struct else Some Mtca_read)"
    using h(1) assms(5) by (simp add: ops file_ops_cases)
  have "ensures (mtcaDummy_read K (fh_file ?h) buf count (kern w)) (\<lambda>e t. e < 0 \<and> umem t = umem (kern w))"
    by (rule ensures_mono [OF mtcaDummy_read_refines [OF idle pd h(1)]])
      (use assms(6) in \<open>auto simp: read_escapes_def entry_gate_def errno_defs split: if_splits\<close>)
  moreover have "ensures (mtcaDummy_read_no_struct K (fh_file ?h) buf count (fh_pos ?h) (kern w))
      (\<lambda>(e, pos) t. e < 0 \<and> umem t = umem (kern w))"
    by (rule ensures_mono [OF mtcaDummy_read_no_struct_refines [OF idle pd h(1) assms(2,4)]],
      cases "checkAndCalculateTransferInformation (devs (kern w) ! fh_dev ?h) count (fh_pos ?h)")
      (use assms(6) in \<open>auto simp: entry_gate_def errno_defs split: if_splits\<close>)
  ultimately show ?thesis
    unfolding exec_call.simps Let_def op
    by (auto simp: call_read_def keep_position_def wp ensures_iff)
qed

lemma call_write_failing:
  assumes "world_ok K w" and "uaccess_ok K" and "i < length (files w)" and "unat count \<le> MAX_RW_COUNT"
    and "fh_dev (files w ! i) \<noteq> 5" and "write_error (control (kern w))" and "d < MTCADUMMY_NR_DEVS"
  shows "ensures (exec_call K (Write i buf count) w)
    (\<lambda>e w'. e < 0 \<and> regs (kern w') d = regs (kern w) d \<and> dma (kern w') d = dma (kern w) d)"
proof -
  let ?h = "files w ! i"
  note idle = world_okD(1) [OF assms(1)] and h = handle_device [OF world_okD(3) [OF assms(1,3)]]
  note pd = h(2) [OF assms(5)]
  note ops = world_okD(2) [OF assms(1) h(1)]
  have op: "fop_write (ops_at (kern w) (fh_dev ?h)) =
      (if fh_dev ?h = 6 then Some Mtca_write_no_struct else Some Mtca_write)"
    using h(1) assms(5) by (simp add: ops file_ops_cases)
  have "ensures (mtcaDummy_write K (fh_file ?h) buf count (kern w))
      (\<lambda>e t. e < 0 \<and> regs t d = regs (kern w) d \<and> dma t d = dma (kern w) d)"
    by (rule ensures_mono [OF mtcaDummy_write_refines [OF idle pd h(1)]])
      (use assms(6,7) in \<open>auto simp: entry_gate_def errno_defs call_on_def split: if_splits\<close>)
  moreover have "ensures (mtcaDummy_write_no_struct K (fh_file ?h) buf count (fh_pos ?h) (kern w))
      (\<lambda>(e, pos) t. e < 0 \<and> regs t d = regs (kern w) d \<and> dma t d = dma (kern w) d)"
    by (rule ensures_mono [OF mtcaDummy_write_no_struct_refines [OF idle pd h(1) assms(2,4)]],
      cases "checkAndCalculateTransferInformation (devs (kern w) ! fh_dev ?h) count (fh_pos ?h)")
      (use assms(6,7) in \<open>auto simp: entry_gate_def errno_defs call_on_def split: if_splits\<close>)
  ultimately show ?thesis
    unfolding exec_call.simps Let_def op
    by (auto simp: call_write_def keep_position_def wp ensures_iff)
qed

text \<open>
  A read and a write that the registers and the bounds allow: on the device without a
  structure the transfer is aligned, covers at least one word of its bar and meets no
  register that fails; on the others the request in the user's buffer is for a word of a bar
  that can be read, or written.
\<close>

definition read_fits :: "nat \<Rightarrow> u64 \<Rightarrow> u64 \<Rightarrow> world \<Rightarrow> bool" where
  "read_fits i buf count w \<longleftrightarrow>
    (let h = files w ! i; d = fh_dev h; s = kern w; rs = regs s d; ds = dma s d;
       req = decode_device_rw (umem_read (umem s) buf sizeof_device_rw);
       a = unat (position_offset (fh_pos h)) div 4 in
     if d = 6 then
       (case bar_words (position_bar (fh_pos h)) rs ds of
          None \<Rightarrow> False
        | Some ws \<Rightarrow> let n = min (unat count div 4) (length ws - a) in
            0 < n \<and> covers s d (fh_pos h) count ws a n \<and>
            \<not> (position_bar (fh_pos h) = 0 \<and> a \<le> 18 \<and> 18 < a + n))
     else sizeof_device_rw \<le> unat count \<and> mode_rw req = RW_D32 \<and>
       \<not> isl (spec_read (barx_rw req) (offset_rw req) rs ds))"

definition write_fits :: "kernel \<Rightarrow> nat \<Rightarrow> u64 \<Rightarrow> u64 \<Rightarrow> world \<Rightarrow> bool" where
  "write_fits K i buf count w \<longleftrightarrow>
    (let h = files w ! i; d = fh_dev h; s = kern w; rs = regs s d; ds = dma s d;
       req = decode_device_rw (umem_read (umem s) buf sizeof_device_rw);
       a = unat (position_offset (fh_pos h)) div 4; spi = spi_error (control s) in
     if d = 6 then
       (case bar_words (position_bar (fh_pos h)) rs ds of
          None \<Rightarrow> False
        | Some ws \<Rightarrow> let n = min (unat count div 4) (length ws - a) in
            0 < n \<and> covers s d (fh_pos h) count ws a n \<and>
            fst (spec_writes K spi (position_bar (fh_pos h)) a (user_words (umem s) buf n) rs ds) = 0)
     else sizeof_device_rw \<le> unat count \<and> mode_rw req = RW_D32 \<and>
       fst (spec_write K False spi (barx_rw req) (offset_rw req) (data_rw req) rs ds) = 0)"

lemma call_open_succeeds:
  assumes "world_ok K w" and "quiet K" and "d < MTCADUMMY_NR_DEVS" and "d \<noteq> 5"
    and "\<not> open_error (control (kern w))"
  shows "ensures (exec_call K (Open d) w) (\<lambda>r u. r = 0 \<and>
    files u = files w @ [\<lparr>fh_dev = d, fh_file = \<lparr>private_data = Some d\<rparr>, fh_pos = 0\<rparr>])"
  using world_okD(2) [OF assms(1,3)] assms(3-5) quietD [OF assms(2)]
    mtcaDummy_open_refines [OF world_okD(1) [OF assms(1)] assms(3), of K fresh_file]
  by (auto simp: call_open_def file_ops_cases wp fresh_file_def elim!: ensures_mono split: if_splits)

lemma call_read_succeeds:
  assumes "world_ok K w" and "quiet K" and "i < length (files w)" and "fh_dev (files w ! i) \<noteq> 5"
    and "\<not> read_error (control (kern w))" and "read_fits i buf count w"
  shows "ensures (exec_call K (Read i buf count) w) (\<lambda>r _. 0 < r)"
proof -
  let ?h = "files w ! i" and ?s = "kern w"
  let ?d = "fh_dev ?h"
  note idle = world_okD(1) [OF assms(1)] and h = handle_device [OF world_okD(3) [OF assms(1,3)]]
  note pd = h(2) [OF assms(4)]
  note ops = world_okD(2) [OF assms(1) h(1)]
  show ?thesis
  proof (cases "?d = 6")
    case True
    then have op: "fop_read (ops_at ?s ?d) = Some Mtca_read_no_struct"
      using h(1) unfolding ops by (simp add: file_ops_cases)
    obtain ws a n where c: "covers ?s ?d (fh_pos ?h) count ws a n" "0 < n"
      "position_bar (fh_pos ?h) = 0 \<longrightarrow> \<not> (a \<le> 18 \<and> 18 < a + n)"
      using assms(6) True by (auto simp: read_fits_def Let_def split: option.splits)
    show ?thesis
      unfolding exec_call.simps Let_def op
      using quiet_read [OF assms(2) idle pd h(1) assms(5) c(1,3), of buf] c(2)
      by (auto simp: call_read_def wp elim!: ensures_mono)
  next
    case False
    then have op: "fop_read (ops_at ?s ?d) = Some Mtca_read"
      using h(1) assms(4) by (simp add: ops file_ops_cases)
    let ?req = "decode_device_rw (umem_read (umem ?s) buf sizeof_device_rw)"
    have rq: "read_request K buf ?s = (?req, 0)"
      by (simp add: read_request_def quietD [OF assms(2)])
    have f: "sizeof_device_rw \<le> unat count" "mode_rw ?req = RW_D32"
      "\<not> isl (spec_read (barx_rw ?req) (offset_rw ?req) (regs ?s ?d) (dma ?s ?d))"
      using assms(6) False by (simp_all add: read_fits_def Let_def)
    have "\<not> read_escapes K ?d buf count ?s"
      by (rule not_escaping) (use rq f(2) in \<open>simp add: rw_mode_defs\<close>)
    from mtcaDummy_read_refines [OF idle pd h(1) this] rq f assms(5)
    have "ensures (mtcaDummy_read K (fh_file ?h) buf count ?s) (\<lambda>r _. 0 < r)"
      by (auto simp: quiet_gate [OF assms(2)] send_reply_def spec_reply_def rw_mode_defs quietD [OF assms(2)]
          elim!: ensures_mono split: sum.splits)
    then show ?thesis
      unfolding exec_call.simps Let_def op
      by (auto simp: call_read_def keep_position_def wp ensures_iff)
  qed
qed

lemma call_write_succeeds:
  assumes "world_ok K w" and "quiet K" and "i < length (files w)" and "fh_dev (files w ! i) \<noteq> 5"
    and "\<not> write_error (control (kern w))" and "write_fits K i buf count w"
  shows "ensures (exec_call K (Write i buf count) w) (\<lambda>r _. 0 < r)"
proof -
  let ?h = "files w ! i" and ?s = "kern w"
  let ?d = "fh_dev ?h"
  note idle = world_okD(1) [OF assms(1)] and h = handle_device [OF world_okD(3) [OF assms(1,3)]]
  note pd = h(2) [OF assms(4)]
  note ops = world_okD(2) [OF assms(1) h(1)]
  show ?thesis
  proof (cases "?d = 6")
    case True
    then have op: "fop_write (ops_at ?s ?d) = Some Mtca_write_no_struct"
      using h(1) unfolding ops by (simp add: file_ops_cases)
    obtain ws a n where c: "covers ?s ?d (fh_pos ?h) count ws a n" "0 < n"
      "fst (spec_writes K (spi_error (control ?s)) (position_bar (fh_pos ?h)) a (user_words (umem ?s) buf n)
        (regs ?s ?d) (dma ?s ?d)) = 0"
      using assms(6) True by (auto simp: write_fits_def Let_def split: option.splits)
    show ?thesis
      unfolding exec_call.simps Let_def op
      using quiet_write [OF assms(2) idle pd h(1) assms(5) c(1), of buf] c(2,3)
      by (auto simp: call_write_def wp elim!: ensures_mono split: prod.splits)
  next
    case False
    then have op: "fop_write (ops_at ?s ?d) = Some Mtca_write"
      using h(1) assms(4) by (simp add: ops file_ops_cases)
    let ?req = "decode_device_rw (umem_read (umem ?s) buf sizeof_device_rw)"
    have rq: "read_request K buf ?s = (?req, 0)"
      by (simp add: read_request_def quietD [OF assms(2)])
    have f: "sizeof_device_rw \<le> unat count" "mode_rw ?req = RW_D32"
      "fst (spec_write K False (spi_error (control ?s)) (barx_rw ?req) (offset_rw ?req) (data_rw ?req)
        (regs ?s ?d) (dma ?s ?d)) = 0"
      using assms(6) False by (simp_all add: write_fits_def Let_def)
    from mtcaDummy_write_refines [OF idle pd h(1), of K buf count] rq f assms(5)
    have "ensures (mtcaDummy_write K (fh_file ?h) buf count ?s) (\<lambda>r _. 0 < r)"
      by (auto simp: quiet_gate [OF assms(2)] quietD [OF assms(2)] sizeof_device_rw_def
          elim!: ensures_mono split: prod.splits)
    then show ?thesis
      unfolding exec_call.simps Let_def op
      by (auto simp: call_write_def keep_position_def wp ensures_iff)
  qed
qed

text \<open>
  C24. The proc file governs the devices: after a command built from a control record was
  written to it, opening a device fails while \<open>open_error\<close> is on and adds no file, reading
  fails while \<open>read_error\<close> is on and gives the user no byte, and writing fails while
  \<open>write_error\<close> is on and changes no bar of any device, whatever the arguments are; and while
  its switch is off, opening succeeds with a new file of the device, and so do reading and
  writing when the registers and the bounds allow the transfer, on a kernel without signals
  and copy faults. The device 5, which the driver cannot see, is left out. All the failing
  calls return a negative number.
\<close>

theorem error_switches_govern:
  assumes "reachable K s w" and "kmalloc_ok K" and "uaccess_ok K" and "held s = {}" and "registered s = {}"
    and "command_at K (kern w) ubuf (switch_command c)" and "k_lock K (Suc (tick (kern w))) ControlMutex = 0"
    and "exec_call K (Proc_write ubuf (of_nat (length (switch_command c)))) w = Some (r, w')"
    and "d < MTCADUMMY_NR_DEVS" and "d \<noteq> 5" and "i < length (files w)" and "fh_dev (files w ! i) \<noteq> 5"
    and "e < MTCADUMMY_NR_DEVS" and "unat count \<le> MAX_RW_COUNT"
  shows "r = int (length (switch_command c)) \<and>
    (if open_error c then ensures (exec_call K (Open d) w') (\<lambda>r u. r < 0 \<and> files u = files w')
     else quiet K \<longrightarrow> ensures (exec_call K (Open d) w') (\<lambda>r u. r = 0 \<and>
       files u = files w' @ [\<lparr>fh_dev = d, fh_file = \<lparr>private_data = Some d\<rparr>, fh_pos = 0\<rparr>])) \<and>
    (if read_error c then
       ensures (exec_call K (Read i buf count) w') (\<lambda>r u. r < 0 \<and> umem (kern u) = umem (kern w'))
     else quiet K \<and> read_fits i buf count w' \<longrightarrow>
       ensures (exec_call K (Read i buf count) w') (\<lambda>r _. 0 < r)) \<and>
    (if write_error c then
       ensures (exec_call K (Write i buf count) w')
        (\<lambda>r u. r < 0 \<and> regs (kern u) e = regs (kern w') e \<and> dma (kern u) e = dma (kern w') e)
     else quiet K \<and> write_fits K i buf count w' \<longrightarrow>
       ensures (exec_call K (Write i buf count) w') (\<lambda>r _. 0 < r))"
proof -
  have w: "world_ok K w" by (rule reachable_world_ok [OF assms(1-5)])
  obtain t where t: "mtcadummy_proc_write K ubuf (of_nat (length (switch_command c))) (kern w) =
      Some (int (length (switch_command c)), t)" "control t = c"
    using switch_command_sets [OF world_okD(1) [OF w] assms(6,7)] by (auto simp: ensures_iff)
  with assms(8) have w': "r = int (length (switch_command c))" "w' = w\<lparr>kern := t\<rparr>" by auto
  have "reachable K s w'"
    by (rule reach_call [OF assms(1) _ assms(8)]) (simp add: switch_command_plain MAX_RW_COUNT_def)
  then have ok: "world_ok K w'" by (rule reachable_world_ok [OF _ assms(2-5)])
  have c: "control (kern w') = c" and f: "files w' = files w" using w'(2) t(2) by simp_all
  note fails = call_open_failing [OF ok assms(9,10)] call_read_failing [OF ok assms(3) _ assms(14), of i buf]
    call_write_failing [OF ok assms(3) _ assms(14) _ _ assms(13), of i buf]
  note succeeds = call_open_succeeds [OF ok _ assms(9,10)] call_read_succeeds [OF ok, of i buf count]
    call_write_succeeds [OF ok, of i buf count]
  show ?thesis
    using w'(1) fails succeeds assms(11,12)
    by (simp add: c f del: exec_call.simps)
qed

theorem error_switches_govern_witness:
  "\<exists>w' u r v. exec_call ref_kernel (Proc_write 0 27)
      ((ref_opened 2)\<lparr>kern := with_umem 0 (command_bytes (switch_command
        \<lparr>open_error = False, read_error = True, write_error = False, spi_error = False\<rparr>)) (kern (ref_opened 2))\<rparr>) =
      Some (27, w') \<and>
    exec_call ref_kernel (Open 4) w' = Some (0, u) \<and> length (files u) = Suc (length (files w')) \<and>
    exec_call ref_kernel (Read 0 0 24) w' = Some (r, v) \<and> r < 0"
proof -
  let ?c = "\<lparr>open_error = False, read_error = True, write_error = False, spi_error = False\<rparr>"
  let ?m = "umem (with_umem 0 (command_bytes (switch_command ?c)) (kern (ref_opened 2)))"
  let ?w = "(ref_opened 2)\<lparr>kern := (kern (ref_opened 2))\<lparr>umem := ?m\<rparr>\<rparr>"
  have n: "length (switch_command ?c) = 27" by (rule switch_command_plain)
  have eq: "?w = (ref_opened 2)\<lparr>kern := with_umem 0 (command_bytes (switch_command ?c)) (kern (ref_opened 2))\<rparr>"
    by (simp add: with_umem_def)
  have "reachable ref_kernel ref_unloaded (ref_opened 2)"
    by (rule ref_opened_reachable) (simp_all add: size_defs)
  then have r: "reachable ref_kernel ref_unloaded ?w"
    by (rule reach_call [where c = "User ?m" and r = 0]) simp_all
  have cmd: "command_at ref_kernel (kern ?w) 0 (switch_command ?c)"
    using ref_command_at [of "switch_command ?c" "kern (ref_opened 2)"] n unfolding eq by simp
  have four: "(4 :: nat) < MTCADUMMY_NR_DEVS" "(4 :: nat) \<noteq> 5" by (simp_all add: size_defs)
  have z: "0 < length (files ?w)" "fh_dev (files ?w ! 0) \<noteq> 5" by (simp_all add: ref_opened_def)
  have small: "unat (24 :: u64) \<le> MAX_RW_COUNT" by (simp add: MAX_RW_COUNT_def)
  have "world_ok ref_kernel ?w" by (rule reachable_world_ok [OF r]) simp_all
  from exec_call_ok [OF this _ ref_uaccess_ok, of "Proc_write 0 (of_nat (length (switch_command ?c)))"]
  obtain x w' where x: "exec_call ref_kernel (Proc_write 0 (of_nat (length (switch_command ?c)))) ?w = Some (x, w')"
    by (auto simp: ensures_iff n MAX_RW_COUNT_def simp del: exec_call.simps)
  have "x = int (length (switch_command ?c)) \<and>
      ensures (exec_call ref_kernel (Open 4) w') (\<lambda>r u. r = 0 \<and>
        files u = files w' @ [\<lparr>fh_dev = 4, fh_file = \<lparr>private_data = Some 4\<rparr>, fh_pos = 0\<rparr>]) \<and>
      ensures (exec_call ref_kernel (Read 0 0 24) w') (\<lambda>r u. r < 0 \<and> umem (kern u) = umem (kern w'))"
    using error_switches_govern [OF r ref_kmalloc_ok ref_uaccess_ok ref_unloaded_simps cmd _ x four z four(1)
      small, of 0] by (simp del: exec_call.simps)
  then show ?thesis
    using x unfolding eq n by (auto simp: ensures_iff simp del: exec_call.simps)
qed

section \<open>The answers of the driver\<close>

text \<open>A number of bytes or 0, or one of the error numbers the module uses.\<close>

definition answer :: "int \<Rightarrow> bool" where
  "answer r \<longleftrightarrow> 0 \<le> r \<or> - r \<in> {EIO, EAGAIN, EFAULT, EINVAL, ENOTTY, ERESTARTSYS}"

lemma answer_simps [simp]:
  "answer (- EIO)" "answer (- EAGAIN)" "answer (- EFAULT)" "answer (- EINVAL)" "answer (- ENOTTY)"
  "answer (- ERESTARTSYS)" "0 \<le> r \<Longrightarrow> answer r" "answer (int n)" "answer 0" "answer (numeral k)"
  by (simp_all add: answer_def)

lemma entry_gate_answer: "entry_gate K off d t = Some e \<Longrightarrow> answer e"
  by (auto simp: entry_gate_def split: if_splits)

lemma spec_write_answer:
  "spec_write K intr spi bar off v rs ds = (r, rs', ds') \<Longrightarrow> answer r"
  by (auto simp: spec_write_def split: option.splits if_splits prod.splits)

lemma spec_reply_answer:
  "spec_reply K slot req rs ds = Inl e \<Longrightarrow> answer e"
  "spec_reply K slot req rs ds = Inr (bs, n) \<Longrightarrow> answer n"
  by (auto simp: spec_reply_def spec_read_def split: if_splits option.splits sum.splits)

lemma send_reply_answer: "send_reply K buf s (spec_reply K slot req rs ds) = (r, m) \<Longrightarrow> answer r"
  by (auto simp: send_reply_def spec_reply_answer split: sum.splits if_splits prod.splits)

lemma write_answers:
  assumes "idle s" and "private_data filp = Some d" and "d < MTCADUMMY_NR_DEVS"
  shows "ensures (mtcaDummy_write K filp buf count s) (\<lambda>r _. answer r)"
  by (rule ensures_mono [OF mtcaDummy_write_refines [OF assms]])
    (auto dest: entry_gate_answer spec_write_answer split: option.splits if_splits prod.splits)

lemma read_answers:
  assumes "idle s" and "private_data filp = Some d" and "d < MTCADUMMY_NR_DEVS"
    and "\<not> read_escapes K d buf count s"
  shows "ensures (mtcaDummy_read K filp buf count s) (\<lambda>r _. answer r)"
  by (rule ensures_mono [OF mtcaDummy_read_refines [OF assms]])
    (auto dest: entry_gate_answer send_reply_answer [OF sym] split: option.splits if_splits prod.splits)

lemma check_answer:
  "checkAndCalculateTransferInformation data count v = Inl e \<Longrightarrow> answer e"
  by (auto simp: checkAndCalculateTransferInformation_def Let_def split: if_splits option.splits)

lemma outcome_answers:
  "read_outcome K n ti buf f_pos ws m0 k r f m \<Longrightarrow> answer r"
  "write_outcome K d s ti buf f_pos k r f rs' ds' \<Longrightarrow> answer r"
  by (auto simp: read_outcome_def write_outcome_def write_failure_def split: if_splits)

lemma read_no_struct_answers:
  assumes "idle s" and "private_data filp = Some d" and "d < MTCADUMMY_NR_DEVS"
    and "uaccess_ok K" and "unat count \<le> MAX_RW_COUNT"
  shows "ensures (mtcaDummy_read_no_struct K filp buf count pos s) (\<lambda>(r, _) _. answer r)"
  by (rule ensures_mono [OF mtcaDummy_read_no_struct_refines [OF assms]],
      cases "checkAndCalculateTransferInformation (devs s ! d) count pos";
      cases "entry_gate K (read_error (control s)) d (tick s)")
    (auto dest: entry_gate_answer check_answer outcome_answers split: if_splits)

lemma write_no_struct_answers:
  assumes "idle s" and "private_data filp = Some d" and "d < MTCADUMMY_NR_DEVS"
    and "uaccess_ok K" and "unat count \<le> MAX_RW_COUNT"
  shows "ensures (mtcaDummy_write_no_struct K filp buf count pos s) (\<lambda>(r, _) _. answer r)"
  by (rule ensures_mono [OF mtcaDummy_write_no_struct_refines [OF assms]],
      cases "checkAndCalculateTransferInformation (devs s ! d) count pos";
      cases "entry_gate K (write_error (control s)) d (tick s)")
    (auto dest: entry_gate_answer check_answer outcome_answers split: if_splits)

lemma ioctl_outcome_answer: "ioctl_outcome K d ds tk m req arg = (r, m') \<Longrightarrow> answer r"
  by (cases req) (auto simp: ioctl_outcome_def Let_def split: if_splits prod.splits sum.splits)

lemma ioctl_answers:
  assumes "idle s" and "private_data filp = Some d" and "d < MTCADUMMY_NR_DEVS"
  shows "\<not> ioctl_escapes mtca_accepts mtca_understand K d cmd arg s \<Longrightarrow>
      ensures (mtcaDummy_ioctl K filp cmd arg s) (\<lambda>r _. answer r)"
    and "ensures (llrfDummy_ioctl K filp cmd arg s) (\<lambda>r _. answer r)"
    and "\<not> ioctl_escapes pcieuni_accepts pcieuni_understand K d cmd arg s \<Longrightarrow>
      ensures (pcieuniDummy_ioctl K filp cmd arg s) (\<lambda>r _. answer r)"
  by (rule ensures_mono [OF mtca.total [OF assms]] ensures_mono [OF llrf_total [OF assms]]
      ensures_mono [OF pcieuni.total [OF assms]];
    auto dest: ioctl_outcome_answer [OF sym] split: if_splits)+

lemma keep_position_answers:
  "ensures m (\<lambda>r _. answer r) \<Longrightarrow> ensures (keep_position pos m) (\<lambda>(r, _) _. answer r)"
  by (auto simp: keep_position_def ensures_iff)

lemma call_answers:
  assumes "idle s" and "handle_ok h" and "uaccess_ok K"
  shows "unat count \<le> MAX_RW_COUNT \<Longrightarrow>
      \<not> copies_outside_read (fop_read (file_ops_of (fh_dev h))) K (fh_dev h) buf count s \<Longrightarrow>
      ensures (call_read (fop_read (file_ops_of (fh_dev h))) K (fh_file h) buf count pos s) (\<lambda>(r, _) _. answer r)"
    and "unat count \<le> MAX_RW_COUNT \<Longrightarrow>
      ensures (call_write (fop_write (file_ops_of (fh_dev h))) K (fh_file h) buf count pos s) (\<lambda>(r, _) _. answer r)"
    and "\<not> copies_outside_ioctl (fop_ioctl (file_ops_of (fh_dev h))) K (fh_dev h) cmd arg s \<Longrightarrow>
      ensures (call_ioctl (fop_ioctl (file_ops_of (fh_dev h))) K (fh_file h) cmd arg s) (\<lambda>r _. answer r)"
proof -
  note h = handle_device [OF assms(2)]
  have five: "fop_read (file_ops_of 5) = None" "fop_write (file_ops_of 5) = None" "fop_ioctl (file_ops_of 5) = None"
    using file_ops_cases [of 5] by (simp_all add: size_defs)
  show "unat count \<le> MAX_RW_COUNT \<Longrightarrow>
      \<not> copies_outside_read (fop_read (file_ops_of (fh_dev h))) K (fh_dev h) buf count s \<Longrightarrow>
      ensures (call_read (fop_read (file_ops_of (fh_dev h))) K (fh_file h) buf count pos s) (\<lambda>(r, _) _. answer r)"
    using h(1,2) five assms(1,3) read_no_struct_answers read_answers
    by (cases "fh_dev h = 5") (auto simp: call_read_def file_ops_cases intro: keep_position_answers)
  show "unat count \<le> MAX_RW_COUNT \<Longrightarrow>
      ensures (call_write (fop_write (file_ops_of (fh_dev h))) K (fh_file h) buf count pos s) (\<lambda>(r, _) _. answer r)"
    using h(1,2) five assms(1,3) write_no_struct_answers write_answers
    by (cases "fh_dev h = 5") (auto simp: call_write_def file_ops_cases intro: keep_position_answers)
  show "\<not> copies_outside_ioctl (fop_ioctl (file_ops_of (fh_dev h))) K (fh_dev h) cmd arg s \<Longrightarrow>
      ensures (call_ioctl (fop_ioctl (file_ops_of (fh_dev h))) K (fh_file h) cmd arg s) (\<lambda>r _. answer r)"
    using h(1,2) five assms(1,3) ioctl_answers
    by (cases "fh_dev h = 5") (auto simp: call_ioctl_def file_ops_cases)
qed

lemma exec_call_answers:
  assumes "world_ok K w" and "uaccess_ok K" and "permitted K c w" and "exec_call K c w = Some (r, w')"
  shows "answer r"
proof -
  note idle = world_okD(1) [OF assms(1)] and ops = world_okD(2) [OF assms(1)] and ok = world_okD(3) [OF assms(1)]
  have dev: "fh_dev (files w ! i) < MTCADUMMY_NR_DEVS" if "i < length (files w)" for i
    using handle_device(1) [OF ok [OF that]] .
  show ?thesis
  proof (cases c)
    case (Open d)
    with assms(3,4) ops [of d] mtcaDummy_open_refines [OF idle, of d K fresh_file] show ?thesis
      by (auto simp: call_open_def file_ops_cases bind_eq_Some_conv split: if_splits)
  next
    case (Close i)
    with assms(3,4) dev [of i] ops [OF dev, of i] handle_device(2) [OF ok, of i]
      mtcaDummy_release_refines [OF idle, of "fh_file (files w ! i)"] show ?thesis
      by (auto simp: call_release_def file_ops_cases bind_eq_Some_conv Let_def split: if_splits)
  next
    case (Read i buf count)
    with assms call_answers(1) [OF idle ok assms(2), of i count buf "fh_pos (files w ! i)"] ops [OF dev, of i]
    show ?thesis by (auto simp: bind_eq_Some_conv Let_def)
  next
    case (Write i buf count)
    with assms call_answers(2) [OF idle ok assms(2), of i count buf "fh_pos (files w ! i)"] ops [OF dev, of i]
    show ?thesis by (auto simp: bind_eq_Some_conv Let_def)
  next
    case (Ioctl i cmd arg)
    with assms call_answers(3) [OF idle ok assms(2), of i cmd arg] ops [OF dev, of i]
    show ?thesis by (auto simp: bind_eq_Some_conv Let_def)
  next
    case (Proc_write ubuf count)
    with assms(3) have "unat count < 9223372036854775808" by (simp add: MAX_RW_COUNT_def)
    then have "uint count < 9223372036854775808" unfolding uint_nat by linarith
    then have "signed_take_bit 63 (uint count) = uint count"
      using order_trans [OF _ uint_ge_0 [of count], of "- (2 ^ 63)"]
      by (intro signed_take_bit_int_eq_self) simp_all
    then have "sint count = uint count" by (simp add: sint_uint)
    then have "0 \<le> sint count" by simp
    with Proc_write assms(4) mtcadummy_proc_write_refines [OF idle, of K ubuf count] show ?thesis
      by (auto simp: bind_eq_Some_conv split: prod.splits if_splits)
  next
    case (Proc_show d)
    with assms(3,4) mtcadummy_seq_show_refines [OF idle, of d K] show ?thesis
      by (auto simp: bind_eq_Some_conv split: if_splits)
  qed (use assms(4) in auto)
qed

text \<open>
  C25. Every call that the kernel may hand to the driver is answered, in every reachable
  world, with a number of bytes, with 0, or with one of the six error numbers the module
  uses; the -1 of the register actions never reaches a process.
\<close>

theorem calls_answer:
  assumes "reachable K s w" and "kmalloc_ok K" and "uaccess_ok K" and "held s = {}" and "registered s = {}"
    and "permitted K c w" and "exec_call K c w = Some (r, w')"
  shows "0 \<le> r \<or> - r \<in> {EIO, EAGAIN, EFAULT, EINVAL, ENOTTY, ERESTARTSYS}"
proof -
  have "world_ok K w" by (rule reachable_world_ok [OF assms(1-5)])
  from exec_call_answers [OF this assms(3,6,7)] show ?thesis by (simp only: answer_def)
qed

theorem calls_answer_witness:
  "\<exists>r w'. exec_call ref_kernel (Write 0 0 24) (ref_opened 2) = Some (r, w') \<and>
    (0 \<le> r \<or> - r \<in> {EIO, EAGAIN, EFAULT, EINVAL, ENOTTY, ERESTARTSYS})"
proof -
  have r: "reachable ref_kernel ref_unloaded (ref_opened 2)"
    by (rule ref_opened_reachable) (simp_all add: size_defs)
  have p: "permitted ref_kernel (Write 0 0 24) (ref_opened 2)"
    by (simp add: ref_opened_def MAX_RW_COUNT_def)
  have "world_ok ref_kernel (ref_opened 2)"
    by (rule reachable_world_ok [OF r]) simp_all
  from exec_call_ok [OF this p ref_uaccess_ok] obtain x w' where
    e: "exec_call ref_kernel (Write 0 0 24) (ref_opened 2) = Some (x, w')"
    by (auto simp: ensures_iff)
  with calls_answer [OF r ref_kmalloc_ok ref_uaccess_ok ref_unloaded_simps p e] show ?thesis by blast
qed

end
