(* ===== verification/Interleaving.thy ===== *)
theory Interleaving
  imports System_Properties
begin

text \<open>
  Calls of several processes at the same time. The handlers of the module are run by the
  processes that call them, and the kernel may change between processes at every instruction;
  only the mutexes keep them apart. This theory takes the events that the calls append to the
  log (lock operations, accesses to bars, accesses to the switches) and lets several threads
  run them in any interleaving in which a thread waits for a mutex that somebody holds. A
  thread is what it holds and what it has left to do. The counter of open files is not among
  the events: it is an \<open>atomic_t\<close>. Nor are user buffers and file positions, which belong to
  the processes.

  The locale \<open>lock_discipline\<close> shows what follows for threads that keep the discipline when
  they run alone; the interpretation \<open>driver\<close> is on sequences of calls of the module.
\<close>

section \<open>Schedules of lock traces\<close>

type_synonym thread = "mutex set \<times> event list"

fun upcoming :: "thread \<Rightarrow> event option" where
  "upcoming (H, []) = None"
| "upcoming (H, e # es) = Some e"

fun advance :: "thread \<Rightarrow> thread" where
  "advance (H, []) = (H, [])"
| "advance (H, Acquire m # es) = (insert m H, es)"
| "advance (H, Release m # es) = (H - {m}, es)"
| "advance (H, Access p # es) = (H, es)"
| "advance (H, Flags # es) = (H, es)"

text \<open>A thread waits only for a mutex that somebody holds.\<close>

definition enabled :: "thread list \<Rightarrow> nat \<Rightarrow> bool" where
  "enabled ts i \<longleftrightarrow> i < length ts \<and>
    (case upcoming (ts ! i) of
       None \<Rightarrow> False
     | Some (Acquire m) \<Rightarrow> list_all (\<lambda>t. m \<notin> fst t) ts
     | Some e \<Rightarrow> True)"

text \<open>A schedule names the thread that makes the next step; \<open>None\<close>: this thread has to wait.\<close>

fun schedule :: "nat list \<Rightarrow> thread list \<Rightarrow> thread list option" where
  "schedule [] ts = Some ts"
| "schedule (i # is) ts = (if enabled ts i then schedule is (ts[i := advance (ts ! i)]) else None)"

definition finished :: "thread \<Rightarrow> bool" where
  "finished t \<longleftrightarrow> fst t = {} \<and> snd t = []"

definition steps_left :: "thread list \<Rightarrow> nat" where
  "steps_left ts = sum_list (map (\<lambda>t. length (snd t)) ts)"

definition start :: "event list \<Rightarrow> thread" where
  "start tr = ({}, tr)"

lemma schedule_append: "schedule (is @ js) ts = schedule is ts \<bind> schedule js"
  by (induction "is" arbitrary: ts) simp_all

lemma enabledD:
  assumes "enabled ts i"
  obtains H e es where "i < length ts" and "ts ! i = (H, e # es)"
    and "\<And>m t. e = Acquire m \<Longrightarrow> t \<in> set ts \<Longrightarrow> m \<notin> fst t"
proof -
  from assms have i: "i < length ts" and u: "upcoming (ts ! i) \<noteq> None"
    by (auto simp: enabled_def split: option.splits)
  then obtain H e es where t: "ts ! i = (H, e # es)" by (cases "ts ! i" rule: upcoming.cases) auto
  with assms i have "m \<notin> fst t" if "e = Acquire m" "t \<in> set ts" for m t
    using that by (auto simp: enabled_def list_all_iff)
  with i t show thesis using that by blast
qed

lemma steps_left_advance:
  assumes "enabled ts i"
  shows "steps_left ts = Suc (steps_left (ts[i := advance (ts ! i)]))"
proof -
  from assms obtain H e es where i: "i < length ts" "ts ! i = (H, e # es)" by (rule enabledD) blast
  then have "length (snd (advance (ts ! i))) = length es" by (cases e) simp_all
  with i elem_le_sum_list [of i "map (\<lambda>t. length (snd t)) ts"] show ?thesis
    by (simp add: steps_left_def map_update sum_list_update)
qed

text \<open>No schedule takes more steps than there are events: threads do not run for ever.\<close>

lemma schedule_length: "schedule is ts = Some us \<Longrightarrow> length is + steps_left us = steps_left ts"
  by (induction "is" arbitrary: ts) (auto split: if_splits simp: steps_left_advance)
section \<open>Threads that keep the locking discipline\<close>

text \<open>
  No mutex has two holders, and what a thread has left to do keeps the discipline and gives
  every mutex back.
\<close>

definition orderly :: "mtcaDummyData list \<Rightarrow> thread list \<Rightarrow> bool" where
  "orderly ds ts \<longleftrightarrow>
    (\<forall>(H, es) \<in> set ts. lock_run ds es H = Some {}) \<and>
    (\<forall>i < length ts. \<forall>j < length ts. i \<noteq> j \<longrightarrow> fst (ts ! i) \<inter> fst (ts ! j) = {})"

lemma orderly_run: "orderly ds ts \<Longrightarrow> i < length ts \<Longrightarrow> ts ! i = (H, es) \<Longrightarrow> lock_run ds es H = Some {}"
  unfolding orderly_def by (metis (mono_tags, lifting) case_prodD nth_mem)

lemma orderly_exclusive:
  "orderly ds ts \<Longrightarrow> i < length ts \<Longrightarrow> j < length ts \<Longrightarrow> m \<in> fst (ts ! i) \<Longrightarrow> m \<in> fst (ts ! j) \<Longrightarrow> i = j"
  unfolding orderly_def by blast

lemma advance_run:
  assumes "lock_run ds (e # es) H = Some {}"
  shows "case advance (H, e # es) of (H', es') \<Rightarrow> lock_run ds es' H' = Some {}"
    and "\<forall>m \<in> fst (advance (H, e # es)). m \<in> H \<or> e = Acquire m"
  using assms by (cases e; auto split: if_splits)+

lemma orderly_advance:
  assumes "orderly ds ts" and "enabled ts i"
  shows "orderly ds (ts[i := advance (ts ! i)])"
proof -
  from assms(2) obtain H e es where i: "i < length ts" and t: "ts ! i = (H, e # es)"
    and free: "\<And>m t. e = Acquire m \<Longrightarrow> t \<in> set ts \<Longrightarrow> m \<notin> fst t" by (rule enabledD) blast
  note step = advance_run [OF orderly_run [OF assms(1) i t]]
  have runs: "\<forall>(H', es') \<in> set (ts[i := advance (ts ! i)]). lock_run ds es' H' = Some {}"
    using step(1) assms(1) set_update_subset_insert [of ts i "advance (ts ! i)"]
    by (fastforce simp: orderly_def t)
  have new: "fst (advance (ts ! i)) \<inter> fst (ts ! j) = {}" if "j < length ts" "j \<noteq> i" for j
  proof -
    have "m \<notin> fst (ts ! j)" if "m \<in> fst (advance (ts ! i))" for m
      using step(2) that free [of m "ts ! j"] \<open>j < length ts\<close> \<open>j \<noteq> i\<close>
        orderly_exclusive [OF assms(1) i \<open>j < length ts\<close>, of m] by (auto simp: t)
    then show ?thesis by blast
  qed
  have "fst (ts[i := advance (ts ! i)] ! j) \<inter> fst (ts[i := advance (ts ! i)] ! k) = {}"
    if "j < length ts" "k < length ts" "j \<noteq> k" for j k
    using that new [of j] new [of k] assms(1) i by (auto simp: nth_list_update orderly_def)
  with runs show ?thesis by (simp add: orderly_def)
qed

lemma orderly_schedule: "orderly ds ts \<Longrightarrow> schedule is ts = Some us \<Longrightarrow> orderly ds us"
  by (induction "is" arbitrary: ts) (auto split: if_splits intro: orderly_advance)

text \<open>What a thread is about to do, it may do.\<close>

lemma upcoming_allowed:
  assumes "orderly ds ts" and "i < length ts" and "upcoming (ts ! i) = Some e"
  shows "\<exists>H'. lock_step ds e (fst (ts ! i)) = Some H'"
proof -
  obtain H es where t: "ts ! i = (H, e # es)"
    using assms(3) by (cases "ts ! i" rule: upcoming.cases) auto
  from orderly_run [OF assms(1,2) t] show ?thesis by (auto simp: t bind_eq_Some_conv)
qed

lemma upcoming_None:
  assumes "orderly ds ts" and "i < length ts" and "upcoming (ts ! i) = None"
  shows "finished (ts ! i)"
  using orderly_run [OF assms(1,2)] assms(3)
  by (cases "ts ! i" rule: upcoming.cases) (auto simp: finished_def)

text \<open>
  Mutexes are taken in one order, so that the thread that waits for the greatest mutex
  waits for a thread that does not wait.
\<close>

lemma orderly_progress:
  assumes "orderly ds ts" and "\<not> list_all finished ts"
  shows "\<exists>i. enabled ts i"
proof (rule ccontr)
  assume stuck: "\<nexists>i. enabled ts i"
  have waits: "\<exists>m. upcoming (ts ! i) = Some (Acquire m) \<and> (\<exists>j < length ts. m \<in> fst (ts ! j))"
    if i: "i < length ts" and u: "\<not> finished (ts ! i)" for i
  proof -
    from upcoming_None [OF assms(1) i] u obtain e where e: "upcoming (ts ! i) = Some e" by auto
    from stuck have "\<not> enabled ts i" by blast
    with i e show ?thesis by (cases e) (auto simp: enabled_def list_all_length)
  qed
  let ?W = "{m. \<exists>i < length ts. upcoming (ts ! i) = Some (Acquire m)}"
  have "?W = (\<Union>i \<in> {..<length ts}. {m. upcoming (ts ! i) = Some (Acquire m)})" by auto
  moreover have "finite {m. x = Some (Acquire m)}" for x
    by (rule finite_subset [of _ "{case x of Some (Acquire m) \<Rightarrow> m}"]) auto
  ultimately have fin: "finite ?W" by auto
  from assms(2) obtain k where "k < length ts" "\<not> finished (ts ! k)"
    by (auto simp: list_all_length)
  with waits have ne: "?W \<noteq> {}" by blast
  have top: "Max ?W \<in> ?W" using fin ne by (rule Max_in)
  then obtain i where i: "i < length ts" "upcoming (ts ! i) = Some (Acquire (Max ?W))" by blast
  then have "\<not> finished (ts ! i)" by (cases "ts ! i" rule: upcoming.cases) (auto simp: finished_def)
  with waits i obtain j where j: "j < length ts" "Max ?W \<in> fst (ts ! j)" by fastforce
  then have "\<not> finished (ts ! j)" by (auto simp: finished_def)
  with waits j(1) obtain m where m: "upcoming (ts ! j) = Some (Acquire m)" by blast
  from upcoming_allowed [OF assms(1) j(1) m] j(2) have "Max ?W < m" by (auto split: if_splits)
  moreover have "m \<le> Max ?W" using fin m j(1) by (intro Max_ge) auto
  ultimately show False by simp
qed

lemma orderly_completion:
  "orderly ds ts \<Longrightarrow> \<exists>js us. schedule js ts = Some us \<and> list_all finished us"
proof (induction "steps_left ts" arbitrary: ts rule: less_induct)
  case less
  show ?case
  proof (cases "list_all finished ts")
    case True
    then show ?thesis by (intro exI [of _ "[]"] exI [of _ ts]) simp
  next
    case False
    from orderly_progress [OF less.prems this] obtain i where i: "enabled ts i" ..
    let ?ts = "ts[i := advance (ts ! i)]"
    have "steps_left ?ts < steps_left ts" using steps_left_advance [OF i] by simp
    from less.hyps [OF this orderly_advance [OF less.prems i]]
    obtain js us where "schedule js ?ts = Some us" "list_all finished us" by blast
    with i show ?thesis by (intro exI [of _ "i # js"] exI [of _ us]) simp
  qed
qed
section \<open>The discipline as a contract\<close>

definition bars_of :: "mtcaDummyData list \<Rightarrow> nat \<Rightarrow> ptr set" where
  "bars_of ds d = {systemBar (ds ! d), dmaBar (ds ! d)}"

text \<open>
  All that the threads have to promise is that each of them, run alone, keeps the discipline.
\<close>

locale lock_discipline =
  fixes ds :: "mtcaDummyData list"
    and trace :: "event list \<Rightarrow> bool"
  assumes keeps: "trace tr \<Longrightarrow> lock_run ds tr {} = Some {}"
begin

lemma started: "list_all trace trs \<Longrightarrow> orderly ds (map start trs)"
  by (auto simp: orderly_def start_def list_all_iff keeps)

lemma scheduled: "list_all trace trs \<Longrightarrow> schedule is (map start trs) = Some ts \<Longrightarrow> orderly ds ts"
  by (rule orderly_schedule [OF started])

lemma access_exclusive:
  assumes "list_all trace trs" and "schedule is (map start trs) = Some ts"
    and "i < length ts" "upcoming (ts ! i) = Some (Access p)" "p \<in> bars_of ds d" "d < length ds"
    and "j < length ts" "j \<noteq> i"
  shows "DevMutex d \<in> fst (ts ! i)" and "DevMutex d \<notin> fst (ts ! j)"
    and "upcoming (ts ! j) = Some (Access q) \<Longrightarrow> q \<notin> bars_of ds d"
proof -
  note o = scheduled [OF assms(1,2)]
  have holds: "DevMutex d \<in> fst (ts ! k)"
    if "k < length ts" "upcoming (ts ! k) = Some (Access x)" "x \<in> bars_of ds d" for k x
    using upcoming_allowed [OF o that(1,2)] that(3) assms(6)
    by (auto simp: guarded_def list_all_iff bars_of_def split: if_splits)
  show i: "DevMutex d \<in> fst (ts ! i)" by (rule holds [OF assms(3-5)])
  show j: "DevMutex d \<notin> fst (ts ! j)"
    using orderly_exclusive [OF o assms(3,7) i] assms(8) by blast
  show "upcoming (ts ! j) = Some (Access q) \<Longrightarrow> q \<notin> bars_of ds d"
    using holds [OF assms(7)] j by blast
qed

lemma flags_exclusive:
  assumes "list_all trace trs" and "schedule is (map start trs) = Some ts"
    and "i < length ts" "upcoming (ts ! i) = Some Flags" and "j < length ts" "j \<noteq> i"
  shows "ControlMutex \<in> fst (ts ! i)" and "ControlMutex \<notin> fst (ts ! j)"
    and "upcoming (ts ! j) \<noteq> Some Flags"
proof -
  note o = scheduled [OF assms(1,2)]
  have holds: "ControlMutex \<in> fst (ts ! k)" if "k < length ts" "upcoming (ts ! k) = Some Flags" for k
    using upcoming_allowed [OF o that] by (auto split: if_splits)
  then show i: "ControlMutex \<in> fst (ts ! i)" using assms(3,4) .
  then show j: "ControlMutex \<notin> fst (ts ! j)"
    using orderly_exclusive [OF o assms(3,5)] assms(6) by blast
  then show "upcoming (ts ! j) \<noteq> Some Flags" using holds [OF assms(5)] by blast
qed

lemma completes:
  assumes "list_all trace trs" and "schedule is (map start trs) = Some ts"
  shows "length is \<le> sum_list (map length trs)"
    and "\<exists>js us. schedule (is @ js) (map start trs) = Some us \<and> list_all finished us"
proof -
  have "steps_left (map start trs) = sum_list (map length trs)"
    by (simp add: steps_left_def start_def comp_def)
  with schedule_length [OF assms(2)] show "length is \<le> sum_list (map length trs)" by simp
  from orderly_completion [OF scheduled [OF assms]] assms(2)
  show "\<exists>js us. schedule (is @ js) (map start trs) = Some us \<and> list_all finished us"
    by (simp add: schedule_append)
qed

end

section \<open>The calls of the driver keep it\<close>

text \<open>
  The events of a call that runs from the world \<open>w\<close>, and those of a process that makes one
  call after the other; between its calls the world may have become any other one.
\<close>

definition call_log :: "kernel \<Rightarrow> call \<times> world \<Rightarrow> event list" where
  "call_log K cw = (case cw of (c, w) \<Rightarrow>
     (case exec_call K c (w\<lparr>kern := start_log (kern w)\<rparr>) of None \<Rightarrow> [] | Some (r, w') \<Rightarrow> log (kern w')))"

definition process_log :: "kernel \<Rightarrow> (call \<times> world) list \<Rightarrow> event list" where
  "process_log K cws = concat (map (call_log K) cws)"

lemma guarded_cong:
  assumes "bar_blocks ds = bar_blocks ds'"
  shows "guarded ds = guarded ds'"
proof -
  have l: "length ds = length ds'"
    using assms by (metis bar_blocks_def length_append length_map mult_2 nat_mult_eq_cancel_disj zero_neq_numeral)
  with assms have m: "map systemBar ds = map systemBar ds'" "map dmaBar ds = map dmaBar ds'"
    by (simp_all add: bar_blocks_def)
  have "systemBar (ds ! d) = systemBar (ds' ! d)" "dmaBar (ds ! d) = dmaBar (ds' ! d)"
    if "d < length ds'" for d
    using that l m by (metis nth_map)+
  with l show ?thesis by (intro ext) (auto simp: guarded_def list_all_iff)
qed

lemma lock_run_cong:
  assumes "bar_blocks ds = bar_blocks ds'"
  shows "lock_run ds es H = lock_run ds' es H"
proof -
  have "lock_step ds e H = lock_step ds' e H" for e H
    by (cases e) (simp_all add: guarded_cong [OF assms])
  then have "lock_run ds es = lock_run ds' es"
    by (induction es) (auto intro!: ext)
  then show ?thesis by simp
qed

lemma idle_start_log: "idle s \<Longrightarrow> idle (start_log s)"
  by (simp add: idle_def live_def disciplined_def wf_sys_def)

lemma copies_outside_start_log [simp]:
  "copies_outside_read op K d buf count (start_log s) = copies_outside_read op K d buf count s"
  "copies_outside_ioctl op K d cmd arg (start_log s) = copies_outside_ioctl op K d cmd arg s"
proof -
  have "read_escapes K d buf count (start_log s) = read_escapes K d buf count s"
    by (simp add: read_escapes_def read_request_def)
  moreover have "ioctl_escapes a u K d cmd arg (start_log s) = ioctl_escapes a u K d cmd arg s" for a u
    by (simp add: ioctl_escapes_def)
  ultimately show "copies_outside_read op K d buf count (start_log s) = copies_outside_read op K d buf count s"
    "copies_outside_ioctl op K d cmd arg (start_log s) = copies_outside_ioctl op K d cmd arg s"
    by (cases op rule: option.exhaust; cases "the op"; simp)+
qed

lemma call_log_run:
  assumes "world_ok K w" and "permitted K c w" and "uaccess_ok K"
    and "bar_blocks (devs (kern w)) = bar_blocks ds"
  shows "lock_run ds (call_log K (c, w)) {} = Some {}"
proof -
  let ?w = "w\<lparr>kern := start_log (kern w)\<rparr>"
  have w: "world_ok K ?w"
    using assms(1) by (simp add: world_ok_def ops_at_def idle_start_log)
  have "permitted K c ?w"
    using assms(2) by (cases c) (simp_all add: ops_at_def)
  from exec_call_ok [OF w this assms(3)] obtain r w' where
    e: "exec_call K c ?w = Some (r, w')" and ok: "world_ok K w'" and f: "frame c ?w w'"
    by (auto simp: ensures_iff)
  have "lock_run (devs (kern w')) (log (kern w')) {} = Some {}"
    using world_okD(1) [OF ok] by (simp add: idle_def live_def disciplined_def)
  moreover have "bar_blocks (devs (kern w')) = bar_blocks ds"
    using f assms(4) by (simp add: frame_def)
  from lock_run_cong [OF this] have "lock_run (devs (kern w')) es {} = lock_run ds es {}" for es .
  ultimately show ?thesis using e by (simp add: call_log_def)
qed

lemma reachable_bars:
  assumes "reachable K s w" and "kmalloc_ok K" and "uaccess_ok K" and "held s = {}" and "registered s = {}"
    and "mtcaDummy_init_module K s = Some (0, t)"
  shows "bar_blocks (devs (kern w)) = bar_blocks (devs t)"
  using assms(1)
proof induction
  case (load u)
  with assms(6) show ?case by simp
next
  case (call w c r w')
  have "world_ok K w" by (rule reachable_world_ok [OF call(1) assms(2-5)])
  with call(2) exec_call_ok [OF _ _ assms(3), of w c] have "frame c w w'"
    by (auto elim!: stepE simp: ensures_iff)
  with call.IH show ?case by (simp add: frame_def)
qed

text \<open>A process of the module that was loaded from the state \<open>s\<close> into the state \<open>t\<close>.\<close>

definition process :: "kernel \<Rightarrow> sys \<Rightarrow> sys \<Rightarrow> (call \<times> world) list \<Rightarrow> bool" where
  "process K s t cws \<longleftrightarrow>
    kmalloc_ok K \<and> uaccess_ok K \<and> held s = {} \<and> registered s = {} \<and>
    mtcaDummy_init_module K s = Some (0, t) \<and>
    list_all (\<lambda>(c, w). reachable K s w \<and> permitted K c w) cws"

lemma process_log_run:
  assumes "process K s t cws"
  shows "lock_run (devs t) (process_log K cws) {} = Some {}"
  using assms
proof (induction cws)
  case Nil
  then show ?case by (simp add: process_log_def)
next
  case (Cons cw cws)
  then obtain c w where cw: "cw = (c, w)" and m: "kmalloc_ok K" "uaccess_ok K" "held s = {}"
    "registered s = {}" "mtcaDummy_init_module K s = Some (0, t)" "reachable K s w" "permitted K c w"
    by (cases cw) (auto simp: process_def)
  have "process K s t cws" using Cons.prems by (simp add: process_def)
  with Cons.IH call_log_run [OF reachable_world_ok [OF m(6,1-4)] m(7,2) reachable_bars [OF m(6,1-5)]]
  show ?case by (simp add: process_log_def cw lock_run_append)
qed

interpretation driver: lock_discipline "devs t" "\<lambda>tr. \<exists>cws. process K s t cws \<and> tr = process_log K cws"
  for K s t
  by unfold_locales (auto intro: process_log_run)
section \<open>No races and no deadlock\<close>

fun conflicting :: "mtcaDummyData list \<Rightarrow> event \<Rightarrow> event \<Rightarrow> bool" where
  "conflicting ds (Access p) (Access q) =
     list_ex (\<lambda>d. p \<in> bars_of ds d \<and> q \<in> bars_of ds d) [0..<length ds]"
| "conflicting ds Flags Flags = True"
| "conflicting ds _ _ = False"

fun_cases conflictingE: "conflicting ds e e'"

definition threads :: "kernel \<Rightarrow> (call \<times> world) list list \<Rightarrow> thread list" where
  "threads K procs = map start (map (process_log K) procs)"

lemma processes_keep:
  "list_all (process K s t) procs \<Longrightarrow>
    list_all (\<lambda>tr. \<exists>cws. process K s t cws \<and> tr = process_log K cws) (map (process_log K) procs)"
  by (auto simp: list_all_iff)

text \<open>
  C6. No data race: let any number of processes make calls of the driver, one after the
  other, and let the kernel interleave the calls of different processes at every lock
  operation and every single access in any way the mutexes permit. Then two processes are
  never both about to touch the bars of one device, or both about to touch the switches;
  a process that is about to touch a bar is the only one that holds the mutex of the
  device, and one that is about to touch the switches the only one that holds the control
  mutex. The calls may run in any reachable worlds of the module.
\<close>

theorem no_data_race:
  assumes "list_all (process K s t) procs" and "schedule sched (threads K procs) = Some ts"
    and "i < length ts" and "j < length ts" and "i \<noteq> j"
    and "upcoming (ts ! i) = Some e" and "upcoming (ts ! j) = Some e'"
  shows "\<not> conflicting (devs t) e e' \<and>
    (\<forall>p. e = Access p \<longrightarrow> (\<forall>d \<in> {..<length (devs t)}. p \<in> bars_of (devs t) d \<longrightarrow>
      DevMutex d \<in> fst (ts ! i) \<and> DevMutex d \<notin> fst (ts ! j))) \<and>
    (e = Flags \<longrightarrow> ControlMutex \<in> fst (ts ! i) \<and> ControlMutex \<notin> fst (ts ! j))"
proof -
  note run = processes_keep [OF assms(1)] assms(2) [unfolded threads_def]
  note access = driver.access_exclusive [OF run assms(3) _ _ _ assms(4)]
  note flags = driver.flags_exclusive [OF run assms(3) _ assms(4)]
  have "\<not> conflicting (devs t) e e'"
  proof
    assume "conflicting (devs t) e e'"
    then consider p q d where "e = Access p" "e' = Access q" "d < length (devs t)"
        "p \<in> bars_of (devs t) d" "q \<in> bars_of (devs t) d"
      | "e = Flags" "e' = Flags"
      by (elim conflictingE) (auto simp: list_ex_iff)
    then show False
    proof cases
      case 1
      with access(3) assms(5-7) show False by blast
    next
      case 2
      with flags(3) assms(5-7) show False by blast
    qed
  qed
  with access(1,2) flags(1,2) assms(5,6) show ?thesis by auto
qed

text \<open>
  C7. No deadlock: however far processes have come with their calls, on whatever devices and
  in whatever interleaving, as long as one of them is not at its end some process can go on;
  every interleaving can be carried on to one in which all calls have ended and all mutexes
  are given back, and none is longer than the events of the calls together.
\<close>

theorem no_deadlock:
  assumes "list_all (process K s t) procs" and "schedule sched (threads K procs) = Some ts"
  shows "(list_all finished ts \<or> (\<exists>i. enabled ts i)) \<and>
    (\<exists>more us. schedule (sched @ more) (threads K procs) = Some us \<and> list_all finished us) \<and>
    length sched \<le> sum_list (map (\<lambda>cws. length (process_log K cws)) procs)"
proof -
  note run = processes_keep [OF assms(1)] assms(2) [unfolded threads_def]
  from driver.completes [OF run] orderly_progress [OF driver.scheduled [OF run]] show ?thesis
    by (auto simp: threads_def comp_def)
qed

text \<open>Two processes open a device, and the first one has just taken the control mutex.\<close>

definition ref_openers :: "(call \<times> world) list list" where
  "ref_openers = [[(Open 2, ref_world)], [(Open 3, ref_world)]]"

lemma ref_openers_process: "list_all (process ref_kernel ref_unloaded ref_loaded) ref_openers"
  by (simp add: ref_openers_def process_def ref_reachable ref_init ref_kmalloc_ok ref_uaccess_ok
      ref_unloaded_simps size_defs)

lemma ref_open_log:
  assumes "d < MTCADUMMY_NR_DEVS" and "d \<noteq> 5"
  shows "call_log ref_kernel (Open d, ref_world) = [Acquire ControlMutex, Flags, Release ControlMutex]"
proof -
  have "ref_world\<lparr>kern := start_log (kern ref_world)\<rparr> = ref_world"
    by (simp add: ref_world_def start_log_def)
  then show ?thesis
    by (simp only: call_log_def prod.case ref_open_exec [OF assms] option.case ref_opened_log)
qed

lemma ref_openers_threads:
  "threads ref_kernel ref_openers =
    [({}, [Acquire ControlMutex, Flags, Release ControlMutex]),
     ({}, [Acquire ControlMutex, Flags, Release ControlMutex])]"
  by (simp add: threads_def ref_openers_def process_log_def ref_open_log start_def size_defs)

lemma ref_openers_schedule:
  "schedule [0] (threads ref_kernel ref_openers) =
    Some [({ControlMutex}, [Flags, Release ControlMutex]),
      ({}, [Acquire ControlMutex, Flags, Release ControlMutex])]"
  by (simp add: ref_openers_threads enabled_def)

text \<open>Two processes read the first register of the device 6 by position.\<close>

lemma position_zero: "position_bar 0 = 0" "position_offset 0 = 0"
  by (simp_all add: position_bar_def position_offset_def)

lemma no_struct_read_log:
  assumes "idle s" and "\<not> read_error (control s)"
  shows "\<exists>t. mtcaDummy_read_no_struct ref_kernel (opened 6) buf 4 0 s = Some ((4, 4), t) \<and>
    log t = log s @ [Acquire ControlMutex, Flags, Release ControlMutex, Acquire (DevMutex 6),
      Access (systemBar (devs s ! 6)), Release (DevMutex 6)]"
proof -
  have six: "6 < MTCADUMMY_NR_DEVS" by (simp add: size_defs)
  have wf: "wf_sys s" and h: "held s = {}" using assms(1) by (simp_all add: idle_def live_def)
  note b = wf_system_block [OF wf six] wf_length_regs [OF wf six] wf_bar_not_NULL [OF wf six] wf_length_devs [OF wf]
  show ?thesis
    using six b h assms(2)
    by (simp add: mtcaDummy_read_no_struct_def mutex_lock_interruptible_def mutex_unlock_def read_control_def
       dev_at_def check_unfold position_zero size_defs opened_def read_no_struct_body_def load_bytes_def copy_to_user_def
       mtcadummy_performPreReadAction_def Let_def for_loop_step [of 0]
       MTCADUMMY_BROKEN_REGISTER_def)
qed

definition ref_readers :: "(call \<times> world) list list" where
  "ref_readers = [[(Read 0 0 4, ref_opened 6)], [(Read 0 8 4, ref_opened 6)]]"

lemma ref_opened_6:
  "reachable ref_kernel ref_unloaded (ref_opened 6)" "world_ok ref_kernel (ref_opened 6)"
proof -
  show "reachable ref_kernel ref_unloaded (ref_opened 6)"
    by (rule ref_opened_reachable) (simp_all add: size_defs)
  then show "world_ok ref_kernel (ref_opened 6)" by (rule reachable_world_ok) simp_all
qed

lemma ref_readers_process: "list_all (process ref_kernel ref_unloaded ref_loaded) ref_readers"
proof -
  have "fop_read (ops_at (kern (ref_opened 6)) 6) = Some Mtca_read_no_struct"
    using world_okD(2) [OF ref_opened_6(2), of 6] file_ops_cases [of 6] by (simp add: size_defs)
  then have "permitted ref_kernel (Read 0 buf 4) (ref_opened 6)" for buf
    by (simp add: ref_opened_def MAX_RW_COUNT_def)
  then show ?thesis
    by (simp add: ref_readers_def process_def ref_opened_6 ref_init ref_kmalloc_ok ref_uaccess_ok
        ref_unloaded_simps)
qed

lemma ref_read_log:
  "call_log ref_kernel (Read 0 buf 4, ref_opened 6) =
    [Acquire ControlMutex, Flags, Release ControlMutex, Acquire (DevMutex 6), Access 13, Release (DevMutex 6)]"
proof -
  let ?s = "start_log (kern (ref_opened 6))"
  have op: "fop_read (ops_at ?s 6) = Some Mtca_read_no_struct"
    using world_okD(2) [OF ref_opened_6(2), of 6] file_ops_cases [of 6] by (simp add: size_defs ops_at_def)
  have f: "files (ref_opened 6) ! 0 = \<lparr>fh_dev = 6, fh_file = opened 6, fh_pos = 0\<rparr>"
    by (simp add: ref_opened_def)
  have "systemBar (devs ?s ! 6) = 13" 
    by (simp add: ref_opened_def count_opens_def ref_world_def ref_loaded_def ref_loading_def size_defs fresh_dev_def)
  moreover have "idle ?s" using world_okD(1) [OF ref_opened_6(2)] by (rule idle_start_log)
  moreover have "\<not> read_error (control ?s)" by (simp add: ref_opened_def no_errors_def)
  ultimately obtain t where "mtcaDummy_read_no_struct ref_kernel (opened 6) buf 4 0 ?s = Some ((4, 4), t)"
    "log t = [Acquire ControlMutex, Flags, Release ControlMutex, Acquire (DevMutex 6), Access 13, Release (DevMutex 6)]"
    using no_struct_read_log [of ?s buf] by auto
  with f op show ?thesis by (simp add: call_log_def call_read_def)
qed

lemma ref_readers_threads:
  "threads ref_kernel ref_readers = replicate 2 ({}, [Acquire ControlMutex, Flags, Release ControlMutex,
     Acquire (DevMutex 6), Access 13, Release (DevMutex 6)])"
  by (simp add: threads_def ref_readers_def process_log_def ref_read_log start_def numeral_2_eq_2)

lemma schedule_threads: "schedule is ts = Some us \<Longrightarrow> length us = length ts"
  by (induction "is" arbitrary: ts) (auto split: if_splits)

theorem no_data_race_witness:
  "(\<exists>ts. schedule [0, 0, 0, 0, 1, 1, 1] (threads ref_kernel ref_readers) = Some ts \<and>
     upcoming (ts ! 0) = Some (Access 13) \<and> upcoming (ts ! 1) = Some (Acquire (DevMutex 6)) \<and>
     \<not> enabled ts 1) \<and>
   \<not> (\<exists>sched ts. schedule sched (threads ref_kernel ref_readers) = Some ts \<and>
     upcoming (ts ! 0) = Some (Access 13) \<and> upcoming (ts ! 1) = Some (Access 13))"
proof
  show "\<exists>ts. schedule [0, 0, 0, 0, 1, 1, 1] (threads ref_kernel ref_readers) = Some ts \<and>
     upcoming (ts ! 0) = Some (Access 13) \<and> upcoming (ts ! 1) = Some (Acquire (DevMutex 6)) \<and>
     \<not> enabled ts 1"
    by (simp add: ref_readers_threads enabled_def numeral_2_eq_2)
  show "\<not> (\<exists>sched ts. schedule sched (threads ref_kernel ref_readers) = Some ts \<and>
     upcoming (ts ! 0) = Some (Access 13) \<and> upcoming (ts ! 1) = Some (Access 13))"
  proof
    assume "\<exists>sched ts. schedule sched (threads ref_kernel ref_readers) = Some ts \<and>
      upcoming (ts ! 0) = Some (Access 13) \<and> upcoming (ts ! 1) = Some (Access 13)"
    then obtain sched ts where s: "schedule sched (threads ref_kernel ref_readers) = Some ts"
      "upcoming (ts ! 0) = Some (Access 13)" "upcoming (ts ! 1) = Some (Access 13)" by blast
    have n: "0 < length ts" "1 < length ts"
      using schedule_threads [OF s(1)] by (simp_all add: ref_readers_threads)
    have "conflicting (devs ref_loaded) (Access 13) (Access 13)"
      by (simp add: list_ex_iff bars_of_def ref_loaded_def ref_loading_def fresh_dev_def size_defs
          bexI [of _ 6])
    with no_data_race [OF ref_readers_process s(1) n _ s(2,3)] show False by simp
  qed
qed

theorem no_deadlock_witness:
  "\<exists>more us. schedule ([0] @ more) (threads ref_kernel ref_openers) = Some us \<and> list_all finished us"
  using no_deadlock [OF ref_openers_process ref_openers_schedule] by blast

end
