(* ===== verification/Client.thy ===== *)
theory Client
  imports System
begin

text \<open>
  The user space library of \<open>automatic_test\<close>: the abstract class \<open>ReaderWriter\<close> with its two
  implementations, one for each way of transferring words. The calls of a process reach the
  driver through the transition system of \<open>System\<close>; the local variables and buffers of the
  library are in user memory. The interface of the class is a locale, and both
  implementations are interpretations of it.
\<close>

section \<open>System calls of a process\<close>

text \<open>
  A process sees errors as -1. Its descriptors 0 to 2 are the standard streams, so that the
  file \<open>i\<close> has the descriptor \<open>i + 3\<close>. The kernel cuts a transfer to \<open>MAX_RW_COUNT\<close>.
\<close>

definition result :: "int \<Rightarrow> int" where
  "result r = (if r < 0 then - 1 else r)"

definition descriptor :: "nat \<Rightarrow> int" where
  "descriptor i = int i + 3"

definition file_index :: "int \<Rightarrow> nat" where
  "file_index fd = nat (fd - 3)"

definition cut_count :: "u64 \<Rightarrow> u64" where
  "cut_count n = (if MAX_RW_COUNT < unat n then of_nat MAX_RW_COUNT else n)"

text \<open>The names of the device nodes, as the module gives them to \<open>device_create\<close>.\<close>

definition MTCADUMMY_NAME :: string where "MTCADUMMY_NAME = ''mtcadummy''"
definition LLRFDUMMY_NAME :: string where "LLRFDUMMY_NAME = ''llrfdummy''"
definition NOIOCTLDUMMY_NAME :: string where "NOIOCTLDUMMY_NAME = ''noioctldummy''"
definition PCIEUNIDUMMY_NAME :: string where "PCIEUNIDUMMY_NAME = ''pcieunidummy''"

definition device_name :: "nat \<Rightarrow> string" where
  "device_name i =
    (if i = 4 then LLRFDUMMY_NAME
     else if i = 5 then NOIOCTLDUMMY_NAME
     else if i = 6 then PCIEUNIDUMMY_NAME
     else MTCADUMMY_NAME) @ ''s'' @ show_int (int i)"

definition device_of_path :: "string \<Rightarrow> world \<Rightarrow> nat option" where
  "device_of_path path w =
    List.find (\<lambda>i. path = ''/dev/'' @ device_name i \<and> DevNode i \<in> registered (kern w))
      [0..<MTCADUMMY_NR_DEVS]"

definition sys_open :: "kernel \<Rightarrow> string \<Rightarrow> world \<Rightarrow> (int \<times> world) option" where
  "sys_open K path w = (case device_of_path path w of
      None \<Rightarrow> Some (- 1, w)
    | Some d \<Rightarrow> do {
        (r, w') \<leftarrow> exec_call K (Open d) w;
        Some (if r < 0 then - 1 else descriptor (length (files w)), w')
      })"

definition sys_close :: "kernel \<Rightarrow> int \<Rightarrow> world \<Rightarrow> (int \<times> world) option" where
  "sys_close K fd w = do { (r, w) \<leftarrow> exec_call K (Close (file_index fd)) w; Some (result r, w) }"

definition sys_read :: "kernel \<Rightarrow> int \<Rightarrow> u64 \<Rightarrow> u64 \<Rightarrow> world \<Rightarrow> (int \<times> world) option" where
  "sys_read K fd buf count w = do {
     (r, w) \<leftarrow> exec_call K (Read (file_index fd) buf (cut_count count)) w;
     Some (result r, w)
   }"

definition sys_write :: "kernel \<Rightarrow> int \<Rightarrow> u64 \<Rightarrow> u64 \<Rightarrow> world \<Rightarrow> (int \<times> world) option" where
  "sys_write K fd buf count w = do {
     (r, w) \<leftarrow> exec_call K (Write (file_index fd) buf (cut_count count)) w;
     Some (result r, w)
   }"

text \<open>\<open>pread\<close> and \<open>pwrite\<close> leave the position of the file alone.\<close>

definition sys_pread :: "kernel \<Rightarrow> int \<Rightarrow> u64 \<Rightarrow> u64 \<Rightarrow> u64 \<Rightarrow> world \<Rightarrow> (int \<times> world) option" where
  "sys_pread K fd buf count pos w =
    (if sint pos < 0 then Some (- 1, w) else do {
     let h = files w ! file_index fd;
     ((r, _), s) \<leftarrow> call_read (fop_read (ops_at (kern w) (fh_dev h))) K (fh_file h) buf
       (cut_count count) pos (kern w);
     Some (result r, w\<lparr>kern := s\<rparr>)
   })"

definition sys_pwrite :: "kernel \<Rightarrow> int \<Rightarrow> u64 \<Rightarrow> u64 \<Rightarrow> u64 \<Rightarrow> world \<Rightarrow> (int \<times> world) option" where
  "sys_pwrite K fd buf count pos w =
    (if sint pos < 0 then Some (- 1, w) else do {
     let h = files w ! file_index fd;
     ((r, _), s) \<leftarrow> call_write (fop_write (ops_at (kern w) (fh_dev h))) K (fh_file h) buf
       (cut_count count) pos (kern w);
     Some (result r, w\<lparr>kern := s\<rparr>)
   })"

section \<open>Memory and exceptions\<close>

definition get_memory :: "u64 \<Rightarrow> nat \<Rightarrow> world \<Rightarrow> u8 list" where
  "get_memory a n w = umem_read (umem (kern w)) a n"

definition put_memory :: "u64 \<Rightarrow> u8 list \<Rightarrow> world \<Rightarrow> world" where
  "put_memory a bs w = w\<lparr>kern := (kern w)\<lparr>umem := umem_write (umem (kern w)) a bs\<rparr>\<rparr>"

datatype exn = DeviceIOException string

type_synonym 'a client = "world \<Rightarrow> ((exn + 'a) \<times> world) option"

definition throw :: "string \<Rightarrow> 'a client" where
  "throw message w = Some (Inl (DeviceIOException message), w)"

definition give :: "'a \<Rightarrow> 'a client" where
  "give x w = Some (Inr x, w)"

text \<open>One statement after the other, unless the first one throws.\<close>

definition and_then :: "'a client \<Rightarrow> ('a \<Rightarrow> 'b client) \<Rightarrow> 'b client" where
  "and_then m f w = do {
     (r, w) \<leftarrow> m w;
     case r of Inl e \<Rightarrow> Some (Inl e, w) | Inr x \<Rightarrow> f x w
   }"

text \<open>\<open>for(uint32_t i = 0; i < n; ++i)\<close> over a body that can throw\<close>

fun client_loop :: "(nat \<Rightarrow> unit client) \<Rightarrow> nat \<Rightarrow> nat \<Rightarrow> unit client" where
  "client_loop body i 0 = give ()"
| "client_loop body i (Suc n) = and_then (body i) (\<lambda>_. client_loop body (Suc i) n)"

section \<open>The abstract class\<close>

text \<open>The constructor of the base class, and the table of the virtual functions.\<close>

definition ReaderWriter_open :: "kernel \<Rightarrow> string \<Rightarrow> int client" where
  "ReaderWriter_open K deviceFileName w = do {
     (fileDescriptor, w) \<leftarrow> sys_open K deviceFileName w;
     if fileDescriptor \<le> 0
     then throw (''Could not open file '' @ deviceFileName @
       ''. Check that the udev rules are installed and the kernel module is loaded!'') w
     else give fileDescriptor w
   }"

text \<open>The destructor. The names of the descriptors stay valid when files are closed last one first.\<close>

definition ReaderWriter_close :: "kernel \<Rightarrow> int \<Rightarrow> unit client" where
  "ReaderWriter_close K fileDescriptor w = do {
     (_, w) \<leftarrow> sys_close K fileDescriptor w;
     give () w
   }"

record reader_writer =
  readSingle :: "u32 \<Rightarrow> u32 \<Rightarrow> u32 client"
  readArea :: "u32 \<Rightarrow> u32 \<Rightarrow> u32 \<Rightarrow> u64 \<Rightarrow> unit client"
  writeSingle :: "u32 \<Rightarrow> u32 \<Rightarrow> u32 \<Rightarrow> unit client"
  writeArea :: "u32 \<Rightarrow> u32 \<Rightarrow> u32 \<Rightarrow> u64 \<Rightarrow> unit client"

section \<open>Transfers with a structure\<close>

text \<open>The structure is a local variable at the address \<open>stack\<close>.\<close>

definition struct_readSingle :: "kernel \<Rightarrow> u64 \<Rightarrow> int \<Rightarrow> u32 \<Rightarrow> u32 \<Rightarrow> u32 client" where
  "struct_readSingle K stack fd offset bar w = do {
     let readInstruction = \<lparr>offset_rw = offset, data_rw = 0, mode_rw = RW_D32, barx_rw = bar,
       size_rw = 0, rsrvd_rw = 0\<rparr>;
     let w = put_memory stack (encode_device_rw readInstruction) w;
     (r, w) \<leftarrow> sys_read K fd stack (of_nat sizeof_device_rw) w;
     if r \<noteq> int sizeof_device_rw then throw ''Error reading from device'' w
     else give (data_rw (decode_device_rw (get_memory stack sizeof_device_rw w))) w
   }"

definition struct_readArea :: "kernel \<Rightarrow> u64 \<Rightarrow> int \<Rightarrow> u32 \<Rightarrow> u32 \<Rightarrow> u32 \<Rightarrow> u64 \<Rightarrow> unit client" where
  "struct_readArea K stack fd offset bar nWords readBuffer =
    client_loop (\<lambda>i. and_then (struct_readSingle K stack fd (offset + of_nat i * 4) bar)
      (\<lambda>v w. give () (put_memory (readBuffer + of_nat (4 * i)) (bytes_of v) w))) 0 (unat nWords)"

definition struct_writeSingle :: "kernel \<Rightarrow> u64 \<Rightarrow> int \<Rightarrow> u32 \<Rightarrow> u32 \<Rightarrow> u32 \<Rightarrow> unit client" where
  "struct_writeSingle K stack fd offset bar val w = do {
     let writeInstruction = \<lparr>offset_rw = offset, data_rw = val, mode_rw = RW_D32, barx_rw = bar,
       size_rw = 0, rsrvd_rw = 0\<rparr>;
     let w = put_memory stack (encode_device_rw writeInstruction) w;
     (r, w) \<leftarrow> sys_write K fd stack (of_nat sizeof_device_rw) w;
     if r \<noteq> int sizeof_device_rw then throw ''Error writing to device'' w else give () w
   }"

definition struct_writeArea :: "kernel \<Rightarrow> u64 \<Rightarrow> int \<Rightarrow> u32 \<Rightarrow> u32 \<Rightarrow> u32 \<Rightarrow> u64 \<Rightarrow> unit client" where
  "struct_writeArea K stack fd offset bar nWords writeBuffer =
    client_loop (\<lambda>i w. struct_writeSingle K stack fd (offset + of_nat i * 4) bar
      (le32 (get_memory (writeBuffer + of_nat (4 * i)) 4 w)) w) 0 (unat nWords)"

definition StructReaderWriter :: "kernel \<Rightarrow> u64 \<Rightarrow> int \<Rightarrow> reader_writer" where
  "StructReaderWriter K stack fd =
    \<lparr>readSingle = struct_readSingle K stack fd, readArea = struct_readArea K stack fd,
     writeSingle = struct_writeSingle K stack fd, writeArea = struct_writeArea K stack fd\<rparr>"

section \<open>Transfers by position\<close>

definition PCIEUNI_BAR_OFFSETS :: "u64 list" where
  "PCIEUNI_BAR_OFFSETS = [0, push_bit 60 1, push_bit 60 2, push_bit 60 3, push_bit 60 4, push_bit 60 5]"

text \<open>
  The comparisons are between signed and unsigned 64 bit numbers; the result of \<open>pwrite\<close> is
  cut to an \<open>int\<close> before.
\<close>

definition normal_readArea :: "kernel \<Rightarrow> int \<Rightarrow> u32 \<Rightarrow> u32 \<Rightarrow> u32 \<Rightarrow> u64 \<Rightarrow> unit client" where
  "normal_readArea K fd offset bar nWords readBuffer w =
    (if 5 < bar then throw ''Bar number is too large.'' w else do {
     let virtualOffset = PCIEUNI_BAR_OFFSETS ! unat bar + ucast offset;
     (r, w) \<leftarrow> sys_pread K fd readBuffer (ucast nWords * 4) virtualOffset w;
     if (of_int r :: u64) \<noteq> ucast nWords * 4 then throw ''Error reading from device'' w
     else give () w
   })"

definition normal_readSingle :: "kernel \<Rightarrow> u64 \<Rightarrow> int \<Rightarrow> u32 \<Rightarrow> u32 \<Rightarrow> u32 client" where
  "normal_readSingle K stack fd offset bar =
    and_then (normal_readArea K fd offset bar 1 stack)
      (\<lambda>_ w. give (le32 (get_memory stack 4 w)) w)"

definition normal_writeArea :: "kernel \<Rightarrow> int \<Rightarrow> u32 \<Rightarrow> u32 \<Rightarrow> u32 \<Rightarrow> u64 \<Rightarrow> unit client" where
  "normal_writeArea K fd offset bar nWords writeBuffer w =
    (if 5 < bar then throw ''Bar number is too large.'' w else do {
     let virtualOffset = PCIEUNI_BAR_OFFSETS ! unat bar + ucast offset;
     (r, w) \<leftarrow> sys_pwrite K fd writeBuffer (ucast nWords * 4) virtualOffset w;
     let writeStatus = signed_take_bit 31 r;
     if (of_int writeStatus :: u64) \<noteq> ucast nWords * 4 then throw ''Error writing to device'' w
     else give () w
   })"

definition normal_writeSingle :: "kernel \<Rightarrow> u64 \<Rightarrow> int \<Rightarrow> u32 \<Rightarrow> u32 \<Rightarrow> u32 \<Rightarrow> unit client" where
  "normal_writeSingle K stack fd offset bar val w =
    normal_writeArea K fd offset bar 1 stack (put_memory stack (bytes_of val) w)"

definition NormalReaderWriter :: "kernel \<Rightarrow> u64 \<Rightarrow> int \<Rightarrow> reader_writer" where
  "NormalReaderWriter K stack fd =
    \<lparr>readSingle = normal_readSingle K stack fd, readArea = normal_readArea K fd,
     writeSingle = normal_writeSingle K stack fd, writeArea = normal_writeArea K fd\<rparr>"

section \<open>A file that works\<close>

text \<open>The descriptor belongs to an open file of the device \<open>d\<close>.\<close>

definition linked :: "kernel \<Rightarrow> nat \<Rightarrow> int \<Rightarrow> world \<Rightarrow> bool" where
  "linked K d fd w \<longleftrightarrow>
    world_ok K w \<and> file_index fd < length (files w) \<and> fh_dev (files w ! file_index fd) = d \<and>
    d < MTCADUMMY_NR_DEVS \<and> d \<noteq> 5"

text \<open>And reading and writing are not switched to fail.\<close>

definition attached :: "kernel \<Rightarrow> nat \<Rightarrow> int \<Rightarrow> world \<Rightarrow> bool" where
  "attached K d fd w \<longleftrightarrow>
    linked K d fd w \<and> \<not> read_error (control (kern w)) \<and> \<not> write_error (control (kern w))"

lemmas attached_iff = attached_def [unfolded linked_def conj_assoc]

definition bars :: "nat \<Rightarrow> world \<Rightarrow> u32 list \<times> u32 list" where
  "bars d w = (regs (kern w) d, dma (kern w) d)"

definition spi :: "world \<Rightarrow> bool" where
  "spi w = spi_error (control (kern w))"

text \<open>What calls on files of the device \<open>d\<close> leave as it was.\<close>

definition served :: "kernel \<Rightarrow> nat \<Rightarrow> world \<Rightarrow> world \<Rightarrow> bool" where
  "served K d w w' \<longleftrightarrow>
    world_ok K w' \<and> map fh_dev (files w') = map fh_dev (files w) \<and>
    control (kern w') = control (kern w) \<and> registered (kern w') = registered (kern w) \<and>
    (\<forall>e < MTCADUMMY_NR_DEVS. e \<noteq> d \<longrightarrow> bars e w' = bars e w)"

lemma served_refl [simp]: "served K d w w = world_ok K w"
  by (auto simp: served_def)

lemma served_trans: "served K d w w' \<Longrightarrow> served K d w' w'' \<Longrightarrow> served K d w w''"
  by (simp add: served_def)

lemma attached_world_ok: "attached K d fd w \<Longrightarrow> world_ok K w"
  by (simp add: attached_iff)

lemma served_spi: "served K d w w' \<Longrightarrow> spi w' = spi w"
  by (simp add: served_def spi_def)

lemma served_bars: "served K d w w' \<Longrightarrow> e < MTCADUMMY_NR_DEVS \<Longrightarrow> e \<noteq> d \<Longrightarrow> bars e w' = bars e w"
  by (simp add: served_def)

lemma served_linked:
  assumes "linked K e fd w" and "served K d w w'"
  shows "linked K e fd w'"
proof -
  have m: "map fh_dev (files w') = map fh_dev (files w)" using assms(2) by (simp add: served_def)
  then have l: "length (files w') = length (files w)" by (rule map_eq_imp_length_eq)
  have "file_index fd < length (files w)" using assms(1) by (simp add: linked_def)
  then have "fh_dev (files w' ! file_index fd) = fh_dev (files w ! file_index fd)"
    using arg_cong [OF m, of "\<lambda>xs. xs ! file_index fd"] l by simp
  with assms l show ?thesis by (simp add: linked_def served_def)
qed

lemma served_attached: "attached K e fd w \<Longrightarrow> served K d w w' \<Longrightarrow> attached K e fd w'"
  using served_linked [of K e fd w d w'] by (simp add: attached_def served_def)

text \<open>Memory outside of some regions, each given by its address and length, is kept.\<close>

definition kept :: "(u64 \<times> nat) list \<Rightarrow> world \<Rightarrow> world \<Rightarrow> bool" where
  "kept rs w w' \<longleftrightarrow>
    (\<forall>x. list_all (\<lambda>(a, n). n \<le> unat (x - a)) rs \<longrightarrow> umem (kern w') x = umem (kern w) x)"

lemma kept_refl [simp]: "kept rs w w"
  by (simp add: kept_def)

lemma kept_trans: "kept rs w w' \<Longrightarrow> kept rs w' w'' \<Longrightarrow> kept rs w w''"
  by (simp add: kept_def)

lemma kept_more: "kept rs w w' \<Longrightarrow> set rs \<subseteq> set rs' \<Longrightarrow> kept rs' w w'"
  unfolding kept_def list_all_iff by blast

lemma kept_one: "kept [(a, n)] w w' \<longleftrightarrow> outside_kept a n (umem (kern w)) (umem (kern w'))"
  by (simp add: kept_def outside_kept_def)

lemma linkedD:
  assumes "linked K d fd w"
  shows "idle (kern w)" "d < MTCADUMMY_NR_DEVS" "d \<noteq> 5"
    "private_data (fh_file (files w ! file_index fd)) = Some d"
    "ops_at (kern w) d = file_ops_of d" "file_index fd < length (files w)"
    "fh_dev (files w ! file_index fd) = d"
    "length (regs (kern w) d) = MTCADUMMY_N_REGISTERS" "length (dma (kern w) d) = DMA_WORDS"
proof -
  have w: "world_ok K w" and i: "file_index fd < length (files w)"
    and d: "fh_dev (files w ! file_index fd) = d" "d < MTCADUMMY_NR_DEVS" "d \<noteq> 5"
    using assms by (simp_all add: linked_def)
  then show "idle (kern w)" "d < MTCADUMMY_NR_DEVS" "d \<noteq> 5" "file_index fd < length (files w)"
    "fh_dev (files w ! file_index fd) = d" "ops_at (kern w) d = file_ops_of d"
    by (simp_all add: world_okD)
  show "private_data (fh_file (files w ! file_index fd)) = Some d"
    using handle_device(2) [OF world_okD(3) [OF w i]] d by simp
  show "length (regs (kern w) d) = MTCADUMMY_N_REGISTERS" "length (dma (kern w) d) = DMA_WORDS"
    using idle_wf [OF world_okD(1) [OF w]] d(2) by (simp_all add: wf_length_regs wf_length_dma)
qed

lemma attachedD:
  assumes "attached K d fd w"
  shows "idle (kern w)" "d < MTCADUMMY_NR_DEVS" "d \<noteq> 5"
    "private_data (fh_file (files w ! file_index fd)) = Some d"
    "ops_at (kern w) d = file_ops_of d" "file_index fd < length (files w)"
    "fh_dev (files w ! file_index fd) = d"
    "\<not> read_error (control (kern w))" "\<not> write_error (control (kern w))"
    "length (regs (kern w) d) = MTCADUMMY_N_REGISTERS" "length (dma (kern w) d) = DMA_WORDS"
  using assms linkedD [of K d fd w] by (simp_all add: attached_def)

lemma linked_call:
  assumes "linked K d fd w" and "call_on d (kern w) t"
  shows "served K d w (w\<lparr>kern := t\<rparr>)"
proof -
  have w: "world_ok K w" using assms(1) by (simp add: linked_def)
  then have "list_all handle_ok (files w)" by (simp add: world_ok_def)
  with assms show "served K d w (w\<lparr>kern := t\<rparr>)"
    by (auto simp: served_def call_on_def bars_def intro!: world_ok_call(2) [OF w])
qed

lemma attached_call: "attached K d fd w \<Longrightarrow> call_on d (kern w) t \<Longrightarrow> served K d w (w\<lparr>kern := t\<rparr>)"
  using linked_call by (auto simp: attached_def)

lemma put_memory_simps [simp]:
  "files (put_memory a bs w) = files w" "bars d (put_memory a bs w) = bars d w"
  "spi (put_memory a bs w) = spi w" "regs (kern (put_memory a bs w)) d = regs (kern w) d"
  "dma (kern (put_memory a bs w)) d = dma (kern w) d"
  "umem (kern (put_memory a bs w)) = umem_write (umem (kern w)) a bs"
  "tick (kern (put_memory a bs w)) = tick (kern w)"
  "control (kern (put_memory a bs w)) = control (kern w)"
  by (simp_all add: put_memory_def bars_def spi_def regs_def dma_def)

lemma world_ok_put [simp]: "world_ok K (put_memory a bs w) = world_ok K w"
proof -
  have eq: "put_memory a bs w = w\<lparr>kern := with_umem a bs (kern w)\<rparr>"
    by (simp add: put_memory_def with_umem_def)
  show ?thesis unfolding eq world_ok_def ops_at_def by simp
qed

lemma linked_put [simp]: "linked K d fd (put_memory a bs w) = linked K d fd w"
  by (simp add: linked_def)

lemma attached_put [simp]: "attached K d fd (put_memory a bs w) = attached K d fd w"
  by (simp add: attached_def)

lemma served_put [simp]:
  "served K d w (put_memory a bs w') = served K d w w'"
  "served K d (put_memory a bs w) w' = served K d w w'"
  by (simp_all add: served_def) (simp_all add: put_memory_def)

lemma get_put [simp]: "length bs < 2 ^ 64 \<Longrightarrow> n = length bs \<Longrightarrow> get_memory a n (put_memory a bs w) = bs"
  by (simp add: get_memory_def umem_read_write)

lemma kept_put:
  assumes "length bs \<le> n"
  shows "kept ((a, n) # rs) w (put_memory a bs w)"
proof (rule kept_more [of "[(a, n)]"])
  show "kept [(a, n)] w (put_memory a bs w)"
    using outside_kept_write [of 0 bs n a "umem (kern w)"] assms by (simp add: kept_one)
qed simp

section \<open>The system calls on such a file\<close>

lemma cut_count_small [simp]: "unat n \<le> MAX_RW_COUNT \<Longrightarrow> cut_count n = n"
  by (simp add: cut_count_def)

lemma spec_read_error: "spec_read bar off rs ds = Inl e \<Longrightarrow> e < 0"
  by (auto simp: spec_read_def errno_defs split: option.splits if_splits)

lemma sys_read_word:
  assumes "quiet K" and "attached K d fd w" and "d < 5"
    and "req = decode_device_rw (get_memory buf sizeof_device_rw w)" and "mode_rw req = RW_D32"
  shows "ensures (sys_read K fd buf (of_nat sizeof_device_rw) w) (\<lambda>r w'.
    served K d w w' \<and> bars d w' = bars d w \<and>
    (case spec_read (barx_rw req) (offset_rw req) (regs (kern w) d) (dma (kern w) d) of
       Inl _ \<Rightarrow> r = - 1 \<and> umem (kern w') = umem (kern w)
     | Inr v \<Rightarrow> r = int sizeof_device_rw \<and>
         umem (kern w') = umem_write (umem (kern w)) buf (encode_device_rw (req\<lparr>data_rw := v\<rparr>))))"
proof -
  let ?h = "files w ! file_index fd" and ?s = "kern w"
  note a = attachedD [OF assms(2)]
  have rq: "read_request K buf ?s = (req, 0)"
    using assms(4) by (simp add: read_request_def quietD [OF assms(1)] get_memory_def)
  have nw: "\<not> read_escapes K d buf 24 ?s"
    by (rule not_escaping) (use rq assms(5) in \<open>simp add: rw_mode_defs\<close>)
  have op: "fop_read (ops_at ?s (fh_dev ?h)) = Some Mtca_read"
    using a(2,3,5,7) assms(3) by (simp add: file_ops_cases)
  have c: "cut_count (of_nat sizeof_device_rw) = 24" "unat (24 :: u64) = 24"
    by (simp_all add: sizeof_device_rw_def MAX_RW_COUNT_def)
  have "ensures (mtcaDummy_read K (fh_file ?h) buf 24 ?s) (\<lambda>r t. call_on d ?s t \<and>
      regs t d = regs ?s d \<and> dma t d = dma ?s d \<and>
      (r, umem t) = send_reply K buf ?s (spec_reply K (of_nat d) req (regs ?s d) (dma ?s d)))"
    by (rule ensures_mono [OF mtcaDummy_read_refines [OF a(1,4,2)]])
      (use rq nw a(8) in \<open>auto simp: quiet_gate [OF assms(1)] sizeof_device_rw_def\<close>)
  moreover have "send_reply K buf ?s (spec_reply K (of_nat d) req (regs ?s d) (dma ?s d)) =
      (case spec_read (barx_rw req) (offset_rw req) (regs ?s d) (dma ?s d) of
         Inl e \<Rightarrow> (e, umem ?s)
       | Inr v \<Rightarrow> (24, umem_write (umem ?s) buf (encode_device_rw (req\<lparr>data_rw := v\<rparr>))))"
    using assms(5) by (auto simp: send_reply_def spec_reply_def rw_mode_defs quietD [OF assms(1)] split: sum.split)
  ultimately show ?thesis
    unfolding sys_read_def exec_call.simps Let_def op c
    by (auto simp: call_read_def keep_position_def wp ensures_iff attached_call [OF assms(2)] bars_def result_def
        sizeof_device_rw_def dest: spec_read_error split: sum.splits)
qed

lemma spec_write_result:
  "spec_write K intr spiFail bar off v rs ds = (e, rs', ds') \<Longrightarrow> e = 0 \<or> e < 0"
  by (auto simp: spec_write_def errno_defs split: option.splits if_splits prod.splits)

text \<open>A write of a word, whether writing is switched to fail or not.\<close>

lemma sys_write_linked:
  assumes "quiet K" and "linked K d fd w" and "d < 5"
    and "req = decode_device_rw (get_memory buf sizeof_device_rw w)" and "mode_rw req = RW_D32"
    and "(if write_error (control (kern w)) then (- EFAULT, regs (kern w) d, dma (kern w) d)
      else spec_write K False (spi w) (barx_rw req) (offset_rw req) (data_rw req) (regs (kern w) d)
        (dma (kern w) d)) = (e, rs, ds)"
  shows "ensures (sys_write K fd buf (of_nat sizeof_device_rw) w) (\<lambda>r w'.
    served K d w w' \<and> bars d w' = (rs, ds) \<and> umem (kern w') = umem (kern w) \<and>
    r = (if e = 0 then int sizeof_device_rw else - 1))"
proof -
  let ?h = "files w ! file_index fd" and ?s = "kern w"
  note a = linkedD [OF assms(2)]
  have rq: "read_request K buf ?s = (req, 0)"
    using assms(4) by (simp add: read_request_def quietD [OF assms(1)] get_memory_def)
  have op: "fop_write (ops_at ?s (fh_dev ?h)) = Some Mtca_write"
    using a(2,3,5,7) assms(3) by (simp add: file_ops_cases)
  have c: "cut_count (of_nat sizeof_device_rw) = 24" "unat (24 :: u64) = 24"
    by (simp_all add: sizeof_device_rw_def MAX_RW_COUNT_def)
  have gate: "entry_gate K b d t = (if b then Some (- EFAULT) else None)" for b t
    by (simp add: entry_gate_def quietD [OF assms(1)])
  have neg: "e = 0 \<or> e < 0"
    using assms(6) spec_write_result by (auto simp: errno_defs split: if_splits)
  have "ensures (mtcaDummy_write K (fh_file ?h) buf 24 ?s) (\<lambda>r t. call_on d ?s t \<and> umem t = umem ?s \<and>
      (r, regs t d, dma t d) = (if e = 0 then 24 else e, rs, ds))"
    by (rule ensures_mono [OF mtcaDummy_write_refines [OF a(1,4,2)]])
      (use rq assms(5,6) in \<open>auto simp: gate quietD [OF assms(1)] sizeof_device_rw_def spi_def errno_defs
        split: if_splits\<close>)
  then show ?thesis
    using neg
    unfolding sys_write_def exec_call.simps Let_def op c
    by (auto simp: call_write_def keep_position_def wp ensures_iff linked_call [OF assms(2)] bars_def
        result_def sizeof_device_rw_def)
qed

lemma sys_write_word:
  assumes "quiet K" and "attached K d fd w" and "d < 5"
    and "req = decode_device_rw (get_memory buf sizeof_device_rw w)" and "mode_rw req = RW_D32"
    and "spec_write K False (spi w) (barx_rw req) (offset_rw req) (data_rw req) (regs (kern w) d)
      (dma (kern w) d) = (e, rs, ds)"
  shows "ensures (sys_write K fd buf (of_nat sizeof_device_rw) w) (\<lambda>r w'.
    served K d w w' \<and> bars d w' = (rs, ds) \<and> umem (kern w') = umem (kern w) \<and>
    r = (if e = 0 then int sizeof_device_rw else - 1))"
  using assms by (intro sys_write_linked [OF assms(1) _ assms(3-5)]) (simp_all add: attached_def)

text \<open>A refused position makes both position based calls return -1 and change nothing.\<close>

lemma sys_pread_words:
  assumes "quiet K" and "attached K d fd w" and "d = 6" and "0 \<le> sint v"
    and "covers (kern w) d v count ws a n" and "position_bar v = 0 \<longrightarrow> \<not> (a \<le> 18 \<and> 18 < a + n)"
  shows "ensures (sys_pread K fd buf count v w) (\<lambda>r w'.
    served K d w w' \<and> bars d w' = bars d w \<and> kept [(buf, 4 * n)] w w' \<and>
    r = int (4 * n) \<and> get_memory buf (4 * n) w' = bytes_of_words (take n (drop a ws)))"
proof -
  let ?h = "files w ! file_index fd" and ?s = "kern w"
  note a = attachedD [OF assms(2)]
  have op: "fop_read (ops_at ?s (fh_dev ?h)) = Some Mtca_read_no_struct"
    using a(2,3,5,7) assms(3) by (simp add: file_ops_cases)
  have c: "cut_count count = count" using assms(5) by (simp add: covers_def)
  have p: "(sint v < 0) = False" using assms(4) by simp
  show ?thesis
    using quiet_read [OF assms(1) a(1,4,2,8) assms(5,6), of buf]
    unfolding sys_pread_def Let_def op c p if_False
    by (auto simp: call_read_def wp ensures_iff attached_call [OF assms(2)] bars_def result_def
        get_memory_def kept_one)
qed

lemma sys_pwrite_words:
  assumes "quiet K" and "attached K d fd w" and "d = 6" and "0 \<le> sint v"
    and "covers (kern w) d v count ws a n"
    and "spec_writes K (spi w) (position_bar v) a (user_words (umem (kern w)) buf n)
      (regs (kern w) d) (dma (kern w) d) = (e, rs, ds)"
  shows "ensures (sys_pwrite K fd buf count v w) (\<lambda>r w'.
    served K d w w' \<and> bars d w' = (rs, ds) \<and> umem (kern w') = umem (kern w) \<and>
    r = (if e = 0 then int (4 * n) else result e))"
proof -
  let ?h = "files w ! file_index fd" and ?s = "kern w"
  note a = attachedD [OF assms(2)]
  have op: "fop_write (ops_at ?s (fh_dev ?h)) = Some Mtca_write_no_struct"
    using a(2,3,5,7) assms(3) by (simp add: file_ops_cases)
  have c: "cut_count count = count" using assms(5) by (simp add: covers_def)
  have p: "(sint v < 0) = False" using assms(4) by simp
  have sp: "spec_writes K (spi_error (control ?s)) (position_bar v) a (user_words (umem ?s) buf n)
      (regs ?s d) (dma ?s d) = (e, rs, ds)"
    using assms(6) by (simp add: spi_def)
  show ?thesis
    using quiet_write [OF assms(1) a(1,4,2,9) assms(5), of buf]
    unfolding sys_pwrite_def Let_def op c p if_False sp
    by (auto simp: call_write_def wp ensures_iff attached_call [OF assms(2)] bars_def result_def)
qed

section \<open>A word at any position\<close>

lemma position_of_class:
  fixes bar off :: u32
  assumes "bar \<le> 5"
  shows "PCIEUNI_BAR_OFFSETS ! unat bar + ucast off = position bar off"
    and "0 \<le> sint (position bar off)"
    and "position_bar (position bar off) = bar" and "position_offset (position bar off) = ucast off"
proof -
  have "unat bar < 6" using assms by (simp add: word_le_nat_alt)
  then have "unat bar \<in> {0, 1, 2, 3, 4, 5}" by auto
  moreover have "bar = of_nat (unat bar)" by simp
  ultimately have "bar = of_nat 0 \<or> bar = of_nat 1 \<or> bar = of_nat 2 \<or> bar = of_nat 3 \<or> bar = of_nat 4 \<or> bar = of_nat 5"
    by (metis empty_iff insert_iff)
  then have b: "bar = 0 \<or> bar = 1 \<or> bar = 2 \<or> bar = 3 \<or> bar = 4 \<or> bar = 5" by simp
  then have "PCIEUNI_BAR_OFFSETS ! unat bar = push_bit 60 (ucast bar)"
    by (auto simp: PCIEUNI_BAR_OFFSETS_def)
  moreover have "push_bit 60 (ucast bar) + ucast off = (push_bit 60 (ucast bar) OR ucast off :: u64)"
    by (rule disjunctive_add) (auto simp: bit_simps dest: bit_imp_le_length)
  ultimately show "PCIEUNI_BAR_OFFSETS ! unat bar + ucast off = position bar off"
    by (simp add: position_def)
  have "\<not> bit bar 3" using b by auto
  then have "\<not> bit (position bar off) 63"
    by (auto simp: position_def bit_simps dest: bit_imp_le_length)
  then show "0 \<le> sint (position bar off)"
    using bit_last_iff [of "position bar off"] by (simp add: not_less)
  show "position_offset (position bar off) = ucast off"
    unfolding position_def position_offset_take_bit
    by (rule bit_word_eqI) (auto simp: bit_simps dest: bit_imp_le_length)
  have off: "signed_drop_bit 60 (x OR ucast off) = signed_drop_bit 60 (x :: u64)" for x
    by (rule bit_word_eqI) (auto simp: bit_simps dest: bit_imp_le_length)
  show "position_bar (position bar off) = bar"
    using b unfolding position_bar_def position_def off by auto
qed

text \<open>A word that is not in its bar is refused, or nothing of it is transferred.\<close>

lemma position_misaligned: "position bar off mod 4 = 0 \<Longrightarrow> off mod 4 = 0"
proof -
  assume "position bar off mod 4 = 0"
  then have t: "take_bit 2 (position bar off) = 0" by (simp add: take_bit_eq_mod)
  have "take_bit 2 off = ucast (take_bit 2 (position bar off))"
    unfolding position_def by (rule bit_word_eqI) (auto simp: bit_simps)
  with t show ?thesis by (simp add: take_bit_eq_mod)
qed

lemma check_word:
  assumes "idle s" and "d < MTCADUMMY_NR_DEVS" and "bar \<le> 5"
    and "checkAndCalculateTransferInformation (devs s ! d) 4 (position bar off) = Inr ti"
  obtains ws where "bar_words bar (regs s d) (dma s d) = Some ws" and "ti_bar ti = bar"
    and "first_word ti = REG off" and "off mod 4 = 0"
    and "n_words ti = (if valid_offset off ws then 1 else 0)"
proof -
  have wf: "wf_sys s" using assms(1) by (simp add: idle_def live_def)
  note p = position_of_class [OF assms(3), of off]
  have al: "off mod 4 = 0"
    using check_cases [OF assms(4)] position_misaligned by metis
  from check_accepts [OF assms(4) _ wf_length_regs [OF wf assms(2)] wf_length_dma [OF wf assms(2)]]
  obtain ws where a: "ti_bar ti = bar" "ti_offset ti = ucast off"
    "bar_words bar (regs s d) (dma s d) = Some ws" "transfer_ok ti ws 4"
    by (auto simp: p MAX_RW_COUNT_def)
  have f: "first_word ti = REG off" by (simp add: first_word_def a(2) ucast_off REG_def unat_div)
  have u: "unat (ti_offset ti) = unat off" by (simp add: a(2) ucast_off)
  have n: "unat (nBytesToTransfer ti) = min 4 (4 * length ws - 4 * REG off)"
    using a(4) u REG_aligned(1) [OF al] by (simp add: transfer_ok_def)
  have "valid_offset off ws \<longleftrightarrow> REG off < length ws"
    using al REG_aligned(1) [OF al] by (auto simp: valid_offset_def)
  moreover have "n_words ti = (if REG off < length ws then 1 else 0)"
    unfolding n_words_def n
  proof (cases "REG off < length ws")
    case True
    then have "min 4 (4 * length ws - 4 * REG off) = 4" by arith
    with True show "min 4 (4 * length ws - 4 * REG off) div 4 = (if REG off < length ws then 1 else 0)"
      by simp
  qed simp
  ultimately have "n_words ti = (if valid_offset off ws then 1 else 0)" by simp
  from that [OF a(3,1) f al this] show thesis .
qed

lemma check_valid_word:
  assumes "idle s" and "d < MTCADUMMY_NR_DEVS"
    and "bar_words bar (regs s d) (dma s d) = Some ws" and "valid_offset off ws"
  obtains ti where "checkAndCalculateTransferInformation (devs s ! d) 4 (position bar off) = Inr ti"
  using covers_check [OF covers_word [OF assms(3,4)] assms(1,2)] by blast

lemma spec_read_refused:
  assumes "\<And>ws. bar_words bar rs ds = Some ws \<Longrightarrow> \<not> valid_offset off ws"
  shows "spec_read bar off rs ds = Inl (- EFAULT)"
  using assms by (auto simp: spec_read_def split: option.split)

lemma spec_write_refused:
  assumes "\<And>ws. bar_words bar rs ds = Some ws \<Longrightarrow> \<not> valid_offset off ws"
  shows "spec_write K i f bar off v rs ds = (- EFAULT, rs, ds)"
  using assms by (auto simp: spec_write_def split: option.split)

lemma REG_inj: "off mod 4 = 0 \<Longrightarrow> off' mod 4 = 0 \<Longrightarrow> REG off = REG off' \<longleftrightarrow> off = off'"
  using REG_aligned(2) [of off] REG_aligned(2) [of off'] by metis

lemma sys_pread_word:
  assumes "quiet K" and "attached K d fd w" and "d = 6" and "bar \<le> 5"
  shows "ensures (sys_pread K fd buf 4 (position bar off) w) (\<lambda>r w'.
    served K d w w' \<and> bars d w' = bars d w \<and> kept [(buf, 4)] w w' \<and>
    (case spec_read bar off (regs (kern w) d) (dma (kern w) d) of
       Inl _ \<Rightarrow> r = - 1 \<or> r = 0
     | Inr v \<Rightarrow> r = 4 \<and> get_memory buf 4 w' = bytes_of v))"
proof -
  let ?h = "files w ! file_index fd" and ?s = "kern w" and ?v = "position bar off"
  let ?rs = "regs ?s d" and ?ds = "dma ?s d"
  note a = attachedD [OF assms(2)]
  have op: "fop_read (ops_at ?s (fh_dev ?h)) = Some Mtca_read_no_struct"
    using a(2,3,5,7) assms(3) by (simp add: file_ops_cases)
  have c: "cut_count 4 = 4" by (simp add: MAX_RW_COUNT_def)
  have p: "(sint ?v < 0) = False" using position_of_class(2) [OF assms(4), of off] by simp
  have "ensures (mtcaDummy_read_no_struct K (fh_file ?h) buf 4 ?v ?s) (\<lambda>(r, f) t. call_on d ?s t \<and>
      regs t d = ?rs \<and> dma t d = ?ds \<and> outside_kept buf 4 (umem ?s) (umem t) \<and>
      (case spec_read bar off ?rs ?ds of
         Inl _ \<Rightarrow> r < 0 \<or> r = 0
       | Inr v \<Rightarrow> r = 4 \<and> umem_read (umem t) buf 4 = bytes_of v))"
  proof (rule ensures_mono [OF mtcaDummy_read_no_struct_refines
        [OF a(1,4,2) quietD(1) [OF assms(1)], of 4 buf ?v]], simp add: MAX_RW_COUNT_def, goal_cases)
    case (1 x t)
    obtain r f where x: "x = (r, f)" by (cases x)
    show ?case
    proof (cases "checkAndCalculateTransferInformation (devs ?s ! d) 4 ?v")
      case (Inl e)
      have "\<not> valid_offset off ws" if "bar_words bar ?rs ?ds = Some ws" for ws
        using check_valid_word [OF a(1,2) that] Inl by fastforce
      then have "spec_read bar off ?rs ?ds = Inl (- EFAULT)" by (rule spec_read_refused)
      moreover have "e < 0" using Inl by (auto simp: check_unfold errno_defs split: option.splits if_splits)
      ultimately show ?thesis using 1 Inl a(8)
        by (simp add: x quietD [OF assms(1)] outside_kept_def)
    next
      case (Inr ti)
      from check_word [OF a(1,2) assms(4) Inr] obtain ws where ws: "bar_words bar ?rs ?ds = Some ws"
        "ti_bar ti = bar" "first_word ti = REG off" "off mod 4 = 0"
        "n_words ti = (if valid_offset off ws then 1 else 0)" by blast
      from 1 Inr a(8) ws(1,2) obtain k where
        o: "read_outcome K (n_words ti) ti buf ?v ws (umem ?s) k r f (umem t)"
        by (auto simp: x quiet_gate [OF assms(1)])
      have ok: "outside_kept buf 4 (umem ?s) (umem t)"
        using o ws(5) by (auto simp: read_outcome_def outside_kept_def split: if_splits)
      show ?thesis
      proof (cases "valid_offset off ws")
        case False
        with ws(1) spec_read_refused [of bar ?rs ?ds off]
        have "spec_read bar off ?rs ?ds = Inl (- EFAULT)" by simp
        with 1 ok o ws(5) False show ?thesis by (simp add: x read_outcome_def)
      next
        case True
        have lt: "REG off < length ws" by (rule REG_less [OF True])
        have br: "broken_word ti 0 \<longleftrightarrow> bar = 0 \<and> off = MTCADUMMY_BROKEN_REGISTER"
          using ws(2,3) REG_inj [OF ws(4), of MTCADUMMY_BROKEN_REGISTER]
          by (simp add: broken_word_def register_defs)
        show ?thesis
          using 1 ok quiet_read_outcome [OF assms(1) o] o ws(1,3,5) True lt br
          by (auto simp: x spec_read_def read_outcome_def errno_defs Cons_nth_drop_Suc [symmetric])
      qed
    qed
  qed
  then show ?thesis
    unfolding sys_pread_def Let_def op c p if_False
    by (cases "spec_read bar off ?rs ?ds")
      (auto simp: call_read_def wp ensures_iff attached_call [OF assms(2)] bars_def result_def
        get_memory_def kept_one)
qed

lemma sys_pwrite_word:
  assumes "quiet K" and "attached K d fd w" and "d = 6" and "bar \<le> 5"
    and "spec_write K False (spi w) bar off (le32 (get_memory buf 4 w)) (regs (kern w) d)
      (dma (kern w) d) = (e, rs, ds)"
  shows "ensures (sys_pwrite K fd buf 4 (position bar off) w) (\<lambda>r w'.
    served K d w w' \<and> bars d w' = (rs, ds) \<and> umem (kern w') = umem (kern w) \<and>
    (if e = 0 then r = 4 else r = - 1 \<or> r = 0))"
proof -
  let ?h = "files w ! file_index fd" and ?s = "kern w" and ?v = "position bar off"
  let ?rs = "regs ?s d" and ?ds = "dma ?s d"
  note a = attachedD [OF assms(2)]
  have op: "fop_write (ops_at ?s (fh_dev ?h)) = Some Mtca_write_no_struct"
    using a(2,3,5,7) assms(3) by (simp add: file_ops_cases)
  have c: "cut_count 4 = 4" by (simp add: MAX_RW_COUNT_def)
  have p: "(sint ?v < 0) = False" using position_of_class(2) [OF assms(4), of off] by simp
  have sw: "spec_write K False (spi_error (control ?s)) bar off (user_word (umem ?s) buf 0) ?rs ?ds = (e, rs, ds)"
    using assms(5) by (simp add: spi_def user_word_def get_memory_def byte_offset_def)
  have "ensures (mtcaDummy_write_no_struct K (fh_file ?h) buf 4 ?v ?s) (\<lambda>(r, f) t. call_on d ?s t \<and>
      umem t = umem ?s \<and> regs t d = rs \<and> dma t d = ds \<and> (if e = 0 then r = 4 else r < 0 \<or> r = 0))"
  proof (rule ensures_mono [OF mtcaDummy_write_no_struct_refines
        [OF a(1,4,2) quietD(1) [OF assms(1)], of 4 buf ?v]], simp add: MAX_RW_COUNT_def, goal_cases)
    case (1 x t)
    obtain r f where x: "x = (r, f)" by (cases x)
    show ?case
    proof (cases "checkAndCalculateTransferInformation (devs ?s ! d) 4 ?v")
      case (Inl e')
      have "\<not> valid_offset off ws" if "bar_words bar ?rs ?ds = Some ws" for ws
        using check_valid_word [OF a(1,2) that] Inl by fastforce
      then have "e = - EFAULT \<and> rs = ?rs \<and> ds = ?ds"
        using sw spec_write_refused [of bar ?rs ?ds off] by simp
      moreover have "e' < 0" using Inl by (auto simp: check_unfold errno_defs split: option.splits if_splits)
      ultimately show ?thesis using 1 Inl a(9)
        by (simp add: x quietD [OF assms(1)] errno_defs)
    next
      case (Inr ti)
      from check_word [OF a(1,2) assms(4) Inr] obtain ws where ws: "bar_words bar ?rs ?ds = Some ws"
        "ti_bar ti = bar" "first_word ti = REG off" "off mod 4 = 0"
        "n_words ti = (if valid_offset off ws then 1 else 0)" by blast
      from 1 Inr a(9) obtain k where
        o: "write_outcome K d ?s ti buf ?v k r f (regs t d) (dma t d)"
        by (auto simp: x quiet_gate [OF assms(1)])
      note q = quiet_write_outcome [OF assms(1) o, unfolded ws(2,3,5)]
      show ?thesis
      proof (cases "valid_offset off ws")
        case False
        with ws(1) sw spec_write_refused [of bar ?rs ?ds off]
        have "e = - EFAULT \<and> rs = ?rs \<and> ds = ?ds" by simp
        with 1 q False show ?thesis by (simp add: x errno_defs)
      next
        case True
        then have "user_words (umem ?s) buf (if valid_offset off ws then 1 else 0) = [user_word (umem ?s) buf 0]"
          by (simp add: user_words_def)
        with 1 q sw True spec_write_result [OF sw] show ?thesis
          by (auto simp: x spec_writes_word [OF ws(4)] simp del: spec_writes.simps)
      qed
    qed
  qed
  then show ?thesis
    unfolding sys_pwrite_def Let_def op c p if_False
    by (auto simp: call_write_def wp ensures_iff attached_call [OF assms(2)] bars_def result_def split: if_splits)
qed

end
