(* ===== verification/Reader_Writer.thy ===== *)
theory Reader_Writer
  imports Client
begin

text \<open>
  The contract of the class \<open>ReaderWriter\<close>, as a locale over its four virtual functions, and
  the proofs that \<open>StructReaderWriter\<close> and \<open>NormalReaderWriter\<close> keep it: the first one turns
  an area into single words, the second one a single word into an area.
\<close>

section \<open>Regions of user memory\<close>

definition in_region :: "u64 \<Rightarrow> u64 \<times> nat \<Rightarrow> bool" where
  "in_region x r \<longleftrightarrow> unat (x - fst r) < snd r"

definition disjoint :: "u64 \<times> nat \<Rightarrow> u64 \<times> nat \<Rightarrow> bool" where
  "disjoint r r' \<longleftrightarrow> (\<forall>x. in_region x r \<longrightarrow> \<not> in_region x r')"

definition within :: "u64 \<times> nat \<Rightarrow> u64 \<times> nat \<Rightarrow> bool" where
  "within r r' \<longleftrightarrow> (\<forall>x. in_region x r \<longrightarrow> in_region x r')"

lemma disjoint_sym: "disjoint r r' \<Longrightarrow> disjoint r' r"
  by (auto simp: disjoint_def)

lemma disjoint_within: "disjoint r r' \<Longrightarrow> within s r' \<Longrightarrow> disjoint r s"
  by (auto simp: disjoint_def within_def)

lemma within_refl [simp]: "within r r"
  by (simp add: within_def)

lemma kept_region: "kept rs w w' \<longleftrightarrow>
    (\<forall>x. (\<forall>r \<in> set rs. \<not> in_region x r) \<longrightarrow> umem (kern w') x = umem (kern w) x)"
  by (simp add: kept_def in_region_def list_all_iff not_less case_prod_beta)

lemma kept_within: "kept rs w w' \<Longrightarrow> (\<forall>r \<in> set rs. \<exists>s \<in> set rs'. within r s) \<Longrightarrow> kept rs' w w'"
  unfolding kept_region within_def by blast

text \<open>The numeric criterion.\<close>

definition apart :: "u64 \<times> nat \<Rightarrow> u64 \<times> nat \<Rightarrow> bool" where
  "apart r r' \<longleftrightarrow> snd r \<le> unat (fst r' - fst r) \<and> snd r' \<le> unat (fst r - fst r')"

lemma apart_disjoint:
  assumes "apart r r'"
  shows "disjoint r r'"
  unfolding disjoint_def
proof (intro allI impI notI)
  fix x assume x: "in_region x r" "in_region x r'"
  obtain a n b m where r: "r = (a, n)" "r' = (b, m)" by (cases r, cases r')
  have "unat (x - a) < unat (b - a)" using assms x(1) by (simp add: r apart_def in_region_def)
  then have "x - a < b - a" by (simp add: word_less_nat_alt)
  moreover have "unat (x - b) < unat (a - b)" using assms x(2) by (simp add: r apart_def in_region_def)
  then have "x - b < a - b" by (simp add: word_less_nat_alt)
  ultimately show False by uint_arith
qed

lemma in_slice:
  assumes "j + k \<le> 2 ^ 64"
  shows "in_region x (b + of_nat j, k) \<longleftrightarrow> j \<le> unat (x - b) \<and> unat (x - b) < j + k"
proof (cases "k = 0")
  case False
  then have j: "unat (of_nat j :: u64) = j" using assms by (simp add: unat_of_nat)
  have e: "x - (b + of_nat j) = x - b - of_nat j" by simp
  show ?thesis
  proof (cases "j \<le> unat (x - b)")
    case True
    then have "of_nat j \<le> x - b" by (simp add: word_le_nat_alt j)
    then have "unat (x - b - of_nat j) = unat (x - b) - j" by (simp add: unat_sub j)
    with True show ?thesis by (auto simp: in_region_def e)
  next
    case f: False
    then have "x - b < of_nat j" by (simp add: word_less_nat_alt j)
    have "unat (x - b - of_nat j) = unat (x - b) + 2 ^ 64 - j"
      using f j unat_sub_if_size [of "x - b" "of_nat j"] by (simp add: word_size)
    with f assms show ?thesis by (auto simp: in_region_def e)
  qed
qed (simp add: in_region_def)

lemma in_whole: "in_region x (b, m) \<longleftrightarrow> unat (x - b) < m"
  by (simp add: in_region_def)

lemma within_slice: "j + k \<le> m \<Longrightarrow> m \<le> 2 ^ 64 \<Longrightarrow> within (b + of_nat j, k) (b, m)"
  using in_slice [of j k _ b] by (auto simp: within_def in_whole [of _ b])

lemma within_first: "k \<le> m \<Longrightarrow> within (b, k) (b, m)"
  by (simp add: within_def in_whole)

lemma disjoint_slices:
  "j + k \<le> j' \<Longrightarrow> j' + k' \<le> 2 ^ 64 \<Longrightarrow> disjoint (b + of_nat j, k) (b + of_nat j', k')"
  using in_slice [of j k _ b] in_slice [of j' k' _ b] by (auto simp: disjoint_def)

lemma get_kept:
  assumes "kept rs w w'" and "\<And>r. r \<in> set rs \<Longrightarrow> disjoint r (b, m)" and "m \<le> 2 ^ 64"
  shows "get_memory b m w' = get_memory b m w"
proof -
  have "umem (kern w') (b + of_nat i) = umem (kern w) (b + of_nat i)" if "i < m" for i
  proof -
    have "unat (of_nat i :: u64) = i" using that assms(3) by (simp add: unat_of_nat)
    then have "in_region (b + of_nat i) (b, m)" using that by (simp add: in_whole)
    with assms(1,2) show ?thesis unfolding kept_region disjoint_def by blast
  qed
  then show ?thesis by (simp add: get_memory_def umem_read_def)
qed

lemma get_memory_append:
  "get_memory a (j + k) w = get_memory a j w @ get_memory (a + of_nat j) k w"
  by (simp add: get_memory_def umem_read_append)

lemma get_memory_words: "get_memory a (4 * n) w = bytes_of_words (user_words (umem (kern w)) a n)"
  by (simp add: get_memory_def bytes_of_user_words)

lemma put_kept: "length bs \<le> n \<Longrightarrow> kept [(a, n)] w (put_memory a bs w)"
  by (rule kept_put)

section \<open>The contract\<close>

lemma client_wp [simp]:
  "ensures (give x w) Q = Q (Inr x) w"
  "ensures (throw t w) P = P (Inl (DeviceIOException t)) w"
  "ensures (and_then m f w) R =
    ensures (m w) (\<lambda>r w. case r of Inl e \<Rightarrow> R (Inl e) w | Inr x \<Rightarrow> ensures (f x w) R)"
  by (auto simp: give_def throw_def and_then_def wp intro!: arg_cong2 [of _ _ _ _ ensures] split: sum.split)

text \<open>The local variables of the library use at most the 24 bytes of the structure.\<close>

definition stack_of :: "u64 \<Rightarrow> u64 \<times> nat" where
  "stack_of stack = (stack, 24)"

text \<open>A range of words of a bar that has no word that cannot be read.\<close>

definition in_bar :: "u32 \<Rightarrow> u32 \<Rightarrow> nat \<Rightarrow> u32 list \<Rightarrow> u32 list \<Rightarrow> u32 list \<Rightarrow> nat \<Rightarrow> bool" where
  "in_bar bar off n rs ds ws a \<longleftrightarrow>
    bar_words bar rs ds = Some ws \<and> unat off = 4 * a \<and> a + n \<le> length ws"

definition readable :: "u32 \<Rightarrow> nat \<Rightarrow> nat \<Rightarrow> bool" where
  "readable bar a n \<longleftrightarrow> (bar = 0 \<longrightarrow> \<not> (a \<le> 18 \<and> 18 < a + n))"

text \<open>A descriptor of a device that an implementation serves, in a kernel that does not disturb it.\<close>

definition connected :: "(nat \<Rightarrow> bool) \<Rightarrow> kernel \<Rightarrow> nat \<Rightarrow> int \<Rightarrow> world \<Rightarrow> bool" where
  "connected serves K d fd w \<longleftrightarrow> quiet K \<and> serves d \<and> attached K d fd w"

lemma connectedD:
  assumes "connected serves K d fd w"
  shows "quiet K" "serves d" "attached K d fd w" "world_ok K w"
  using assms by (auto simp: connected_def intro: attached_world_ok)

lemma connected_put [simp]: "connected serves K d fd (put_memory a bs w) = connected serves K d fd w"
  by (simp add: connected_def)

lemma connected_served: "connected serves K e fd w \<Longrightarrow> served K d w w' \<Longrightarrow> connected serves K e fd w'"
  using served_attached by (auto simp: connected_def)

text \<open>
  Single words first. A word that the device refuses is an exception, and nothing but the
  stack of the caller has changed.
\<close>

locale word_access =
  fixes make :: "kernel \<Rightarrow> u64 \<Rightarrow> int \<Rightarrow> reader_writer" and serves :: "nat \<Rightarrow> bool"
  assumes single_read:
    "connected serves K d fd w \<Longrightarrow> bars d w = (rs, ds) \<Longrightarrow>
      ensures (readSingle (make K stack fd) off bar w) (\<lambda>r w'.
        served K d w w' \<and> bars d w' = (rs, ds) \<and> kept [stack_of stack] w w' \<and>
        (case spec_read bar off rs ds of Inl _ \<Rightarrow> isl r | Inr v \<Rightarrow> r = Inr v))"
    and single_write:
    "connected serves K d fd w \<Longrightarrow> bars d w = (rs, ds) \<Longrightarrow>
      spec_write K False (spi w) bar off v rs ds = (e, rs', ds') \<Longrightarrow>
      ensures (writeSingle (make K stack fd) off bar v w) (\<lambda>r w'.
        served K d w w' \<and> bars d w' = (rs', ds') \<and> kept [stack_of stack] w w' \<and>
        (if e = 0 then r = Inr () else isl r))"

text \<open>
  Then areas: a read fills the buffer of the caller with the words, a write is the sequence
  of the writes of its words.
\<close>

locale reader_writer_class = word_access +
  assumes area_read:
    "connected serves K d fd w \<Longrightarrow> bars d w = (rs, ds) \<Longrightarrow> in_bar bar off (unat n) rs ds ws a \<Longrightarrow>
      readable bar a (unat n) \<Longrightarrow> disjoint (stack_of stack) (buf, 4 * unat n) \<Longrightarrow>
      ensures (readArea (make K stack fd) off bar n buf w) (\<lambda>r w'.
        served K d w w' \<and> bars d w' = (rs, ds) \<and>
        kept [stack_of stack, (buf, 4 * unat n)] w w' \<and> r = Inr () \<and>
        get_memory buf (4 * unat n) w' = bytes_of_words (take (unat n) (drop a ws)))"
    and area_write:
    "connected serves K d fd w \<Longrightarrow> bars d w = (rs, ds) \<Longrightarrow> in_bar bar off (unat n) rs ds ws a \<Longrightarrow>
      disjoint (stack_of stack) (buf, 4 * unat n) \<Longrightarrow>
      spec_writes K (spi w) bar a (user_words (umem (kern w)) buf (unat n)) rs ds = (e, rs', ds') \<Longrightarrow>
      ensures (writeArea (make K stack fd) off bar n buf w) (\<lambda>r w'.
        served K d w w' \<and> bars d w' = (rs', ds') \<and> kept [stack_of stack] w w' \<and>
        (if e = 0 then r = Inr () else isl r))"

section \<open>Single words with a structure\<close>

lemma bars_eq: "bars d w = (rs, ds) \<longleftrightarrow> regs (kern w) d = rs \<and> dma (kern w) d = ds"
  by (auto simp: bars_def)

lemma kept_write:
  assumes "umem (kern w') = umem_write (umem (kern w)) a bs" and "length bs \<le> n"
  shows "kept [(a, n)] w w'"
  using outside_kept_write [of 0 bs n a "umem (kern w)"] assms by (simp add: kept_one)

lemma kept_same: "umem (kern w') = umem (kern w) \<Longrightarrow> kept rs w w'"
  by (simp add: kept_def)

lemma struct_readSingle_word:
  assumes "quiet K" and "attached K d fd w" and "d < 5" and "bars d w = (rs, ds)"
  shows "ensures (struct_readSingle K stack fd off bar w) (\<lambda>r w'.
    served K d w w' \<and> bars d w' = (rs, ds) \<and> kept [stack_of stack] w w' \<and>
    (case spec_read bar off rs ds of Inl _ \<Rightarrow> isl r | Inr v \<Rightarrow> r = Inr v))"
proof -
  let ?req = "\<lparr>offset_rw = off, data_rw = 0, mode_rw = RW_D32, barx_rw = bar, size_rw = 0, rsrvd_rw = 0\<rparr>"
  let ?w = "put_memory stack (encode_device_rw ?req) w"
  have req: "?req = decode_device_rw (get_memory stack sizeof_device_rw ?w)"
    by (simp add: sizeof_device_rw_def)
  have k: "kept [stack_of stack] w ?w"
    unfolding stack_of_def by (rule put_kept) (simp add: sizeof_device_rw_def)
  have "attached K d fd ?w" using assms(2) by simp
  note call = sys_read_word [OF assms(1) this assms(3) req]
  have after: "kept [stack_of stack] w w'" if "kept [stack_of stack] ?w w'" for w'
    using k that by (rule kept_trans)
  have all: "kept [stack_of stack] ?w w'"
    if "umem (kern w') = umem_write (umem (kern ?w)) stack (encode_device_rw r)" for w' r
    unfolding stack_of_def by (rule kept_write [OF that]) (simp add: sizeof_device_rw_def)
  have got: "get_memory stack sizeof_device_rw w' = encode_device_rw r"
    if "umem (kern w') = umem_write m stack (encode_device_rw r)" for w' m r
    using umem_read_write [of "encode_device_rw r" m stack] by (simp add: get_memory_def that sizeof_device_rw_def)
  show ?thesis
    unfolding struct_readSingle_def Let_def ensures_bind
  proof (rule ensures_mono [OF call], simp, goal_cases)
    case (1 r w')
    then show ?case
      using assms(4) after [of w'] kept_same [of w' ?w] all [of w'] got [of w' "umem (kern ?w)"]
      by (cases "spec_read bar off rs ds") (auto simp: wp bars_eq sizeof_device_rw_def)
  qed
qed

lemma struct_writeSingle_word:
  assumes "quiet K" and "attached K d fd w" and "d < 5" and "bars d w = (rs, ds)"
    and "spec_write K False (spi w) bar off v rs ds = (e, rs', ds')"
  shows "ensures (struct_writeSingle K stack fd off bar v w) (\<lambda>r w'.
    served K d w w' \<and> bars d w' = (rs', ds') \<and> kept [stack_of stack] w w' \<and>
    (if e = 0 then r = Inr () else isl r))"
proof -
  let ?req = "\<lparr>offset_rw = off, data_rw = v, mode_rw = RW_D32, barx_rw = bar, size_rw = 0, rsrvd_rw = 0\<rparr>"
  let ?w = "put_memory stack (encode_device_rw ?req) w"
  have req: "?req = decode_device_rw (get_memory stack sizeof_device_rw ?w)"
    by (simp add: sizeof_device_rw_def)
  have k: "kept [stack_of stack] w ?w"
    unfolding stack_of_def by (rule put_kept) (simp add: sizeof_device_rw_def)
  have "attached K d fd ?w" using assms(2) by simp
  note call = sys_write_word [OF assms(1) this assms(3) req]
  have sw: "spec_write K False (spi ?w) bar off v (regs (kern ?w) d) (dma (kern ?w) d) = (e, rs', ds')"
    using assms(4,5) by (simp add: bars_eq)
  show ?thesis
    unfolding struct_writeSingle_def Let_def ensures_bind
    by (rule ensures_mono [OF call])
      (use sw k in \<open>auto simp: wp sizeof_device_rw_def intro: kept_trans [OF _ kept_same]\<close>)
qed

section \<open>Single words by position\<close>

lemma stack_word: "within (stack, 4) (stack_of stack)"
  unfolding stack_of_def by (rule within_first) simp

lemma transferred:
  "r = - 1 \<or> r = 0 \<Longrightarrow> (of_int r :: u64) \<noteq> 4"
  "r = - 1 \<or> r = 0 \<Longrightarrow> (of_int (signed_take_bit 31 r) :: u64) \<noteq> 4"
  by auto

lemma normal_readSingle_run:
  assumes "bar \<le> 5"
  shows "ensures (normal_readSingle K stack fd off bar w) Q =
    ensures (sys_pread K fd stack 4 (position bar off) w) (\<lambda>r w'.
      if (of_int r :: u64) \<noteq> 4 then Q (Inl (DeviceIOException ''Error reading from device'')) w'
      else Q (Inr (le32 (get_memory stack 4 w'))) w')"
  using position_of_class(1) [OF assms, of off] assms [THEN leD]
  by (simp add: normal_readSingle_def normal_readArea_def wp if_distrib [of "\<lambda>m. ensures m _"] cong: if_cong)

lemma normal_writeSingle_run:
  assumes "bar \<le> 5"
  shows "ensures (normal_writeSingle K stack fd off bar v w) Q =
    ensures (sys_pwrite K fd stack 4 (position bar off) (put_memory stack (bytes_of v) w)) (\<lambda>r w'.
      if (of_int (signed_take_bit 31 r) :: u64) \<noteq> 4
      then Q (Inl (DeviceIOException ''Error writing to device'')) w' else Q (Inr ()) w')"
  using position_of_class(1) [OF assms, of off] assms [THEN leD]
  by (simp add: normal_writeSingle_def normal_writeArea_def wp if_distrib [of "\<lambda>m. ensures m _"] cong: if_cong)

lemma normal_readSingle_word:
  assumes "quiet K" and "attached K d fd w" and "d = 6" and "bars d w = (rs, ds)"
  shows "ensures (normal_readSingle K stack fd off bar w) (\<lambda>r w'.
    served K d w w' \<and> bars d w' = (rs, ds) \<and> kept [stack_of stack] w w' \<and>
    (case spec_read bar off rs ds of Inl _ \<Rightarrow> isl r | Inr v \<Rightarrow> r = Inr v))"
proof (cases "bar \<le> 5")
  case True
  have st: "kept [stack_of stack] w w'" if "kept [(stack, 4)] w w'" for w'
    by (rule kept_within [OF that]) (simp add: stack_word)
  show ?thesis
    unfolding normal_readSingle_run [OF True]
  proof (rule ensures_mono [OF sys_pread_word [OF assms(1-3) True, of stack off]], goal_cases)
    case (1 r w')
    then show ?case
      using assms(4) st [of w'] transferred(1) [of r]
      by (cases "spec_read bar off rs ds") (auto simp: bars_eq)
  qed
next
  case False
  then have "spec_read bar off rs ds = Inl (- EFAULT)"
    by (intro spec_read_refused) (auto simp: bar_words_def split: if_splits)
  with False assms(2,4) show ?thesis
    by (simp add: normal_readSingle_def normal_readArea_def attached_world_ok not_le)
qed

lemma normal_writeSingle_word:
  assumes "quiet K" and "attached K d fd w" and "d = 6" and "bars d w = (rs, ds)"
    and "spec_write K False (spi w) bar off v rs ds = (e, rs', ds')"
  shows "ensures (normal_writeSingle K stack fd off bar v w) (\<lambda>r w'.
    served K d w w' \<and> bars d w' = (rs', ds') \<and> kept [stack_of stack] w w' \<and>
    (if e = 0 then r = Inr () else isl r))"
proof -
  let ?w = "put_memory stack (bytes_of v) w"
  have k: "kept [stack_of stack] w ?w" unfolding stack_of_def by (rule put_kept) simp
  have w: "attached K d fd ?w" using assms(2) by simp
  have v: "le32 (get_memory stack 4 ?w) = v" by simp
  have sw: "spec_write K False (spi ?w) bar off (le32 (get_memory stack 4 ?w)) (regs (kern ?w) d)
      (dma (kern ?w) d) = (e, rs', ds')"
    using assms(4,5) v by (simp add: bars_eq)
  show ?thesis
  proof (cases "bar \<le> 5")
    case True
    show ?thesis
      unfolding normal_writeSingle_run [OF True]
    proof (rule ensures_mono [OF sys_pwrite_word [OF assms(1) w assms(3) True sw]], goal_cases)
      case (1 r w')
      then show ?case
        using k kept_trans [OF k kept_same [of w' ?w]] transferred(2) [of r] by auto
    qed
  next
    case False
    then have "spec_write K False (spi w) bar off v rs ds = (- EFAULT, rs, ds)"
      by (intro spec_write_refused) (auto simp: bar_words_def split: if_splits)
    with False assms(2,4,5) k show ?thesis
      by (auto simp: normal_writeSingle_def normal_writeArea_def attached_world_ok errno_defs not_le)
  qed
qed

section \<open>Areas as sequences of words\<close>

lemma word_in_area:
  fixes off :: u32
  assumes "unat off = 4 * a" and "a + i < length ws" and "length ws \<le> DMA_WORDS"
  shows "valid_offset (off + of_nat i * 4) ws" and "REG (off + of_nat i * 4) = a + i"
    and "off + of_nat i * 4 = of_nat (4 * (a + i))"
proof -
  have eq: "off + of_nat i * 4 = of_nat (4 * (a + i))"
    unfolding ring_distribs of_nat_add assms(1) [symmetric] by simp
  have u: "unat (off + of_nat i * 4) = 4 * (a + i)"
    unfolding eq using assms by (simp add: unat_of_nat size_defs del: of_nat_mult of_nat_add)
  show "REG (off + of_nat i * 4) = a + i" unfolding REG_def unat_div u by simp
  have "unat ((off + of_nat i * 4) mod 4) = 0" unfolding unat_mod u by simp
  then have "(off + of_nat i * 4) mod 4 = 0" by (rule unat_eq_zero [THEN iffD1])
  with u assms(2) show "valid_offset (off + of_nat i * 4) ws" by (simp add: valid_offset_def)
  show "off + of_nat i * 4 = of_nat (4 * (a + i))" by (rule eq)
qed

lemma spec_read_area:
  assumes "bar_words bar rs ds = Some ws" and "unat off = 4 * a" and "a + i < length ws"
    and "length ws \<le> DMA_WORDS" and "readable bar (a + i) 1"
  shows "spec_read bar (off + of_nat i * 4) rs ds = Inr (ws ! (a + i))"
proof -
  note v = word_in_area [OF assms(2-4)]
  have "off + of_nat i * 4 \<noteq> MTCADUMMY_BROKEN_REGISTER" if "bar = 0"
  proof
    assume "off + of_nat i * 4 = MTCADUMMY_BROKEN_REGISTER"
    then have "a + i = 18" using v(2) by (metis REG_simps(14))
    with assms(5) that show False by (simp add: readable_def)
  qed
  with assms(1) v(1,2) show ?thesis by (simp add: spec_read_def)
qed

lemma bars_length:
  assumes "attached K d fd w" and "bars d w = (rs, ds)" and "bar_words bar rs ds = Some ws"
  shows "length ws \<le> DMA_WORDS"
  using assms(2,3) attachedD(10,11) [OF assms(1)]
  by (auto simp: bars_eq bar_words_def size_defs split: if_splits)

lemma readable_part: "readable bar a (Suc n) \<Longrightarrow> readable bar a 1 \<and> readable bar (Suc a) n"
  by (auto simp: readable_def)

text \<open>The slice of the first word of a buffer, and the rest of it.\<close>

lemma first_slice: "within (b, 4) (b, 4 * Suc n)"
  by (rule within_first) simp

lemma later_slice: "4 * Suc n \<le> 2 ^ 64 \<Longrightarrow> within (b + 4, 4 * n) (b, 4 * Suc n)"
  using within_slice [of 4 "4 * n" "4 * Suc n" b] by simp

lemma slices_disjoint: "4 * Suc n \<le> 2 ^ 64 \<Longrightarrow> disjoint (b, 4) (b + 4, 4 * n)"
  using disjoint_slices [of 0 4 4 "4 * n" b] by simp

lemma next_word: "b + of_nat (4 * Suc i) = b + of_nat (4 * i) + (4 :: u64)"
  by simp

context word_access
begin

lemma read_loop_words:
  assumes "bar_words bar rs ds = Some ws" and "unat off = 4 * a" and "length ws \<le> DMA_WORDS"
  shows "connected serves K d fd w \<Longrightarrow> bars d w = (rs, ds) \<Longrightarrow> a + i + n \<le> length ws \<Longrightarrow>
    readable bar (a + i) n \<Longrightarrow> disjoint (stack_of stack) (buf + of_nat (4 * i), 4 * n) \<Longrightarrow>
    ensures (client_loop (\<lambda>i. and_then (readSingle (make K stack fd) (off + of_nat i * 4) bar)
        (\<lambda>v w. give () (put_memory (buf + of_nat (4 * i)) (bytes_of v) w))) i n w) (\<lambda>r w'.
      served K d w w' \<and> bars d w' = (rs, ds) \<and>
      kept [stack_of stack, (buf + of_nat (4 * i), 4 * n)] w w' \<and> r = Inr () \<and>
      get_memory (buf + of_nat (4 * i)) (4 * n) w' = bytes_of_words (take n (drop (a + i) ws)))"
proof (induction n arbitrary: i w)
  case 0
  then show ?case by (simp add: connectedD get_memory_def umem_read_def)
next
  case (Suc n)
  let ?b = "buf + of_nat (4 * i) :: u64"
  have lt: "a + i < length ws" and small: "4 * Suc n \<le> 2 ^ 64"
    using Suc.prems(3) assms(3) by (simp_all add: size_defs)
  note rd = readable_part [OF Suc.prems(4)]
  have v: "spec_read bar (off + of_nat i * 4) rs ds = Inr (ws ! (a + i))"
    using spec_read_area [OF assms(1,2) lt assms(3)] rd by simp
  note dj = disjoint_within [OF Suc.prems(5)]
  show ?case
    unfolding client_loop.simps client_wp
  proof (rule ensures_mono [OF single_read [OF Suc.prems(1,2), where off = "off + of_nat i * 4" and bar = bar]], goal_cases)
    case (1 r u)
    let ?u = "put_memory ?b (bytes_of (ws ! (a + i))) u"
    have r: "r = Inr (ws ! (a + i))" and u: "served K d w u" "bars d u = (rs, ds)" "kept [stack_of stack] w u"
      using 1 v by auto
    have att: "connected serves K d fd ?u" using connected_served [OF Suc.prems(1) u(1)] by simp
    have "kept [stack_of stack, (?b, 4 * Suc n)] w u"
      by (rule kept_within [OF u(3)]) simp
    moreover have "kept [stack_of stack, (?b, 4 * Suc n)] u ?u"
      by (rule kept_more [OF put_kept [where n = "4 * Suc n"]]) auto
    ultimately have ku: "kept [stack_of stack, (?b, 4 * Suc n)] w ?u" by (rule kept_trans)
    have dj': "disjoint (stack_of stack) (buf + of_nat (4 * Suc i), 4 * n)"
      unfolding next_word by (rule dj [OF later_slice [OF small]])
    have first: "get_memory ?b 4 ?u = bytes_of (ws ! (a + i))" by simp
    have "ensures (client_loop (\<lambda>i. and_then (readSingle (make K stack fd) (off + of_nat i * 4) bar)
        (\<lambda>v w. give () (put_memory (buf + of_nat (4 * i)) (bytes_of v) w))) (Suc i) n ?u) (\<lambda>r w'.
      served K d ?u w' \<and> bars d w' = (rs, ds) \<and>
      kept [stack_of stack, (buf + of_nat (4 * Suc i), 4 * n)] ?u w' \<and> r = Inr () \<and>
      get_memory (buf + of_nat (4 * Suc i)) (4 * n) w' = bytes_of_words (take n (drop (a + Suc i) ws)))"
      by (rule Suc.IH) (use att u rd dj' Suc.prems(3) in simp_all)
    then show ?case
      unfolding r sum.case client_wp
    proof (rule ensures_mono, goal_cases)
      case (1 x w')
      then have k: "kept [stack_of stack, (?b + 4, 4 * n)] ?u w'" by (simp only: next_word)
      have "kept [stack_of stack, (?b, 4 * Suc n)] ?u w'"
        by (rule kept_within [OF k]) (use later_slice [OF small, of ?b] in auto)
      with ku have kept: "kept [stack_of stack, (?b, 4 * Suc n)] w w'" by (rule kept_trans)
      have "get_memory ?b 4 w' = get_memory ?b 4 ?u"
        by (rule get_kept [OF k])
          (use dj [OF first_slice] slices_disjoint [OF small, of ?b] in \<open>auto intro: disjoint_sym\<close>)
      then have "get_memory ?b (4 + 4 * n) w' =
          bytes_of (ws ! (a + i)) @ bytes_of_words (take n (drop (a + Suc i) ws))"
        using 1 unfolding get_memory_append next_word first by simp
      moreover have "take (Suc n) (drop (a + i) ws) = ws ! (a + i) # take n (drop (a + Suc i) ws)"
        using lt by (simp add: Cons_nth_drop_Suc [symmetric])
      moreover have "served K d w w'" using served_trans [OF u(1), of w'] 1 by simp
      ultimately show ?case using 1 kept by simp
    qed
  qed
qed

end

lemma area_address:
  fixes off :: u32
  assumes "unat off = 4 * a"
  shows "off + of_nat i * 4 = of_nat (4 * (a + i))"
proof -
  have "off = of_nat (4 * a)" unfolding assms [symmetric] by simp
  then show ?thesis by simp
qed

lemma user_words_Cons:
  "user_words m b (Suc n) = le32 (umem_read m b 4) # user_words m (b + 4) n"
proof -
  have "user_word m b (Suc i) = user_word m (b + 4) i" for i
    by (simp add: user_word_def byte_offset_Suc add.commute add.left_commute)
  moreover have "user_word m b 0 = le32 (umem_read m b 4)"
    by (simp add: user_word_def byte_offset_def)
  moreover have "[0..<Suc n] = 0 # map Suc [0..<n]" by (simp add: map_Suc_upt upt_conv_Cons del: upt_Suc)
  ultimately show ?thesis by (simp add: user_words_def comp_def del: upt_Suc)
qed

lemma bytes_of_words_eq: "bytes_of_words vs = bytes_of_words ws \<longleftrightarrow> vs = ws"
proof
  assume eq: "bytes_of_words vs = bytes_of_words ws"
  have "length vs = length ws" using arg_cong [OF eq, of length] by simp
  then show "vs = ws" using eq by (induction vs ws rule: list_induct2) simp_all
qed simp

lemma user_words_kept:
  assumes "kept [r] w w'" and "disjoint r (b, 4 * n)" and "4 * n \<le> 2 ^ 64"
  shows "user_words (umem (kern w')) b n = user_words (umem (kern w)) b n"
proof -
  have "get_memory b (4 * n) w' = get_memory b (4 * n) w"
    by (rule get_kept [OF assms(1) _ assms(3)]) (use assms(2) in simp)
  then have "bytes_of_words (user_words (umem (kern w')) b n) = bytes_of_words (user_words (umem (kern w)) b n)"
    by (simp only: get_memory_words)
  then show ?thesis by (simp add: bytes_of_words_eq)
qed

context word_access
begin

lemma write_loop_words:
  assumes "unat off = 4 * a"
  shows "connected serves K d fd w \<Longrightarrow> bars d w = (rs, ds) \<Longrightarrow> 4 * n \<le> 2 ^ 64 \<Longrightarrow>
    disjoint (stack_of stack) (buf + of_nat (4 * i), 4 * n) \<Longrightarrow>
    spec_writes K (spi w) bar (a + i) (user_words (umem (kern w)) (buf + of_nat (4 * i)) n) rs ds =
      (e, rs', ds') \<Longrightarrow>
    ensures (client_loop (\<lambda>i w. writeSingle (make K stack fd) (off + of_nat i * 4) bar
        (le32 (get_memory (buf + of_nat (4 * i)) 4 w)) w) i n w) (\<lambda>r w'.
      served K d w w' \<and> bars d w' = (rs', ds') \<and> kept [stack_of stack] w w' \<and>
      (if e = 0 then r = Inr () else isl r))"
proof (induction n arbitrary: i w rs ds)
  case 0
  then show ?case by (simp add: connectedD)
next
  case (Suc n)
  let ?b = "buf + of_nat (4 * i) :: u64" and ?v = "le32 (get_memory (buf + of_nat (4 * i)) 4 w)"
  obtain e1 rs1 ds1 where one:
    "spec_write K False (spi w) bar (off + of_nat i * 4) ?v rs ds = (e1, rs1, ds1)"
    by (metis prod_cases3)
  have rest: "if e1 \<noteq> 0 then (e, rs', ds') = (e1, rs1, ds1)
      else spec_writes K (spi w) bar (a + Suc i) (user_words (umem (kern w)) (?b + 4) n) rs1 ds1 = (e, rs', ds')"
    using Suc.prems(5) one unfolding user_words_Cons spec_writes.simps area_address [OF assms]
    by (auto simp: get_memory_def split: if_splits)
  have dj: "disjoint (stack_of stack) (?b + 4, 4 * n)"
    by (rule disjoint_within [OF Suc.prems(4) later_slice [OF Suc.prems(3)]])
  show ?case
    unfolding client_loop.simps client_wp
  proof (rule ensures_mono [OF single_write [OF Suc.prems(1,2) one]], goal_cases)
    case (1 r u)
    show ?case
    proof (cases "e1 = 0")
      case False
      with 1 rest show ?thesis by (auto split: sum.split)
    next
      case True
      with 1 have u: "served K d w u" "bars d u = (rs1, ds1)" "kept [stack_of stack] w u" and r: "r = Inr ()"
        by simp_all
      have "user_words (umem (kern u)) (?b + 4) n = user_words (umem (kern w)) (?b + 4) n"
        by (rule user_words_kept [OF u(3) dj]) (use Suc.prems(3) in simp)
      then have sw: "spec_writes K (spi u) bar (a + Suc i) (user_words (umem (kern u)) (buf + of_nat (4 * Suc i)) n)
          rs1 ds1 = (e, rs', ds')"
        using rest True unfolding next_word by (simp add: served_spi [OF u(1)])
      have n: "4 * n \<le> 2 ^ 64" using Suc.prems(3) by simp
      show ?thesis
        unfolding r sum.case
        by (rule ensures_mono [OF Suc.IH [OF connected_served [OF Suc.prems(1) u(1)] u(2) n _ sw]])
          (use dj u in \<open>auto simp only: next_word intro: served_trans kept_trans\<close>)
    qed
  qed
qed

end

section \<open>The two implementations keep the contract\<close>

interpretation struct_words: word_access StructReaderWriter "\<lambda>d. d < 5"
proof (standard, goal_cases)
  case 1
  then show ?case by (simp add: StructReaderWriter_def connected_def struct_readSingle_word)
next
  case 2
  then show ?case by (simp add: StructReaderWriter_def connected_def struct_writeSingle_word)
qed

interpretation normal_words: word_access NormalReaderWriter "\<lambda>d. d = 6"
proof (standard, goal_cases)
  case 1
  then show ?case unfolding NormalReaderWriter_def reader_writer.simps connected_def
    by (intro normal_readSingle_word) auto
next
  case 2
  then show ?case unfolding NormalReaderWriter_def reader_writer.simps connected_def
    by (intro normal_writeSingle_word) auto
qed

lemma in_bar_small:
  assumes "attached K d fd w" and "bars d w = (rs, ds)" and "in_bar bar off n rs ds ws a"
  shows "length ws \<le> DMA_WORDS" and "n \<le> DMA_WORDS" and "bar_words bar rs ds = Some ws"
    and "unat off = 4 * a" and "a + n \<le> length ws"
proof -
  show b: "bar_words bar rs ds = Some ws" "unat off = 4 * a" "a + n \<le> length ws"
    using assms(3) by (simp_all add: in_bar_def)
  show "length ws \<le> DMA_WORDS" by (rule bars_length [OF assms(1,2) b(1)])
  with b(3) show "n \<le> DMA_WORDS" by simp
qed

lemma area_covered:
  fixes n :: u32
  assumes "attached K d fd w" and "bars d w = (rs, ds)" and "in_bar bar off (unat n) rs ds ws a"
  shows "bar \<le> 5" and "unat (ucast n * 4 :: u64) = 4 * unat n"
    and "covers (kern w) d (position bar off) (ucast n * 4) ws a (unat n)"
proof -
  note b = in_bar_small [OF assms]
  show five: "bar \<le> 5" using b(3) by (auto simp: bar_words_def split: if_splits)
  have "unat (ucast n * 4 :: u64) = (unat n * 4) mod 2 ^ 64"
    by (simp only: unat_word_ariths ucast_off) simp
  then show u: "unat (ucast n * 4 :: u64) = 4 * unat n" using b(2) by (simp add: size_defs)
  have "unat (ucast n * 4 mod 4 :: u64) = 0" unfolding unat_mod u by simp
  then have m: "ucast n * 4 mod 4 = (0 :: u64)" by (rule unat_eq_zero [THEN iffD1])
  have "unat (off mod 4) = 0" unfolding unat_mod b(4) by simp
  then have "off mod 4 = 0" by (rule unat_eq_zero [THEN iffD1])
  note al = position_aligned [OF this, of bar]
  show "covers (kern w) d (position bar off) (ucast n * 4) ws a (unat n)"
    using b m al u assms(2) position_of_class(3,4) [OF five, of off]
    by (simp add: covers_def bars_eq ucast_off MAX_RW_COUNT_def size_defs)
qed

lemma small_count:
  fixes n :: u32
  assumes "unat n \<le> DMA_WORDS"
  shows "(of_int (int (4 * unat n)) :: u64) = ucast n * 4"
    and "signed_take_bit 31 (int (4 * unat n)) = int (4 * unat n)"
    and "signed_take_bit 31 (4 * uint n) = 4 * uint n" and "ucast n * 4 \<noteq> (- 1 :: u64)"
proof -
  have "(of_nat (unat n) :: u64) = ucast n" by (rule word_unat_eq_iff [THEN iffD2]) (use assms in \<open>simp add: ucast_off unat_of_nat size_defs\<close>)
  then show "(of_int (int (4 * unat n)) :: u64) = ucast n * 4" by simp
  have "uint n = int (unat n)" by simp
  then have "uint n \<le> 1024" "- 536870912 \<le> uint n" using assms by (simp_all only: size_defs)
  then show "signed_take_bit 31 (int (4 * unat n)) = int (4 * unat n)"
    by (simp add: signed_take_bit_int_eq_self_iff)
  then show "signed_take_bit 31 (4 * uint n) = 4 * uint n" by simp
  have "unat (ucast n * 4 :: u64) = (unat n * 4) mod 2 ^ 64"
    by (simp only: unat_word_ariths ucast_off) simp
  then have "unat (ucast n * 4 :: u64) \<le> 4096" using assms by (simp add: size_defs)
  moreover have "unat (- 1 :: u64) = mask 64" by (simp add: unsigned_minus_1_eq_mask)
  then have "\<not> unat (- 1 :: u64) \<le> 4096" by (simp only: mask_eq_exp_minus_1) simp
  ultimately show "ucast n * 4 \<noteq> (- 1 :: u64)" by metis
qed

lemma spec_writes_result:
  "spec_writes K spiFail bar a vs rs ds = (e, rs', ds') \<Longrightarrow> e = 0 \<or> e < 0"
  by (induction vs arbitrary: a rs ds) (auto split: prod.splits if_splits dest: spec_write_result)

interpretation struct_class: reader_writer_class StructReaderWriter "\<lambda>d. d < 5"
proof (standard, goal_cases)
  case (1 K d fd w rs ds bar off n ws a stack buf)
  note b = in_bar_small [OF connectedD(3) [OF 1(1)] 1(2,3)]
  from struct_words.read_loop_words [OF b(3,4,1) 1(1,2), of 0 "unat n" stack buf] 1(4,5) b(5)
  show ?case by (simp add: StructReaderWriter_def struct_readArea_def)
next
  case (2 K d fd w rs ds bar off n ws a stack buf e rs' ds')
  note b = in_bar_small [OF connectedD(3) [OF 2(1)] 2(2,3)]
  have "4 * unat n \<le> 2 ^ 64" using b(2) by (simp add: size_defs)
  from struct_words.write_loop_words [OF b(4) 2(1,2) this, of stack buf 0 bar e rs' ds'] 2(4,5)
  show ?case by (simp add: StructReaderWriter_def struct_writeArea_def)
qed

interpretation normal_class: reader_writer_class NormalReaderWriter "\<lambda>d. d = 6"
proof (standard, goal_cases)
  case (1 K d fd w rs ds bar off n ws a stack buf)
  note c = connectedD [OF 1(1)] and b = in_bar_small [OF connectedD(3) [OF 1(1)] 1(2,3)]
  note cov = area_covered [OF c(3) 1(2,3)] and p = position_of_class [OF area_covered(1) [OF c(3) 1(2,3)], of off]
  have "position_bar (position bar off) = 0 \<longrightarrow> \<not> (a \<le> 18 \<and> 18 < a + unat n)"
    using 1(4) by (simp add: p readable_def)
  note call = sys_pread_words [OF c(1,3) _ p(2) cov(3) this]
  have k: "kept [stack_of stack, (buf, 4 * unat n)] w w'" if "kept [(buf, 4 * unat n)] w w'" for w'
    by (rule kept_more [OF that]) simp
  show ?case
    using cov(1) 1(2) c(2) k
    by (auto simp: NormalReaderWriter_def normal_readArea_def Let_def p(1) wp small_count [OF b(2)]
        intro!: ensures_mono [OF call])
next
  case (2 K d fd w rs ds bar off n ws a stack buf e rs' ds')
  note c = connectedD [OF 2(1)] and b = in_bar_small [OF connectedD(3) [OF 2(1)] 2(2,3)]
  note cov = area_covered [OF c(3) 2(2,3)] and p = position_of_class [OF area_covered(1) [OF c(3) 2(2,3)], of off]
  have sw: "spec_writes K (spi w) (position_bar (position bar off)) a
      (user_words (umem (kern w)) buf (unat n)) (regs (kern w) d) (dma (kern w) d) = (e, rs', ds')"
    using 2(2,5) by (simp add: p bars_eq)
  note call = sys_pwrite_words [OF c(1,3) _ p(2) cov(3) sw]
  show ?case
    using cov(1) c(2) kept_same [of _ w] spec_writes_result [OF 2(5)] small_count(4) [OF b(2), symmetric]
    by (auto simp: result_def NormalReaderWriter_def normal_writeArea_def Let_def p(1) wp small_count [OF b(2)]
        intro!: ensures_mono [OF call])
qed

end
