(* ===== verification/Client_Tests.thy ===== *)
theory Client_Tests
  imports Reader_Writer
begin

text \<open>
  The test program \<open>testMtcaDummy.cpp\<close>, over the interface of the class \<open>ReaderWriter\<close>. A test
  case gives the number of its checks that failed, or the exception it ends with. The vectors
  of the program are arrays in user memory, at addresses that are parameters of the model.
\<close>

section \<open>Checks\<close>

definition failed :: "bool list \<Rightarrow> nat" where
  "failed checks = length (filter Not checks)"

text \<open>\<open>BOOST_CHECK_THROW\<close> and \<open>BOOST_CHECK_NO_THROW\<close>, as the number of failed checks\<close>

definition check_throws :: "'a client \<Rightarrow> nat client" where
  "check_throws m w = do { (r, w) \<leftarrow> m w; Some (Inr (if isl r then 0 else 1), w) }"

definition check_no_throw :: "'a client \<Rightarrow> nat client" where
  "check_no_throw m w = do { (r, w) \<leftarrow> m w; Some (Inr (if isl r then 1 else 0), w) }"

section \<open>The class \<open>MtcaDummyTest\<close>\<close>

definition N_WORDS_DMA :: nat where
  "N_WORDS_DMA = MTCADUMMY_DMA_SIZE div 4"

definition put_vector :: "u64 \<Rightarrow> u32 list \<Rightarrow> world \<Rightarrow> world" where
  "put_vector a ws = put_memory a (bytes_of_words ws)"

definition vector_at :: "u64 \<Rightarrow> nat \<Rightarrow> world \<Rightarrow> u32 list" where
  "vector_at a n w = user_words (umem (kern w)) a n"

text \<open>
  The object, with the address of its vector; the other two addresses are those of the
  vectors that the test cases allocate.
\<close>

record MtcaDummyTest =
  readerWriter :: reader_writer
  bufferA :: "u32 list"
  bufferHelix :: u64
  readBuffer :: u64
  expectedBuffer :: u64

definition square :: "nat \<Rightarrow> u32" where
  "square i = of_nat i * of_nat i"

definition helix_words :: "u32 list" where
  "helix_words = fold (\<lambda>i ws. ws[i := square i]) [0..<25] (replicate N_WORDS_DMA 0)"

definition MtcaDummyTest_new ::
    "reader_writer \<Rightarrow> u64 \<Rightarrow> u64 \<Rightarrow> u64 \<Rightarrow> MtcaDummyTest client" where
  "MtcaDummyTest_new rw helix buffer expected w =
    and_then (writeArea rw 0 2 (of_nat N_WORDS_DMA) helix)
      (\<lambda>_. give \<lparr>readerWriter = rw, bufferA = replicate N_WORDS_DMA 0xAAAAAAAA, bufferHelix = helix,
        readBuffer = buffer, expectedBuffer = expected\<rparr>)
      (put_vector helix helix_words w)"

definition testReadSingle :: "MtcaDummyTest \<Rightarrow> nat client" where
  "testReadSingle T =
    and_then (readSingle (readerWriter T) MTCADUMMY_WORD_DUMMY 0) (\<lambda>v.
    and_then (readSingle (readerWriter T) (8 * 4) 2) (\<lambda>u.
    give (failed [v = MTCADUMMY_DMMY_AS_ASCII, u = 8 * 8])))"

definition testReadSingleWithError :: "MtcaDummyTest \<Rightarrow> nat client" where
  "testReadSingleWithError T =
    and_then (check_throws (readSingle (readerWriter T) MTCADUMMY_BROKEN_REGISTER 0)) (\<lambda>m.
    and_then (check_no_throw (readSingle (readerWriter T) MTCADUMMY_BROKEN_WRITE 0)) (\<lambda>n.
    give (m + n)))"

definition testWriteSingle :: "MtcaDummyTest \<Rightarrow> nat client" where
  "testWriteSingle T =
    and_then (readSingle (readerWriter T) MTCADUMMY_WORD_USER 0) (\<lambda>wordUser.
    and_then (writeSingle (readerWriter T) MTCADUMMY_WORD_USER 0 (wordUser + 1)) (\<lambda>_.
    and_then (readSingle (readerWriter T) MTCADUMMY_WORD_USER 0) (\<lambda>v.
    and_then (readSingle (readerWriter T) 0x20 2) (\<lambda>wordFromBar2.
    and_then (writeSingle (readerWriter T) 0x20 2 (wordFromBar2 + 1)) (\<lambda>_.
    and_then (readSingle (readerWriter T) 0x20 2) (\<lambda>u.
    give (failed [v = wordUser + 1, u = wordFromBar2 + 1])))))))"

definition testWriteSingleWithError :: "MtcaDummyTest \<Rightarrow> nat client" where
  "testWriteSingleWithError T =
    and_then (check_throws (writeSingle (readerWriter T) MTCADUMMY_BROKEN_REGISTER 0 42)) (\<lambda>m.
    and_then (check_throws (writeSingle (readerWriter T) MTCADUMMY_BROKEN_WRITE 0 42)) (\<lambda>n.
    give (m + n)))"

text \<open>\<open>startIndex\<close> is 13 and \<open>nWordsToRead\<close> is 5.\<close>

definition testReadArea :: "MtcaDummyTest \<Rightarrow> nat client" where
  "testReadArea T w =
    and_then (readArea (readerWriter T) (13 * 4) 2 5 (readBuffer T + of_nat (4 * 13)))
      (\<lambda>_ w. let read = vector_at (readBuffer T) N_WORDS_DMA w in
        give (failed
          (map (\<lambda>i. read ! i = 0xB0B0B0B0) [0..<13] @
           map (\<lambda>i. read ! i = square i) [13..<13 + 5] @
           map (\<lambda>i. read ! i = 0xB0B0B0B0) [13 + 5..<N_WORDS_DMA])) w)
      (put_vector (readBuffer T) (replicate N_WORDS_DMA 0xB0B0B0B0) w)"

text \<open>\<open>startIndex\<close> is 100 and \<open>nWordsToRead\<close> is 8.\<close>

definition testWriteArea :: "MtcaDummyTest \<Rightarrow> nat client" where
  "testWriteArea T =
    and_then (writeSingle (readerWriter T) MTCADUMMY_WORD_ADC_ENA 0 1) (\<lambda>_ w.
    and_then (writeArea (readerWriter T) (100 * 4) 2 8 (expectedBuffer T + of_nat (4 * 100))) (\<lambda>_ w.
      and_then (readArea (readerWriter T) 0 2 (of_nat N_WORDS_DMA) (readBuffer T)) (\<lambda>_ w.
        give (failed [vector_at (readBuffer T) N_WORDS_DMA w =
          vector_at (expectedBuffer T) N_WORDS_DMA w]) w)
      (put_vector (readBuffer T) (replicate N_WORDS_DMA 0) w))
    (put_vector (expectedBuffer T)
      (fold (\<lambda>i ws. ws[i := square i]) [100..<100 + 8] (vector_at (bufferHelix T) N_WORDS_DMA w)) w))"

section \<open>The suites\<close>

text \<open>The constructor of a suite opens the device and makes the test object.\<close>

definition MtcaDummyTestSuite ::
    "(kernel \<Rightarrow> u64 \<Rightarrow> int \<Rightarrow> reader_writer) \<Rightarrow> kernel \<Rightarrow> u64 \<Rightarrow> u64 \<Rightarrow> u64 \<Rightarrow> u64 \<Rightarrow> string \<Rightarrow>
      nat client list client" where
  "MtcaDummyTestSuite construct K stack helix buffer expected deviceFileName =
    and_then (ReaderWriter_open K deviceFileName) (\<lambda>fd.
    and_then (MtcaDummyTest_new (construct K stack fd) helix buffer expected) (\<lambda>T.
    give [testReadSingle T, testReadSingleWithError T, testWriteSingle T,
      testWriteSingleWithError T, testReadArea T, testWriteArea T]))"

definition init_unit_test_suite ::
    "kernel \<Rightarrow> u64 \<Rightarrow> u64 \<Rightarrow> u64 \<Rightarrow> u64 \<Rightarrow> u64 \<Rightarrow> nat client list client" where
  "init_unit_test_suite K stack helix0 helix6 buffer expected =
    and_then (MtcaDummyTestSuite StructReaderWriter K stack helix0 buffer expected
      (''/dev/'' @ MTCADUMMY_NAME @ ''s0'')) (\<lambda>suite0.
    and_then (MtcaDummyTestSuite NormalReaderWriter K stack helix6 buffer expected
      (''/dev/'' @ PCIEUNIDUMMY_NAME @ ''s6'')) (\<lambda>suite6.
    give (suite0 @ suite6)))"

text \<open>
  The framework runs the test cases one after the other; a test case that ends with an
  exception is reported, and the next one runs.
\<close>

fun run_cases :: "nat client list \<Rightarrow> world \<Rightarrow> ((exn + nat) list \<times> world) option" where
  "run_cases [] w = Some ([], w)"
| "run_cases (c # cs) w = do {
     (r, w) \<leftarrow> c w;
     (rs, w) \<leftarrow> run_cases cs w;
     Some (r # rs, w)
   }"

section \<open>Vectors\<close>

lemma length_helix_words [simp]: "length helix_words = N_WORDS_DMA"
proof -
  have "length (fold (\<lambda>i ws. ws[i := square i]) is ws) = length ws" for "is" ws
    by (induction "is" arbitrary: ws) simp_all
  then show ?thesis by (simp add: helix_words_def)
qed

lemma N_WORDS_DMA_simps [simp]:
  "N_WORDS_DMA = 1024" "DMA_WORDS = 1024"
  by (simp_all add: N_WORDS_DMA_def size_defs)

lemma fold_square:
  "length ws \<ge> n \<Longrightarrow> m \<le> n \<Longrightarrow> fold (\<lambda>i ws. ws[i := square i]) [m..<n] ws =
    take m ws @ map square [m..<n] @ drop n ws"
proof (induction n)
  case (Suc n)
  show ?case
  proof (cases "m = Suc n")
    case False
    with Suc.prems have m: "m \<le> n" by simp
    have "drop n ws = ws ! n # drop (Suc n) ws" using Suc.prems(1) by (simp add: Cons_nth_drop_Suc)
    with m Suc show ?thesis by (simp add: list_update_append)
  qed simp
qed simp

lemma helix_words_eq: "helix_words = map square [0..<25] @ replicate 999 0"
  unfolding helix_words_def by (subst fold_square) simp_all

lemma parabola_helix:
  assumes "drop 25 ds = replicate 999 0"
  shows "parabola ds = helix_words"
  using assms by (simp add: parabola_def nSamples_def helix_words_eq square_def)

lemma user_words_bytes:
  "get_memory a (4 * length ws) w = bytes_of_words ws \<longleftrightarrow> vector_at a (length ws) w = ws"
  by (simp add: get_memory_words vector_at_def bytes_of_words_eq)

lemma vector_at_put:
  assumes "4 * length ws < 2 ^ 64" and "n = length ws"
  shows "vector_at a n (put_vector a ws w) = ws"
proof -
  have "get_memory a (4 * length ws) (put_vector a ws w) = bytes_of_words ws"
    using assms(1) by (simp add: put_vector_def)
  then show ?thesis by (simp add: user_words_bytes assms(2))
qed

lemma vector_kept:
  assumes "kept rs w w'" and "\<And>r. r \<in> set rs \<Longrightarrow> disjoint r (a, 4 * n)" and "4 * n \<le> 2 ^ 64"
  shows "vector_at a n w' = vector_at a n w"
proof -
  have "get_memory a (4 * n) w' = get_memory a (4 * n) w" by (rule get_kept [OF assms])
  then show ?thesis by (simp add: get_memory_words bytes_of_words_eq vector_at_def)
qed

lemma put_vector_kept: "kept [(a, 4 * length ws)] w (put_vector a ws w)"
  unfolding put_vector_def by (rule put_kept) simp

text \<open>A part of a vector is a vector.\<close>

lemma vector_part:
  assumes "m + k \<le> n"
  shows "vector_at (a + of_nat (4 * m)) k w = take k (drop m (vector_at a n w))"
proof -
  have "byte_offset (m + i) = of_nat (4 * m) + byte_offset i" for i
    by (simp add: byte_offset_def)
  then have "user_word u (a + of_nat (4 * m)) i = user_word u a (m + i)" for u i
    by (simp add: user_word_def add.assoc)
  moreover have "take k (drop m [0..<n]) = map (\<lambda>i. m + i) [0..<k]"
    using assms map_add_upt [of m k] by (simp add: add.commute [of _ m])
  ultimately show ?thesis
    by (simp add: vector_at_def user_words_def take_map drop_map comp_def)
qed

lemma put_vector_simps [simp]:
  "bars d (put_vector a ws w) = bars d w" "spi (put_vector a ws w) = spi w"
  "connected serves K d fd (put_vector a ws w) = connected serves K d fd w"
  "served K d w (put_vector a ws w') = served K d w w'"
  "served K d (put_vector a ws w) w' = served K d w w'"
  "world_ok K (put_vector a ws w) = world_ok K w"
  by (simp_all add: put_vector_def)

section \<open>The state between two test cases\<close>

text \<open>
  The word 8 of the samples is incremented by a test case. \<open>area\<close> is the memory the test
  cases write.
\<close>

definition sampled :: "kernel \<Rightarrow> nat \<Rightarrow> int \<Rightarrow> (nat \<Rightarrow> bool) \<Rightarrow> u64 \<Rightarrow> u32 \<Rightarrow> world \<Rightarrow> bool" where
  "sampled K d fd serves helix x w \<longleftrightarrow>
    connected serves K d fd w \<and>
    (\<exists>rs. bars d w = (rs, helix_words[8 := x]) \<and> rs ! 15 = MTCADUMMY_DMMY_AS_ASCII) \<and>
    vector_at helix N_WORDS_DMA w = helix_words"

definition vector_region :: "u64 \<Rightarrow> u64 \<times> nat" where
  "vector_region a = (a, 4 * N_WORDS_DMA)"

definition area :: "u64 \<Rightarrow> u64 \<Rightarrow> u64 \<Rightarrow> (u64 \<times> nat) list" where
  "area stack buffer expected = [stack_of stack, vector_region buffer, vector_region expected]"

text \<open>The memory of the program: the regions do not overlap.\<close>

definition layout :: "u64 \<Rightarrow> u64 \<Rightarrow> u64 \<Rightarrow> u64 \<Rightarrow> bool" where
  "layout stack helix buffer expected \<longleftrightarrow>
    sorted_wrt apart (map vector_region [helix, buffer, expected]) \<and>
    list_all (\<lambda>a. apart (stack_of stack) (vector_region a)) [helix, buffer, expected]"

lemma layoutD:
  assumes "layout stack helix buffer expected"
  shows "\<And>r. r \<in> set (area stack buffer expected) \<Longrightarrow> disjoint r (vector_region helix)"
    and "disjoint (stack_of stack) (vector_region helix)" "disjoint (stack_of stack) (vector_region buffer)"
    "disjoint (stack_of stack) (vector_region expected)"
    "disjoint (vector_region buffer) (vector_region expected)"
proof -
  have "apart (vector_region helix) (vector_region buffer)" "apart (vector_region helix) (vector_region expected)"
    and b: "apart (vector_region buffer) (vector_region expected)"
    and s: "apart (stack_of stack) (vector_region helix)" "apart (stack_of stack) (vector_region buffer)"
      "apart (stack_of stack) (vector_region expected)"
    using assms by (simp_all add: layout_def)
  note h = this(1,2) [THEN apart_disjoint, THEN disjoint_sym]
  note s [THEN apart_disjoint]
  then show "disjoint (stack_of stack) (vector_region helix)" "disjoint (stack_of stack) (vector_region buffer)"
    "disjoint (stack_of stack) (vector_region expected)" by auto
  with h show "\<And>r. r \<in> set (area stack buffer expected) \<Longrightarrow> disjoint r (vector_region helix)"
    by (auto simp: area_def)
  show "disjoint (vector_region buffer) (vector_region expected)" by (rule apart_disjoint [OF b])
qed

lemma kept_area: "kept [stack_of stack] w w' \<Longrightarrow> kept (area stack buffer expected) w w'"
  by (erule kept_more) (simp add: area_def)

lemma sampled_step:
  assumes "sampled K d fd serves helix x w" and "layout stack helix buffer expected"
    and "served K d w w'" and "kept (area stack buffer expected) w w'"
    and "bars d w' = (rs', helix_words[8 := y])" and "rs' ! 15 = MTCADUMMY_DMMY_AS_ASCII"
  shows "sampled K d fd serves helix y w'"
proof -
  have "vector_at helix N_WORDS_DMA w' = vector_at helix N_WORDS_DMA w"
    by (rule vector_kept [OF assms(4)]) (use layoutD(1) [OF assms(2)] in \<open>auto simp: vector_region_def\<close>)
  with assms show ?thesis by (auto simp: sampled_def intro: connected_served)
qed

text \<open>Another device, and the vector of another test object, are not touched.\<close>

lemma sampled_other:
  assumes "sampled K e fd serves helix x w" and "layout stack helix buffer expected"
    and "served K d w w'" and "kept (area stack buffer expected) w w'" and "e \<noteq> d"
  shows "sampled K e fd serves helix x w'"
proof -
  have "vector_at helix N_WORDS_DMA w' = vector_at helix N_WORDS_DMA w"
    by (rule vector_kept [OF assms(4)]) (use layoutD(1) [OF assms(2)] in \<open>auto simp: vector_region_def\<close>)
  moreover have "e < MTCADUMMY_NR_DEVS" using assms(1) by (auto simp: sampled_def connected_def attached_iff)
  then have "bars e w' = bars e w" by (rule served_bars [OF assms(3) _ assms(5)])
  ultimately show ?thesis using assms(1,3) by (auto simp: sampled_def intro: connected_served)
qed

section \<open>Words of a connected device\<close>

lemma connected_lengths:
  assumes "connected serves K d fd w" and "bars d w = (rs, ds)"
  shows "length rs = MTCADUMMY_N_REGISTERS" and "length ds = DMA_WORDS"
  using attachedD(10,11) [OF connectedD(3) [OF assms(1)]] assms(2) by (simp_all add: bars_eq)

context word_access
begin

lemma accepted_write:
  assumes "connected serves K d fd w" and "bars d w = (rs, ds)"
    and "spec_write K False (spi w) bar off v rs ds = (0, rs', ds')"
    and "\<And>w'. connected serves K d fd w' \<Longrightarrow> bars d w' = (rs', ds') \<Longrightarrow> served K d w w' \<Longrightarrow>
      kept [stack_of stack] w w' \<Longrightarrow> Q (Inr ()) w'"
  shows "ensures (writeSingle (make K stack fd) off bar v w) Q"
  by (rule ensures_mono [OF single_write [OF assms(1-3)]])
    (use assms(4) connected_served [OF assms(1)] in simp)

end

section \<open>The test cases pass\<close>

lemma client_check [simp]:
  "ensures (check_throws m w) Q = ensures (m w) (\<lambda>r. Q (Inr (if isl r then 0 else 1)))"
  "ensures (check_no_throw m w) Q = ensures (m w) (\<lambda>r. Q (Inr (if isl r then 1 else 0)))"
  by (simp_all add: check_throws_def check_no_throw_def wp)

lemma failed_simps [simp]:
  "failed [] = 0" "failed (b # bs) = (if b then 0 else 1) + failed bs"
  "failed (bs @ cs) = failed bs + failed cs"
  by (simp_all add: failed_def)

text \<open>The accesses of the test cases, on plain lists.\<close>

lemma test_accesses:
  assumes "length rs = MTCADUMMY_N_REGISTERS" and "length ds = DMA_WORDS"
  shows "spec_read 0 MTCADUMMY_WORD_DUMMY rs ds = Inr (rs ! 15)"
    and "spec_read 0 MTCADUMMY_WORD_USER rs ds = Inr (rs ! 3)"
    and "spec_read 0 MTCADUMMY_BROKEN_WRITE rs ds = Inr (rs ! 19)"
    and "spec_read 0 MTCADUMMY_BROKEN_REGISTER rs ds = Inl (- EIO)"
    and "spec_read 2 0x20 rs ds = Inr (ds ! 8)"
    and "spec_write K False f 0 MTCADUMMY_WORD_USER v rs ds = (0, rs[3 := v], ds)"
    and "spec_write K False f 2 0x20 v rs ds = (0, rs, ds[8 := v])"
    and "spec_write K False f 0 MTCADUMMY_BROKEN_REGISTER v rs ds = (- EIO, rs[18 := v], ds)"
    and "spec_write K False f 0 MTCADUMMY_BROKEN_WRITE v rs ds = (- EIO, rs[19 := v], ds)"
    and "spec_write K False f 0 MTCADUMMY_WORD_ADC_ENA 1 rs ds =
      (0, rs[17 := 1, 4 := 25, 16 := 0], parabola ds)"
proof -
  note len = assms [unfolded size_defs]
  note eval = spec_read_def spec_write_def spec_action_def bar_words_def valid_offset_def len
    nth_list_update errno_defs
  show "spec_read 0 MTCADUMMY_WORD_DUMMY rs ds = Inr (rs ! 15)"
    "spec_read 0 MTCADUMMY_WORD_USER rs ds = Inr (rs ! 3)"
    "spec_read 0 MTCADUMMY_BROKEN_WRITE rs ds = Inr (rs ! 19)"
    "spec_read 0 MTCADUMMY_BROKEN_REGISTER rs ds = Inl (- EIO)"
    "spec_write K False f 0 MTCADUMMY_WORD_USER v rs ds = (0, rs[3 := v], ds)"
    "spec_write K False f 0 MTCADUMMY_BROKEN_REGISTER v rs ds = (- EIO, rs[18 := v], ds)"
    "spec_write K False f 0 MTCADUMMY_BROKEN_WRITE v rs ds = (- EIO, rs[19 := v], ds)"
    "spec_write K False f 0 MTCADUMMY_WORD_ADC_ENA 1 rs ds =
      (0, rs[17 := 1, 4 := 25, 16 := 0], parabola ds)"
    by (simp_all add: eval) (simp_all add: register_defs REG_def)
  show "spec_read 2 0x20 rs ds = Inr (ds ! 8)"
    "spec_write K False f 2 0x20 v rs ds = (0, rs, ds[8 := v])"
    by (simp_all add: eval REG_def)
qed

lemma sampledE:
  assumes "sampled K d fd serves helix x w"
  obtains rs where "connected serves K d fd w" and "bars d w = (rs, helix_words[8 := x])"
    and "rs ! 15 = MTCADUMMY_DMMY_AS_ASCII" and "length rs = MTCADUMMY_N_REGISTERS"
    and "vector_at helix N_WORDS_DMA w = helix_words"
proof -
  obtain rs where rs: "connected serves K d fd w" "bars d w = (rs, helix_words[8 := x])"
    "rs ! 15 = MTCADUMMY_DMMY_AS_ASCII" "vector_at helix N_WORDS_DMA w = helix_words"
    using assms by (auto simp: sampled_def)
  show thesis by (rule that [OF rs(1-3) connected_lengths(1) [OF rs(1,2)] rs(4)])
qed

text \<open>
  A statement that reads and writes words, seen as a program on the two bars: from every
  world whose bars are \<open>rs\<close> and \<open>ds\<close> it ends with \<open>Q\<close>.
\<close>

definition steps ::
    "(nat \<Rightarrow> bool) \<Rightarrow> kernel \<Rightarrow> nat \<Rightarrow> int \<Rightarrow> u64 \<Rightarrow> 'a client \<Rightarrow> u32 list \<Rightarrow> u32 list \<Rightarrow>
      (exn + 'a \<Rightarrow> u32 list \<Rightarrow> u32 list \<Rightarrow> bool) \<Rightarrow> bool" where
  "steps serves K d fd stack m rs ds Q \<longleftrightarrow>
    (\<forall>w. connected serves K d fd w \<and> bars d w = (rs, ds) \<longrightarrow>
      ensures (m w) (\<lambda>r w'. served K d w w' \<and> kept [stack_of stack] w w' \<and>
        (case bars d w' of (rs', ds') \<Rightarrow> Q r rs' ds')))"

lemma stepsI:
  assumes "\<And>w. connected serves K d fd w \<Longrightarrow> bars d w = (rs, ds) \<Longrightarrow>
    ensures (m w) (\<lambda>r w'. served K d w w' \<and> kept [stack_of stack] w w' \<and>
      (case bars d w' of (rs', ds') \<Rightarrow> Q r rs' ds'))"
  shows "steps serves K d fd stack m rs ds Q"
  using assms by (simp add: steps_def)

lemma stepsD:
  assumes "steps serves K d fd stack m rs ds Q" and "connected serves K d fd w" and "bars d w = (rs, ds)"
  shows "ensures (m w) (\<lambda>r w'. served K d w w' \<and> kept [stack_of stack] w w' \<and>
    (case bars d w' of (rs', ds') \<Rightarrow> Q r rs' ds'))"
  using assms by (simp add: steps_def)

lemma steps_give: "Q (Inr x) rs ds \<Longrightarrow> steps serves K d fd stack (give x) rs ds Q"
  by (rule stepsI) (simp add: connectedD)

lemma steps_and_then:
  assumes "steps serves K d fd stack m rs ds
    (\<lambda>r rs' ds'. case r of Inl e \<Rightarrow> Q (Inl e) rs' ds' | Inr x \<Rightarrow> steps serves K d fd stack (f x) rs' ds' Q)"
  shows "steps serves K d fd stack (and_then m f) rs ds Q"
proof (rule stepsI)
  fix w assume w: "connected serves K d fd w" "bars d w = (rs, ds)"
  show "ensures (and_then m f w) (\<lambda>r w'. served K d w w' \<and> kept [stack_of stack] w w' \<and>
      (case bars d w' of (rs', ds') \<Rightarrow> Q r rs' ds'))"
    unfolding client_wp
  proof (rule ensures_mono [OF stepsD [OF assms w]], goal_cases)
    case (1 r u)
    then have u: "connected serves K d fd u" by (blast intro: connected_served [OF w(1)])
    obtain rs' ds' where b: "bars d u = (rs', ds')" by (cases "bars d u")
    show ?case
    proof (cases r)
      case (Inl e)
      with 1 b show ?thesis by simp
    next
      case (Inr x)
      with 1 b have "steps serves K d fd stack (f x) rs' ds' Q" by simp
      from stepsD [OF this u b] show ?thesis
        unfolding Inr sum.case
        by (rule ensures_mono) (use 1 in \<open>auto intro: served_trans kept_trans\<close>)
    qed
  qed
qed

context word_access
begin

lemma steps_read:
  assumes "case spec_read bar off rs ds of Inl _ \<Rightarrow> (\<forall>e. Q (Inl e) rs ds) | Inr v \<Rightarrow> Q (Inr v) rs ds"
  shows "steps serves K d fd stack (readSingle (make K stack fd) off bar) rs ds Q"
proof (rule stepsI, goal_cases)
  case (1 w)
  show ?case
    by (rule ensures_mono [OF single_read [OF 1]])
      (use assms in \<open>auto simp: isl_def split: sum.splits\<close>)
qed

lemma steps_write:
  assumes "\<And>spiFail. case spec_write K False spiFail bar off v rs ds of (e, rs', ds') \<Rightarrow>
    if e = 0 then Q (Inr ()) rs' ds' else (\<forall>x. Q (Inl x) rs' ds')"
  shows "steps serves K d fd stack (writeSingle (make K stack fd) off bar v) rs ds Q"
proof (rule stepsI, goal_cases)
  case (1 w)
  obtain e rs' ds' where sw: "spec_write K False (spi w) bar off v rs ds = (e, rs', ds')"
    by (metis prod_cases3)
  show ?case
    by (rule ensures_mono [OF single_write [OF 1 sw]])
      (use assms [of "spi w"] sw in \<open>auto simp: isl_def split: if_splits\<close>)
qed

end

lemma steps_check:
  assumes "steps serves K d fd stack m rs ds (\<lambda>r. Q (Inr (if isl r then 0 else 1)))"
  shows "steps serves K d fd stack (check_throws m) rs ds Q"
  using assms by (simp add: steps_def)

lemma steps_no_check:
  assumes "steps serves K d fd stack m rs ds (\<lambda>r. Q (Inr (if isl r then 1 else 0)))"
  shows "steps serves K d fd stack (check_no_throw m) rs ds Q"
  using assms by (simp add: steps_def)

lemmas steps_rules = steps_and_then steps_check steps_no_check steps_give

text \<open>From the bars back to the state between two test cases.\<close>

lemma steps_sampled:
  assumes "sampled K d fd serves helix x w" and "layout stack helix buffer expected"
    and "\<And>rs. length rs = MTCADUMMY_N_REGISTERS \<Longrightarrow> rs ! 15 = MTCADUMMY_DMMY_AS_ASCII \<Longrightarrow>
      steps serves K d fd stack m rs (helix_words[8 := x]) (\<lambda>r rs' ds'.
        r = Inr 0 \<and> rs' ! 15 = MTCADUMMY_DMMY_AS_ASCII \<and> ds' = helix_words[8 := y])"
  shows "ensures (m w) (\<lambda>r w'. r = Inr 0 \<and> served K d w w' \<and> kept (area stack buffer expected) w w' \<and>
    sampled K d fd serves helix y w')"
  using assms(1)
proof (rule sampledE)
  fix rs assume w: "connected serves K d fd w" "bars d w = (rs, helix_words[8 := x])"
    "rs ! 15 = MTCADUMMY_DMMY_AS_ASCII" "length rs = MTCADUMMY_N_REGISTERS"
  show ?thesis
    by (rule ensures_mono [OF stepsD [OF assms(3) [OF w(4,3)] w(1,2)]])
      (auto intro: kept_area sampled_step [OF assms(1,2) _ kept_area])
qed

lemma helix_length: "length (helix_words[8 := x]) = DMA_WORDS"
  by simp

lemma helix_again [simp]: "helix_words[8 := x, 8 := y] = helix_words[8 := y]" "helix_words[8 := x] ! 8 = x"
  by simp_all

lemma word_eight: "(8 * 4 :: u32) = 0x20"
  by simp

context word_access
begin

lemmas word_rules = steps_rules steps_read steps_write

lemma testReadSingle_steps:
  assumes "length rs = MTCADUMMY_N_REGISTERS" and "rs ! 15 = MTCADUMMY_DMMY_AS_ASCII"
    and "readerWriter T = make K stack fd"
  shows "steps serves K d fd stack (testReadSingle T) rs (helix_words[8 := 64]) (\<lambda>r rs' ds'.
    r = Inr 0 \<and> rs' ! 15 = MTCADUMMY_DMMY_AS_ASCII \<and> ds' = helix_words[8 := 64])"
  unfolding testReadSingle_def assms(3) word_eight
  by (auto intro!: word_rules simp: test_accesses [OF assms(1) helix_length] assms(2))

lemma testReadSingleWithError_steps:
  assumes "length rs = MTCADUMMY_N_REGISTERS" and "rs ! 15 = MTCADUMMY_DMMY_AS_ASCII"
    and "readerWriter T = make K stack fd"
  shows "steps serves K d fd stack (testReadSingleWithError T) rs (helix_words[8 := x]) (\<lambda>r rs' ds'.
    r = Inr 0 \<and> rs' ! 15 = MTCADUMMY_DMMY_AS_ASCII \<and> ds' = helix_words[8 := x])"
  unfolding testReadSingleWithError_def assms(3)
  by (auto intro!: word_rules simp: test_accesses [OF assms(1) helix_length] assms(2))

lemma testWriteSingle_steps:
  assumes "length rs = MTCADUMMY_N_REGISTERS" and "rs ! 15 = MTCADUMMY_DMMY_AS_ASCII"
    and "readerWriter T = make K stack fd"
  shows "steps serves K d fd stack (testWriteSingle T) rs (helix_words[8 := x]) (\<lambda>r rs' ds'.
    r = Inr 0 \<and> rs' ! 15 = MTCADUMMY_DMMY_AS_ASCII \<and> ds' = helix_words[8 := x + 1])"
proof -
  have "length (rs[3 := v]) = MTCADUMMY_N_REGISTERS" for v using assms(1) by simp
  note acc = test_accesses [OF assms(1) helix_length] test_accesses [OF this helix_length]
  show ?thesis
    unfolding testWriteSingle_def assms(3)
    by (auto intro!: word_rules simp: acc assms(2)) (simp add: assms(1))
qed

lemma testWriteSingleWithError_steps:
  assumes "length rs = MTCADUMMY_N_REGISTERS" and "rs ! 15 = MTCADUMMY_DMMY_AS_ASCII"
    and "readerWriter T = make K stack fd"
  shows "steps serves K d fd stack (testWriteSingleWithError T) rs (helix_words[8 := x]) (\<lambda>r rs' ds'.
    r = Inr 0 \<and> rs' ! 15 = MTCADUMMY_DMMY_AS_ASCII \<and> ds' = helix_words[8 := x])"
proof -
  have "length (rs[18 := v]) = MTCADUMMY_N_REGISTERS" for v using assms(1) by simp
  note acc = test_accesses [OF assms(1) helix_length] test_accesses [OF this helix_length]
  show ?thesis
    unfolding testWriteSingleWithError_def assms(3)
    by (auto intro!: word_rules simp: acc assms(2) errno_defs)
qed

end

section \<open>The area cases\<close>

lemma vector_split:
  assumes "m + k \<le> n"
  shows "take m (vector_at a n w) = vector_at a m w"
    and "drop (m + k) (vector_at a n w) = vector_at (a + of_nat (4 * (m + k))) (n - (m + k)) w"
    and "vector_at a n w =
    vector_at a m w @ vector_at (a + of_nat (4 * m)) k w @ vector_at (a + of_nat (4 * (m + k))) (n - (m + k)) w"
proof -
  let ?v = "vector_at a n w"
  show t: "take m ?v = vector_at a m w" using vector_part [of 0 m n a w] assms by simp
  have k: "take k (drop m ?v) = vector_at (a + of_nat (4 * m)) k w"
    using vector_part [of m k n a w] assms by simp
  have "length ?v = n" by (simp add: vector_at_def)
  then show d: "drop (m + k) ?v = vector_at (a + of_nat (4 * (m + k))) (n - (m + k)) w"
    using vector_part [of "m + k" "n - (m + k)" n a w] assms by simp
  have "?v = take m ?v @ take k (drop m ?v) @ drop (m + k) ?v"
    by (metis append_take_drop_id drop_drop add.commute)
  then show "?v = vector_at a m w @ vector_at (a + of_nat (4 * m)) k w @
      vector_at (a + of_nat (4 * (m + k))) (n - (m + k)) w"
    unfolding t k d .
qed

lemma length_vector_at [simp]: "length (vector_at a n w) = n"
  by (simp add: vector_at_def)

text \<open>A part of a vector is filled, the rest of it stays.\<close>

lemma vector_filled:
  assumes "kept [r, (a + of_nat (4 * m), 4 * k)] w w'" and "disjoint r (a, 4 * n)" and "m + k \<le> n"
    and "4 * n \<le> 2 ^ 64" and "vector_at (a + of_nat (4 * m)) k w' = vs"
  shows "vector_at a n w' = take m (vector_at a n w) @ vs @ drop (m + k) (vector_at a n w)"
proof -
  have w: "within (a, 4 * m) (a, 4 * n)"
    "within (a + of_nat (4 * (m + k)), 4 * (n - (m + k))) (a, 4 * n)"
    using within_first [of "4 * m" "4 * n" a]
      within_slice [of "4 * (m + k)" "4 * (n - (m + k))" "4 * n" a] assms(3,4) by simp_all
  have d: "disjoint (a + of_nat (4 * m), 4 * k) (a, 4 * m)"
    "disjoint (a + of_nat (4 * m), 4 * k) (a + of_nat (4 * (m + k)), 4 * (n - (m + k)))"
    using disjoint_slices [of 0 "4 * m" "4 * m" "4 * k" a, THEN disjoint_sym]
      disjoint_slices [of "4 * m" "4 * k" "4 * (m + k)" "4 * (n - (m + k))" a] assms(3,4) by simp_all
  have "vector_at a m w' = vector_at a m w"
    by (rule vector_kept [OF assms(1)])
      (use disjoint_within [OF assms(2) w(1)] d(1) assms(3,4) in auto)
  moreover have "vector_at (a + of_nat (4 * (m + k))) (n - (m + k)) w' =
      vector_at (a + of_nat (4 * (m + k))) (n - (m + k)) w"
    by (rule vector_kept [OF assms(1)])
      (use disjoint_within [OF assms(2) w(2)] d(2) assms(3,4) in auto)
  moreover note assms(5)
  ultimately show ?thesis
    unfolding vector_split(1,2) [OF assms(3)] using vector_split(3) [OF assms(3), of a w'] by simp
qed

lemma kept_slice:
  assumes "kept [stack_of stack, (a + of_nat (4 * m), 4 * k)] w w'" and "m + k \<le> N_WORDS_DMA"
  shows "kept [stack_of stack, vector_region a] w w'"
proof (rule kept_within [OF assms(1)])
  have "within (a + of_nat (4 * m), 4 * k) (vector_region a)"
    unfolding vector_region_def by (rule within_slice) (use assms(2) in simp_all)
  then show "\<forall>r\<in>set [stack_of stack, (a + of_nat (4 * m), 4 * k)].
      \<exists>s\<in>set [stack_of stack, vector_region a]. within r s"
    by simp
qed

lemma slice_disjoint:
  assumes "disjoint r (vector_region a)" and "m + k \<le> N_WORDS_DMA"
  shows "disjoint r (a + of_nat (4 * m), 4 * k)"
  by (rule disjoint_within [OF assms(1)], unfold vector_region_def, rule within_slice)
    (use assms(2) in simp_all)

lemma dma_area:
  assumes "unat off = 4 * m" and "m + unat n \<le> length ds"
  shows "in_bar 2 off (unat n) rs ds ds m"
  using assms by (simp_all add: in_bar_def bar_words_def)

context reader_writer_class
begin

text \<open>A read of a part of the DMA bar into the same part of a vector.\<close>

lemma read_part:
  assumes "connected serves K d fd w" and "bars d w = (rs, ds)" and "unat off = 4 * m" and "k = unat n"
    and "m + k \<le> N_WORDS_DMA" and "disjoint (stack_of stack) (vector_region a)"
  shows "ensures (readArea (make K stack fd) off 2 n (a + of_nat (4 * m)) w) (\<lambda>r w'.
    r = Inr () \<and> served K d w w' \<and> bars d w' = (rs, ds) \<and> kept [stack_of stack, vector_region a] w w' \<and>
    vector_at a N_WORDS_DMA w' = take m (vector_at a N_WORDS_DMA w) @ take k (drop m ds) @
      drop (m + k) (vector_at a N_WORDS_DMA w))"
proof -
  have len: "length ds = N_WORDS_DMA" using connected_lengths(2) [OF assms(1,2)] by simp
  note dj = slice_disjoint [OF assms(6,5)]
  have in_dma: "in_bar 2 off (unat n) rs ds ds m" "readable 2 m (unat n)"
    using dma_area [OF assms(3), where n = n and ds = ds and rs = rs] assms(4,5) len
    by (simp_all add: readable_def)
  have "ensures (readArea (make K stack fd) off 2 n (a + of_nat (4 * m)) w) (\<lambda>r w'.
        served K d w w' \<and> bars d w' = (rs, ds) \<and>
        kept [stack_of stack, (a + of_nat (4 * m), 4 * unat n)] w w' \<and> r = Inr () \<and>
        get_memory (a + of_nat (4 * m)) (4 * unat n) w' = bytes_of_words (take (unat n) (drop m ds)))"
    by (rule area_read [OF assms(1,2) in_dma]) (use dj assms(4) in simp)
  then show ?thesis
  proof (rule ensures_mono, goal_cases)
    case (1 r w')
    then have k: "kept [stack_of stack, (a + of_nat (4 * m), 4 * k)] w w'" using assms(4) by simp
    have "vector_at (a + of_nat (4 * m)) k w' = take k (drop m ds)"
      using 1 assms(4) by (simp only: get_memory_words bytes_of_words_eq vector_at_def)
    from vector_filled [OF k assms(6) [unfolded vector_region_def] assms(5) _ this]
    have "vector_at a N_WORDS_DMA w' = take m (vector_at a N_WORDS_DMA w) @ take k (drop m ds) @
      drop (m + k) (vector_at a N_WORDS_DMA w)" by simp
    with 1 kept_slice [OF k assms(5)] show ?case by simp
  qed
qed

text \<open>A write of a part of a vector into the same part of the DMA bar.\<close>

lemma write_part:
  assumes "connected serves K d fd w" and "bars d w = (rs, ds)" and "unat off = 4 * m" and "k = unat n"
    and "m + k \<le> N_WORDS_DMA" and "disjoint (stack_of stack) (vector_region a)"
  shows "ensures (writeArea (make K stack fd) off 2 n (a + of_nat (4 * m)) w) (\<lambda>r w'.
    r = Inr () \<and> served K d w w' \<and> kept [stack_of stack] w w' \<and>
    bars d w' = (rs, take m ds @ take k (drop m (vector_at a N_WORDS_DMA w)) @ drop (m + k) ds))"
proof -
  let ?vs = "take k (drop m (vector_at a N_WORDS_DMA w))"
  have len: "length ds = N_WORDS_DMA" using connected_lengths(2) [OF assms(1,2)] by simp
  note dj = slice_disjoint [OF assms(6,5)]
  have in_dma: "in_bar 2 off (unat n) rs ds ds m"
    using dma_area [OF assms(3), where n = n and ds = ds and rs = rs] assms(4,5) len by simp
  have vs: "user_words (umem (kern w)) (a + of_nat (4 * m)) (unat n) = ?vs"
    using vector_part [OF assms(5), of a w] assms(4) by (simp only: vector_at_def)
  have "length ?vs = k" using assms(5) by simp
  with spec_writes_dma [of m ?vs ds K "spi w" rs] assms(5) len
  have "spec_writes K (spi w) 2 m ?vs rs ds = (0, rs, take m ds @ ?vs @ drop (m + k) ds)" by simp
  then have sw: "spec_writes K (spi w) 2 m (user_words (umem (kern w)) (a + of_nat (4 * m)) (unat n)) rs ds =
      (0, rs, take m ds @ ?vs @ drop (m + k) ds)"
    unfolding vs .
  show ?thesis
    by (rule ensures_mono [OF area_write [OF assms(1,2) in_dma _ sw]]) (use dj assms(4) in simp_all)
qed

end

lemma failed_none: "failed bs = 0 \<longleftrightarrow> (\<forall>b \<in> set bs. b)"
  by (auto simp: failed_def filter_empty_conv)

lemma helix_part: "take 5 (drop 13 (helix_words[8 := x])) = map square [13..<18]"
  by (simp add: helix_words_eq drop_map take_map drop_upt take_upt drop_update_swap)

lemma kept_buffers:
  assumes "kept [stack_of stack, vector_region a] w w'" and "a = buffer \<or> a = expected"
  shows "kept (area stack buffer expected) w w'"
  by (rule kept_more [OF assms(1)]) (use assms(2) in \<open>auto simp: area_def\<close>)

lemma kept_put_buffer:
  assumes "length ws = N_WORDS_DMA" and "a = buffer \<or> a = expected"
  shows "kept (area stack buffer expected) w (put_vector a ws w)"
  by (rule kept_more [OF put_vector_kept]) (use assms in \<open>auto simp: area_def vector_region_def\<close>)

context reader_writer_class
begin

lemma testReadArea_passes:
  assumes "sampled K d fd serves helix x w" and "layout stack helix buffer expected"
    and "readerWriter T = make K stack fd" and "readBuffer T = buffer"
  shows "ensures (testReadArea T w) (\<lambda>r w'. r = Inr 0 \<and> served K d w w' \<and>
    kept (area stack buffer expected) w w' \<and> sampled K d fd serves helix x w')"
  using assms(1)
proof (rule sampledE)
  fix rs assume w: "connected serves K d fd w" "bars d w = (rs, helix_words[8 := x])"
    "rs ! 15 = MTCADUMMY_DMMY_AS_ASCII"
  let ?fill = "replicate N_WORDS_DMA 0xB0B0B0B0 :: u32 list"
  let ?w = "put_vector buffer ?fill w"
  have fill: "vector_at buffer N_WORDS_DMA ?w = ?fill" by (rule vector_at_put) simp_all
  have k: "kept (area stack buffer expected) w ?w" by (rule kept_put_buffer) simp_all
  have "connected serves K d fd ?w" "bars d ?w = (rs, helix_words[8 := x])" using w by simp_all
  note area = read_part [OF this, where off = "13 * 4" and m = 13 and n = 5 and k = 5 and a = buffer
      and stack = stack, unfolded fill]
  have read: "ensures (readArea (make K stack fd) (13 * 4) 2 5 (buffer + of_nat (4 * 13)) ?w) (\<lambda>r w'.
      r = Inr () \<and> served K d ?w w' \<and> bars d w' = (rs, helix_words[8 := x]) \<and>
      kept [stack_of stack, vector_region buffer] ?w w' \<and>
      vector_at buffer N_WORDS_DMA w' = take 13 ?fill @ take 5 (drop 13 (helix_words[8 := x])) @ drop (13 + 5) ?fill)"
    by (rule area) (use layoutD(3) [OF assms(2)] in simp_all)
  show ?thesis
    unfolding testReadArea_def client_wp assms(3,4) Let_def
  proof (rule ensures_mono [OF read], goal_cases)
    case (1 r w')
    let ?v = "vector_at buffer N_WORDS_DMA w'"
    have v: "?v = take 13 ?fill @ map square [13..<18] @ drop (13 + 5) ?fill"
      using 1 unfolding helix_part by blast
    have nth: "i < 13 \<Longrightarrow> ?v ! i = 0xB0B0B0B0" "13 \<le> i \<Longrightarrow> i < 18 \<Longrightarrow> ?v ! i = square i"
      "18 \<le> i \<Longrightarrow> i < N_WORDS_DMA \<Longrightarrow> ?v ! i = 0xB0B0B0B0" for i
      unfolding v by (auto simp: nth_append simp del: upt_rec_numeral)
    have none: "failed (map (\<lambda>i. ?v ! i = 0xB0B0B0B0) [0..<13] @ map (\<lambda>i. ?v ! i = square i) [13..<13 + 5] @
        map (\<lambda>i. ?v ! i = 0xB0B0B0B0) [13 + 5..<N_WORDS_DMA]) = 0"
      unfolding failed_none set_append set_map set_upt by (intro ballI, elim UnE imageE) (simp_all add: nth [unfolded N_WORDS_DMA_simps])
    have kp: "kept (area stack buffer expected) w w'"
      using k kept_buffers [of stack buffer ?w w'] 1 by (blast intro: kept_trans)
    have sv: "served K d w w'" and r: "r = Inr ()" and b: "bars d w' = (rs, helix_words[8 := x])"
      using 1 by simp_all
    have "sampled K d fd serves helix x w'" by (rule sampled_step [OF assms(1,2) sv kp b w(3)])
    then show ?case
      unfolding r sum.case client_wp none using kp sv by simp
  qed
qed

lemma testWriteArea_passes:
  assumes "sampled K d fd serves helix x w" and "layout stack helix buffer expected"
    and "readerWriter T = make K stack fd" and "readBuffer T = buffer" and "bufferHelix T = helix"
    and "expectedBuffer T = expected"
  shows "ensures (testWriteArea T w) (\<lambda>r w'. r = Inr 0 \<and> served K d w w' \<and>
    kept (area stack buffer expected) w w')"
  using assms(1)
proof (rule sampledE)
  fix rs assume w: "connected serves K d fd w" "bars d w = (rs, helix_words[8 := x])"
    and rs: "length rs = MTCADUMMY_N_REGISTERS" and vec: "vector_at helix N_WORDS_DMA w = helix_words"
  let ?Z = "replicate N_WORDS_DMA 0 :: u32 list"
  obtain E where fold: "fold (\<lambda>i ws. ws[i := square i]) [100..<100 + 8] helix_words = E" by blast
  have E: "E = take 100 helix_words @ map square [100..<100 + 8] @ drop (100 + 8) helix_words"
    unfolding fold [symmetric] by (rule fold_square) simp_all
  then have lE: "length E = N_WORDS_DMA" and pE: "take 8 (drop 100 E) = map square [100..<100 + 8]"
    by simp_all
  have par: "parabola (helix_words[8 := x]) = helix_words"
    by (rule parabola_helix) (simp add: helix_words_eq drop_update_swap)
  note lay = layoutD [OF assms(2)]
  show ?thesis
    unfolding testWriteArea_def client_wp assms(3-6)
  proof (rule accepted_write [OF w test_accesses(10) [OF rs helix_length]], unfold par sum.case, goal_cases)
    case (1 u)
    then have hu: "vector_at helix N_WORDS_DMA u = helix_words"
      using vec vector_kept [OF 1(4), of helix N_WORDS_DMA] lay(2) by (simp add: vector_region_def)
    let ?u = "put_vector expected E u"
    have eu: "vector_at expected N_WORDS_DMA ?u = E" by (rule vector_at_put) (use lE in simp_all)
    have ku: "kept (area stack buffer expected) w ?u"
      by (rule kept_trans [OF kept_area [OF 1(4)] kept_put_buffer]) (use lE in simp_all)
    have "connected serves K d fd ?u" "bars d ?u = (rs[17 := 1, 4 := 25, 16 := 0], helix_words)"
      using 1 by simp_all
    note stored = write_part [OF this, where off = "100 * 4" and m = 100 and n = 8 and k = 8
        and a = expected and stack = stack, unfolded eu pE, folded E]
    show ?case
      unfolding hu fold
    proof (rule ensures_mono [OF stored [OF _ _ _ lay(4)]], simp, simp, simp, goal_cases)
      case (1 r v)
      then have r: "r = Inr ()" and v: "served K d w v" "bars d v = (rs[17 := 1, 4 := 25, 16 := 0], E)"
        "kept [stack_of stack] ?u v"
        using served_trans [OF \<open>served K d w u\<close>, of v] by simp_all
      have ev: "vector_at expected N_WORDS_DMA v = E"
        using eu vector_kept [OF v(3), of expected N_WORDS_DMA] lay(4) by (simp add: vector_region_def)
      let ?v = "put_vector buffer ?Z v"
      have kv: "kept (area stack buffer expected) w ?v"
        by (rule kept_trans [OF kept_trans [OF ku kept_area [OF v(3)]] kept_put_buffer]) simp_all
      have exv: "vector_at expected N_WORDS_DMA ?v = E"
        using ev vector_kept [OF put_vector_kept [where a = buffer and ws = ?Z and w = v],
            where a = expected and n = N_WORDS_DMA] lay(5)
        by (simp add: vector_region_def)
      have "connected serves K d fd ?v" "bars d ?v = (rs[17 := 1, 4 := 25, 16 := 0], E)"
        using v connected_served [OF w(1) v(1)] by simp_all
      from read_part [OF this, where off = 0 and m = 0 and n = 1024 and k = 1024
        and a = buffer and stack = stack] lay(3) lE
      have read: "ensures (readArea (make K stack fd) 0 2 (of_nat N_WORDS_DMA) buffer ?v) (\<lambda>r w'.
          r = Inr () \<and> served K d ?v w' \<and> kept [stack_of stack, vector_region buffer] ?v w' \<and>
          vector_at buffer N_WORDS_DMA w' = E)"
        by (simp add: ensures_iff) blast
      show ?case
        unfolding r sum.case
      proof (rule ensures_mono [OF read], goal_cases)
        case (1 r' w')
        have "vector_at expected N_WORDS_DMA w' = vector_at expected N_WORDS_DMA ?v"
          by (rule vector_kept) (use 1 lay(4,5) in \<open>auto simp: vector_region_def\<close>)
        moreover have "kept (area stack buffer expected) w w'"
          using kv kept_buffers [of stack buffer ?v w'] 1 by (blast intro: kept_trans)
        moreover have "served K d w w'" using served_trans [OF v(1), of w'] 1 by simp
        ultimately show ?case using 1 exv by simp
      qed
    qed
  qed
qed

end

section \<open>The program\<close>

text \<open>Opening a device adds a file at the end and changes nothing that the test cases rely on.\<close>

definition opens :: "kernel \<Rightarrow> nat \<Rightarrow> world \<Rightarrow> world \<Rightarrow> bool" where
  "opens K d w w' \<longleftrightarrow>
    world_ok K w' \<and> map fh_dev (files w') = map fh_dev (files w) @ [d] \<and>
    control (kern w') = control (kern w) \<and> registered (kern w') = registered (kern w) \<and>
    umem (kern w') = umem (kern w) \<and> (\<forall>e < MTCADUMMY_NR_DEVS. bars e w' = bars e w)"

definition switches_off :: "world \<Rightarrow> bool" where
  "switches_off w \<longleftrightarrow> \<not> open_error (control (kern w)) \<and> \<not> read_error (control (kern w)) \<and>
    \<not> write_error (control (kern w))"

lemma file_index_descriptor [simp]: "file_index (descriptor n) = n" "\<not> descriptor n \<le> 0"
  by (simp_all add: file_index_def descriptor_def)

lemma opens_attached:
  assumes "opens K d w w'" and "switches_off w" and "d < MTCADUMMY_NR_DEVS" and "d \<noteq> 5"
  shows "attached K d (descriptor (length (files w))) w'"
proof -
  have m: "map fh_dev (files w') = map fh_dev (files w) @ [d]" using assms(1) by (simp add: opens_def)
  have l: "length (files w') = Suc (length (files w))" using arg_cong [OF m, of length] by simp
  then have "fh_dev (files w' ! length (files w)) = d"
    using arg_cong [OF m, of "\<lambda>xs. xs ! length (files w)"] by (simp add: nth_append)
  with l assms show ?thesis by (simp add: attached_iff opens_def switches_off_def)
qed

lemma opens_other:
  assumes "opens K d w w'" and "attached K e fd w"
  shows "attached K e fd w'"
proof -
  have m: "map fh_dev (files w') = map fh_dev (files w) @ [d]" using assms(1) by (simp add: opens_def)
  have l: "length (files w') = Suc (length (files w))" using arg_cong [OF m, of length] by simp
  have i: "file_index fd < length (files w)" using assms(2) by (simp add: attached_iff)
  with l have "fh_dev (files w' ! file_index fd) = fh_dev (files w ! file_index fd)"
    using arg_cong [OF m, of "\<lambda>xs. xs ! file_index fd"] by (simp add: nth_append)
  with l i assms show ?thesis by (simp add: attached_iff opens_def)
qed

lemma ReaderWriter_open_device:
  assumes "quiet K" and "world_ok K w" and "\<not> open_error (control (kern w))" and "d < MTCADUMMY_NR_DEVS" and "d \<noteq> 5"
    and "device_of_path path w = Some d"
  shows "ensures (ReaderWriter_open K path w) (\<lambda>r w'. r = Inr (descriptor (length (files w))) \<and> opens K d w w')"
proof -
  let ?s = "kern w" and ?t = "count_opens d 1 (flag_read (kern w))"
  let ?h = "\<lparr>fh_dev = d, fh_file = fresh_file\<lparr>private_data := Some d\<rparr>, fh_pos = 0\<rparr>"
  let ?w = "w\<lparr>kern := ?t, files := files w @ [?h]\<rparr>"
  note idle = world_okD(1) [OF assms(2)] and ops = world_okD(2) [OF assms(2,4)]
  have "mtcaDummy_open K d fresh_file ?s = Some ((0, fresh_file\<lparr>private_data := Some d\<rparr>), ?t)"
    using mtcaDummy_open_refines [OF idle assms(4), of K fresh_file] assms(3)
    by (auto simp: quietD [OF assms(1)] ensures_iff)
  then have run: "exec_call K (Open d) w = Some (0, ?w)"
    using assms(4,5) by (simp add: ops call_open_def file_ops_cases)
  have "permitted K (Open d) w" using assms(4) by simp
  from exec_call_ok [OF assms(2) this quietD(1) [OF assms(1)]] run
  have ok: "world_ok K ?w" and fr: "frame (Open d) w ?w" by simp_all
  have "opens K d w ?w"
    unfolding opens_def using ok fr
    by (simp add: frame_def bars_def)
  then show ?thesis
    using run by (simp add: ReaderWriter_open_def sys_open_def assms(6) wp del: exec_call.simps)
qed

lemma sampled_frame:
  assumes "sampled K e fd serves helix x w" and "connected serves K e fd w'" and "bars e w' = bars e w"
    and "kept rs w w'" and "\<And>r. r \<in> set rs \<Longrightarrow> disjoint r (vector_region helix)"
  shows "sampled K e fd serves helix x w'"
proof -
  have "vector_at helix N_WORDS_DMA w' = vector_at helix N_WORDS_DMA w"
    by (rule vector_kept [OF assms(4)]) (use assms(5) in \<open>simp_all add: vector_region_def\<close>)
  with assms(1-3) show ?thesis by (simp add: sampled_def)
qed

definition test_object :: "reader_writer \<Rightarrow> u64 \<Rightarrow> u64 \<Rightarrow> u64 \<Rightarrow> MtcaDummyTest" where
  "test_object rw helix buffer expected =
    \<lparr>readerWriter = rw, bufferA = replicate N_WORDS_DMA 0xAAAAAAAA, bufferHelix = helix,
     readBuffer = buffer, expectedBuffer = expected\<rparr>"

definition suite_cases :: "MtcaDummyTest \<Rightarrow> nat client list" where
  "suite_cases T = [testReadSingle T, testReadSingleWithError T, testWriteSingle T,
     testWriteSingleWithError T, testReadArea T, testWriteArea T]"

lemma ensures_run_cases:
  "ensures (run_cases (c # cs) w) Q =
    ensures (c w) (\<lambda>r w. ensures (run_cases cs w) (\<lambda>rs. Q (r # rs)))"
  by (simp add: wp)

lemma run_cases_append:
  "ensures (run_cases (cs @ cs') w) Q =
    ensures (run_cases cs w) (\<lambda>rs w. ensures (run_cases cs' w) (\<lambda>rs'. Q (rs @ rs')))"
  by (induction cs arbitrary: w Q) (simp_all add: wp)

text \<open>A case that passes, and then the other cases.\<close>

definition passes ::
    "kernel \<Rightarrow> nat \<Rightarrow> (u64 \<times> nat) list \<Rightarrow> nat client \<Rightarrow> world \<Rightarrow> (world \<Rightarrow> bool) \<Rightarrow> bool" where
  "passes K d A c w P \<longleftrightarrow>
    ensures (c w) (\<lambda>r w'. r = Inr 0 \<and> served K d w w' \<and> kept A w w' \<and> P w')"

lemma next_case:
  assumes "passes K d A c w P"
    and "\<And>w'. P w' \<Longrightarrow> ensures (run_cases cs w') (\<lambda>rs w''. rs = replicate n (Inr 0) \<and> served K d w' w'' \<and> kept A w' w'')"
  shows "ensures (run_cases (c # cs) w) (\<lambda>rs w''. rs = replicate (Suc n) (Inr 0) \<and> served K d w w'' \<and> kept A w w'')"
  unfolding ensures_run_cases
  by (rule ensures_mono [OF assms(1) [unfolded passes_def]], rule ensures_mono [OF assms(2)])
    (auto intro: served_trans kept_trans)

context reader_writer_class
begin

lemma suite_passes:
  assumes "sampled K d fd serves helix 64 w" and "layout stack helix buffer expected"
    and "T = test_object (make K stack fd) helix buffer expected"
  shows "ensures (run_cases (suite_cases T) w) (\<lambda>rs w'. rs = replicate 6 (Inr 0) \<and> served K d w w' \<and>
    kept (area stack buffer expected) w w')"
proof -
  have T: "readerWriter T = make K stack fd" "readBuffer T = buffer" "bufferHelix T = helix"
    "expectedBuffer T = expected" by (simp_all add: assms(3) test_object_def)
  have six: "replicate 6 (Inr 0 :: exn + nat) = replicate (Suc (Suc (Suc (Suc (Suc (Suc 0)))))) (Inr 0)"
    by (simp add: numeral_eq_Suc)
  let ?at = "sampled K d fd serves helix"
  let ?A = "area stack buffer expected"
  have c1: "passes K d ?A (testReadSingle T) w (?at 64)" if "?at 64 w" for w
    unfolding passes_def by (rule steps_sampled [OF that assms(2) testReadSingle_steps [OF _ _ T(1)]])
  have c2: "passes K d ?A (testReadSingleWithError T) w (?at 64)" if "?at 64 w" for w
    unfolding passes_def by (rule steps_sampled [OF that assms(2) testReadSingleWithError_steps [OF _ _ T(1)]])
  have c3: "passes K d ?A (testWriteSingle T) w (?at (64 + 1))" if "?at 64 w" for w
    unfolding passes_def by (rule steps_sampled [OF that assms(2) testWriteSingle_steps [OF _ _ T(1)]])
  have c4: "passes K d ?A (testWriteSingleWithError T) w (?at (64 + 1))" if "?at (64 + 1) w" for w
    unfolding passes_def by (rule steps_sampled [OF that assms(2) testWriteSingleWithError_steps [OF _ _ T(1)]])
  have c5: "passes K d ?A (testReadArea T) w (?at (64 + 1))" if "?at (64 + 1) w" for w
    unfolding passes_def by (rule testReadArea_passes [OF that assms(2) T(1,2)])
  have c6: "passes K d ?A (testWriteArea T) w (world_ok K)" if "?at (64 + 1) w" for w
    unfolding passes_def by (rule ensures_mono [OF testWriteArea_passes [OF that assms(2) T]]) (simp add: served_def)
  show ?thesis
    unfolding suite_cases_def six
    by (rule next_case [OF c1 [OF assms(1)]], rule next_case [OF c2], assumption,
      rule next_case [OF c3], assumption, rule next_case [OF c4], assumption,
      rule next_case [OF c5], assumption, rule next_case [OF c6], assumption) simp
qed

end

lemma test_new_eq:
  "MtcaDummyTest_new rw helix buffer expected w =
    and_then (writeArea rw 0 2 (of_nat N_WORDS_DMA) helix)
      (\<lambda>_. give (test_object rw helix buffer expected)) (put_vector helix helix_words w)"
  by (simp add: MtcaDummyTest_new_def test_object_def)

text \<open>What making a suite changes: a file, the DMA bar of its device, its vector and the stack.\<close>

definition starts :: "kernel \<Rightarrow> nat \<Rightarrow> u64 \<Rightarrow> u64 \<Rightarrow> world \<Rightarrow> world \<Rightarrow> bool" where
  "starts K d stack helix w w' \<longleftrightarrow>
    (\<exists>u. opens K d w u \<and> served K d u w' \<and> kept [stack_of stack, vector_region helix] w w')"

lemma startsD:
  assumes "starts K d stack helix w w'"
  shows "world_ok K w'" "switches_off w \<Longrightarrow> switches_off w'" "registered (kern w') = registered (kern w)"
    "e < MTCADUMMY_NR_DEVS \<Longrightarrow> e \<noteq> d \<Longrightarrow> bars e w' = bars e w"
    "attached K e fd w \<Longrightarrow> attached K e fd w'" "kept [stack_of stack, vector_region helix] w w'"
  using assms opens_other [of K d w _ e fd] served_attached [of K e fd _ d w']
  by (auto simp: starts_def opens_def served_def switches_off_def)

lemma opens_kept: "opens K d w u \<Longrightarrow> kept rs w u"
  by (rule kept_same) (simp add: opens_def)

lemma square_eight: "helix_words[8 := 64] = helix_words"
  by (simp add: helix_words_eq list_update_append square_def map_update upt_conv_Cons numeral_eq_Suc)

context reader_writer_class
begin

lemma test_new_ok:
  assumes "connected serves K d fd w" and "regs (kern w) d ! 15 = MTCADUMMY_DMMY_AS_ASCII"
    and "disjoint (stack_of stack) (vector_region helix)"
  shows "ensures (MtcaDummyTest_new (make K stack fd) helix buffer expected w) (\<lambda>r w'.
    r = Inr (test_object (make K stack fd) helix buffer expected) \<and> served K d w w' \<and>
    kept [stack_of stack, vector_region helix] w w' \<and> sampled K d fd serves helix 64 w')"
proof -
  let ?w = "put_vector helix helix_words w"
  obtain rs ds where b: "bars d w = (rs, ds)" by (cases "bars d w")
  have hv: "vector_at helix N_WORDS_DMA ?w = helix_words" by (rule vector_at_put) simp_all
  have k: "kept [stack_of stack, vector_region helix] w ?w"
    by (rule kept_more [OF put_vector_kept]) (simp add: vector_region_def)
  have "connected serves K d fd ?w" "bars d ?w = (rs, ds)" using assms(1) b by simp_all
  note area = write_part [OF this, where off = 0 and m = 0 and n = "of_nat N_WORDS_DMA" and k = N_WORDS_DMA
      and a = helix and stack = stack, unfolded hv]
  have len: "length ds = N_WORDS_DMA" using connected_lengths(2) [OF assms(1) b] by simp
  have stored: "ensures (writeArea (make K stack fd) 0 2 (of_nat N_WORDS_DMA) helix ?w) (\<lambda>r w'.
      r = Inr () \<and> served K d ?w w' \<and> kept [stack_of stack] ?w w' \<and> bars d w' = (rs, helix_words))"
    using area assms(3) len by simp
  show ?thesis
    unfolding test_new_eq client_wp
  proof (rule ensures_mono [OF stored], goal_cases)
    case (1 r w')
    then have kw: "kept [stack_of stack, vector_region helix] w w'"
      using kept_trans [OF k kept_more [where rs' = "[stack_of stack, vector_region helix]"]] by fastforce
    have "vector_at helix N_WORDS_DMA w' = vector_at helix N_WORDS_DMA ?w"
      by (rule vector_kept) (use 1 assms(3) in \<open>auto simp: vector_region_def\<close>)
    moreover have sv: "served K d w w'" using 1 by simp
    moreover note connected_served [OF assms(1) sv]
    moreover have "rs ! 15 = MTCADUMMY_DMMY_AS_ASCII" using b assms(2) by (simp add: bars_eq)
    ultimately have "sampled K d fd serves helix 64 w'"
      using 1 hv by (simp add: sampled_def square_eight)
    with 1 kw show ?case by simp
  qed
qed

lemma suite_ok:
  assumes "quiet K" and "world_ok K w" and "switches_off w" and "d < MTCADUMMY_NR_DEVS" and "d \<noteq> 5"
    and "serves d" and "device_of_path path w = Some d"
    and "regs (kern w) d ! 15 = MTCADUMMY_DMMY_AS_ASCII"
    and "disjoint (stack_of stack) (vector_region helix)"
  shows "ensures (MtcaDummyTestSuite make K stack helix buffer expected path w) (\<lambda>r w'.
    r = Inr (suite_cases (test_object (make K stack (descriptor (length (files w)))) helix buffer expected)) \<and>
    starts K d stack helix w w' \<and> sampled K d (descriptor (length (files w))) serves helix 64 w')"
  unfolding MtcaDummyTestSuite_def client_wp
proof (rule ensures_mono [OF ReaderWriter_open_device [OF assms(1,2)
    assms(3) [unfolded switches_off_def, THEN conjunct1] assms(4,5,7)]], goal_cases)
  case (1 r u)
  let ?fd = "descriptor (length (files w))"
  have u: "opens K d w u" and r: "r = Inr ?fd" using 1 by simp_all
  have c: "connected serves K d ?fd u"
    using opens_attached [OF u assms(3-5)] assms(1,6) by (simp add: connected_def)
  have dummy: "regs (kern u) d ! 15 = MTCADUMMY_DMMY_AS_ASCII"
    using u assms(4,8) by (simp add: opens_def bars_def)
  show ?case
    unfolding r sum.case
    by (rule ensures_mono [OF test_new_ok [OF c dummy assms(9)]])
      (use u opens_kept [OF u] in \<open>auto simp: suite_cases_def starts_def intro: kept_trans\<close>)
qed

end

definition test_program ::
    "kernel \<Rightarrow> u64 \<Rightarrow> u64 \<Rightarrow> u64 \<Rightarrow> u64 \<Rightarrow> u64 \<Rightarrow> world \<Rightarrow> ((exn + nat) list \<times> world) option" where
  "test_program K stack helix0 helix6 buffer expected w = do {
     (r, w) \<leftarrow> init_unit_test_suite K stack helix0 helix6 buffer expected w;
     case r of Inl e \<Rightarrow> Some ([Inl e], w) | Inr cases \<Rightarrow> run_cases cases w
   }"

definition program_layout :: "u64 \<Rightarrow> u64 \<Rightarrow> u64 \<Rightarrow> u64 \<Rightarrow> u64 \<Rightarrow> bool" where
  "program_layout stack helix0 helix6 buffer expected \<longleftrightarrow>
    sorted_wrt apart (stack_of stack # map vector_region [helix0, helix6, buffer, expected])"

lemma program_layoutD:
  assumes "program_layout stack helix0 helix6 buffer expected"
  shows "layout stack helix0 buffer expected" "layout stack helix6 buffer expected"
    "disjoint (stack_of stack) (vector_region helix0)" "disjoint (stack_of stack) (vector_region helix6)"
    "disjoint (vector_region helix6) (vector_region helix0)"
  using assms apart_disjoint [of "stack_of stack"] apart_disjoint [of "vector_region helix0", THEN disjoint_sym]
  by (simp_all add: program_layout_def layout_def)

lemma find_append:
  "List.find P (xs @ ys) = (case List.find P xs of None \<Rightarrow> List.find P ys | Some x \<Rightarrow> Some x)"
  by (induction xs) simp_all

text \<open>The paths the program uses name the devices 0 and 6.\<close>

lemma device_paths:
  "DevNode 0 \<in> registered (kern w) \<Longrightarrow> device_of_path (''/dev/'' @ MTCADUMMY_NAME @ ''s0'') w = Some 0"
  "DevNode 6 \<in> registered (kern w) \<Longrightarrow> device_of_path (''/dev/'' @ PCIEUNIDUMMY_NAME @ ''s6'') w = Some 6"
proof -
  note names = MTCADUMMY_NAME_def LLRFDUMMY_NAME_def NOIOCTLDUMMY_NAME_def PCIEUNIDUMMY_NAME_def
  have digits: "show_int 0 = ''0''" "show_int 6 = ''6''"
    by (simp_all add: show_int_def dec_digits.simps char_of_def bit_0)
  show "DevNode 0 \<in> registered (kern w) \<Longrightarrow> device_of_path (''/dev/'' @ MTCADUMMY_NAME @ ''s0'') w = Some 0"
    by (simp add: device_of_path_def device_name_def digits size_defs upt_rec)
  have "''/dev/'' @ PCIEUNIDUMMY_NAME @ ''s6'' \<noteq> ''/dev/'' @ device_name i" if "i < 6" for i
    using that by (auto simp: device_name_def names)
  then have "List.find (\<lambda>i. ''/dev/'' @ PCIEUNIDUMMY_NAME @ ''s6'' = ''/dev/'' @ device_name i \<and>
      DevNode i \<in> registered (kern w)) [0..<6] = None"
    by (auto simp: find_None_iff)
  moreover have "[0..<7] = [0..<6] @ [6 :: nat]" by (simp add: upt_rec)
  moreover assume "DevNode 6 \<in> registered (kern w)"
  ultimately show "device_of_path (''/dev/'' @ PCIEUNIDUMMY_NAME @ ''s6'') w = Some 6"
    by (simp add: device_of_path_def size_defs find_append device_name_def digits)
qed

lemma both_suites_pass:
  assumes "sampled K 0 fd0 (\<lambda>d. d < 5) helix0 64 w" and "sampled K 6 fd6 (\<lambda>d. d = 6) helix6 64 w"
    and "program_layout stack helix0 helix6 buffer expected"
  shows "ensures (run_cases
      (suite_cases (test_object (StructReaderWriter K stack fd0) helix0 buffer expected) @
       suite_cases (test_object (NormalReaderWriter K stack fd6) helix6 buffer expected)) w)
    (\<lambda>rs w'. rs = replicate 12 (Inr 0))"
  unfolding run_cases_append
proof (rule ensures_mono [OF struct_class.suite_passes [OF assms(1) program_layoutD(1) [OF assms(3)] refl]], goal_cases)
  case (1 rs u)
  then have u: "served K 0 w u" "kept (area stack buffer expected) w u" and rs: "rs = replicate 6 (Inr 0)"
    by simp_all
  have "sampled K 6 fd6 (\<lambda>d. d = 6) helix6 64 u"
    by (rule sampled_other [OF assms(2) program_layoutD(2) [OF assms(3)] u]) simp
  from normal_class.suite_passes [OF this program_layoutD(2) [OF assms(3)] refl]
  show ?case by (rule ensures_mono) (simp add: rs replicate_add [symmetric])
qed

lemma test_program_ok:
  assumes "quiet K" and "world_ok K w" and "switches_off w"
    and "DevNode 0 \<in> registered (kern w)" and "DevNode 6 \<in> registered (kern w)"
    and "regs (kern w) 0 ! 15 = MTCADUMMY_DMMY_AS_ASCII"
    and "regs (kern w) 6 ! 15 = MTCADUMMY_DMMY_AS_ASCII"
    and "program_layout stack helix0 helix6 buffer expected"
  shows "ensures (test_program K stack helix0 helix6 buffer expected w) (\<lambda>rs w'. rs = replicate 12 (Inr 0))"
proof -
  have n: "0 < MTCADUMMY_NR_DEVS" "6 < MTCADUMMY_NR_DEVS" by (simp_all add: size_defs)
  note lay = program_layoutD [OF assms(8)]
  let ?fd = "\<lambda>w. descriptor (length (files w))"
  note first = struct_class.suite_ok [OF assms(1-3) n(1) _ _ device_paths(1) [OF assms(4)] assms(6) lay(3)]
  show ?thesis
    unfolding test_program_def init_unit_test_suite_def ensures_bind client_wp
  proof (rule ensures_mono [OF first], simp, simp, goal_cases)
    case (1 r u)
    then have st: "starts K 0 stack helix0 w u" and s0: "sampled K 0 (?fd w) (\<lambda>d. d < 5) helix0 64 u"
      and r: "r = Inr (suite_cases (test_object (StructReaderWriter K stack (?fd w)) helix0 buffer expected))"
      by simp_all
    have dev: "DevNode 6 \<in> registered (kern u)" using assms(5) startsD(3) [OF st] by simp
    have "bars 6 u = bars 6 w" by (rule startsD(4) [OF st n(2)]) simp
    then have dummy: "regs (kern u) 6 ! 15 = MTCADUMMY_DMMY_AS_ASCII" using assms(7) by (simp add: bars_def)
    note second = normal_class.suite_ok [OF assms(1) startsD(1,2) [OF st] n(2) _ _ device_paths(2) [OF dev] dummy lay(4)]
    show ?case
      unfolding r sum.case client_wp
    proof (rule ensures_mono [OF second], rule assms(3), simp, simp, goal_cases)
      case (1 r' v)
      then have st': "starts K 6 stack helix6 u v" and s6: "sampled K 6 (?fd u) (\<lambda>d. d = 6) helix6 64 v"
        and r': "r' = Inr (suite_cases (test_object (NormalReaderWriter K stack (?fd u)) helix6 buffer expected))"
        by simp_all
      have "connected (\<lambda>d. d < 5) K 0 (?fd w) v"
        using s0 startsD(5) [OF st', of 0 "?fd w"] by (simp add: sampled_def connected_def)
      moreover have "bars 0 v = bars 0 u" by (rule startsD(4) [OF st' n(1)]) simp
      ultimately have "sampled K 0 (?fd w) (\<lambda>d. d < 5) helix0 64 v"
        by (rule sampled_frame [OF s0 _ _ startsD(6) [OF st']]) (use lay(3,5) in auto)
      from both_suites_pass [OF this s6 assms(8)] show ?case
        unfolding r' sum.case client_wp .
    qed
  qed
qed

end
