(* ===== verification/Client_Properties.thy ===== *)
theory Client_Properties
  imports Client_Tests System_Properties
begin

text \<open>
  The properties of the user space library and of its test program: both classes keep the
  contract of \<open>ReaderWriter\<close> and give the same results, and the test program passes in every
  world that processes can reach while the error switches are off.
\<close>

section \<open>The registers that identify the firmware\<close>

definition identified :: "kernel \<Rightarrow> u32 list \<Rightarrow> bool" where
  "identified K rs \<longleftrightarrow>
    rs ! 0 = VERSION_MAJ K \<and> rs ! 1 = VERSION_MIN K \<and> rs ! 15 = MTCADUMMY_DMMY_AS_ASCII"

lemma spec_write_identified:
  assumes "identified K rs" and "length rs = MTCADUMMY_N_REGISTERS"
    and "spec_write K False f bar off v rs ds = (e, rs', ds')"
  shows "identified K rs' \<and> length rs' = MTCADUMMY_N_REGISTERS"
proof (cases "bar = 0 \<and> valid_offset off rs")
  case False
  with assms show ?thesis
    by (auto simp: spec_write_def bar_words_def split: if_splits)
next
  case True
  then have al: "off mod 4 = 0" by (simp add: valid_offset_def)
  note eq = REG_inj [OF al, of MTCADUMMY_WORD_FIRMWARE] REG_inj [OF al, of MTCADUMMY_WORD_COMPILATION]
    REG_inj [OF al, of MTCADUMMY_WORD_DUMMY]
  have id: "REG off = 0 \<longleftrightarrow> off = MTCADUMMY_WORD_FIRMWARE"
    "REG off = 1 \<longleftrightarrow> off = MTCADUMMY_WORD_COMPILATION" "REG off = 15 \<longleftrightarrow> off = MTCADUMMY_WORD_DUMMY"
    using eq unfolding REG_simps by (simp_all add: register_defs)
  have len: "length rs = 32" using assms(2) by (simp add: size_defs)
  consider "off = MTCADUMMY_WORD_CLK_RST" | "off = MTCADUMMY_WORD_ADC_ENA"
    | "off = MTCADUMMY_WORD_FIRMWARE" | "off = MTCADUMMY_WORD_COMPILATION" | "off = MTCADUMMY_WORD_DUMMY"
    | "off = MTCADUMMY_WORD_SPI_WRITE"
    | "off \<notin> {MTCADUMMY_WORD_CLK_RST, MTCADUMMY_WORD_ADC_ENA, MTCADUMMY_WORD_FIRMWARE,
        MTCADUMMY_WORD_COMPILATION, MTCADUMMY_WORD_DUMMY, MTCADUMMY_WORD_SPI_WRITE}" by blast
  then show ?thesis
    by cases (use assms(1,3) True id len in \<open>auto simp: spec_write_def bar_words_def spec_action_def
      identified_def clear_clocks_def size_defs nth_list_update register_defs REG_def split: if_splits\<close>)
qed

lemma spec_writes_identified:
  "identified K rs \<Longrightarrow> length rs = MTCADUMMY_N_REGISTERS \<Longrightarrow>
    spec_writes K f bar a vs rs ds = (e, rs', ds') \<Longrightarrow> identified K rs'"
proof (induction vs arbitrary: a rs ds)
  case (Cons v vs)
  obtain e1 rs1 ds1 where one: "spec_write K False f bar (of_nat (4 * a)) v rs ds = (e1, rs1, ds1)"
    by (metis prod_cases3)
  note id = spec_write_identified [OF Cons.prems(1,2) one]
  show ?case
    using Cons.prems(3) Cons.IH [of rs1 "Suc a" ds1] id unfolding spec_writes.simps one
    by (auto split: if_splits)
qed simp

lemma call_write_identified:
  assumes "quiet K" and "idle s" and "handle_ok h" and "unat count \<le> MAX_RW_COUNT"
    and "identified K (regs s (fh_dev h))"
  shows "ensures (call_write (fop_write (file_ops_of (fh_dev h))) K (fh_file h) buf count pos s)
    (\<lambda>_ t. identified K (regs t (fh_dev h)))"
proof -
  let ?d = "fh_dev h"
  note h = handle_device [OF assms(3)]
  have len: "length (regs s ?d) = MTCADUMMY_N_REGISTERS"
    by (rule wf_length_regs [OF idle_wf [OF assms(2)] h(1)])
  consider "?d = 5" | "?d = 6" | "?d \<noteq> 5" "?d \<noteq> 6" by blast
  then show ?thesis
  proof cases
    case 1
    with assms(5) h(1) show ?thesis by (simp add: call_write_def file_ops_cases)
  next
    case 2
    have "ensures (mtcaDummy_write_no_struct K (fh_file h) buf count pos s) (\<lambda>_ t. identified K (regs t ?d))"
    proof (rule ensures_mono [OF mtcaDummy_write_no_struct_refines
          [OF assms(2) h(2) h(1) quietD(1) [OF assms(1)] assms(4)]], goal_cases)
      case (2 x t)
      obtain r f where x: "x = (r, f)" by (cases x)
      show ?case
      proof (cases "checkAndCalculateTransferInformation (devs s ! ?d) count pos")
        case (Inl e)
        with 2 assms(5) show ?thesis by (simp add: x)
      next
        case (Inr ti)
        show ?thesis
        proof (cases "write_error (control s)")
          case True
          with 2 Inr assms(5) show ?thesis by (simp add: x quiet_gate [OF assms(1)])
        next
          case False
          with 2 Inr obtain k where o: "write_outcome K ?d s ti buf pos k r f (regs t ?d) (dma t ?d)"
            by (auto simp: x quiet_gate [OF assms(1)])
          obtain e rs ds where sw: "spec_writes K (spi_error (control s)) (ti_bar ti) (first_word ti)
              (user_words (umem s) buf (n_words ti)) (regs s ?d) (dma s ?d) = (e, rs, ds)"
            by (metis prod_cases3)
          from quiet_write_outcome [OF assms(1) o] sw have "regs t ?d = rs" by (simp split: if_splits)
          with spec_writes_identified [OF assms(5) len sw] show ?thesis by simp
        qed
      qed
    qed (use 2 in simp)
    with 2 h(1) show ?thesis by (simp add: call_write_def file_ops_cases)
  next
    case 3
    have "ensures (mtcaDummy_write K (fh_file h) buf count s) (\<lambda>_ t. identified K (regs t ?d))"
    proof (rule ensures_mono [OF mtcaDummy_write_refines [OF assms(2) h(2) h(1)]], goal_cases)
      case (2 r t)
      then show ?case
        using assms(5) spec_write_identified [OF assms(5) len]
        by (auto simp: quietD [OF assms(1)] quiet_gate [OF assms(1)] split: prod.splits if_splits)
    qed (use 3 in simp)
    with 3 h(1) show ?thesis
      by (auto simp: call_write_def file_ops_cases keep_position_def wp elim!: ensures_mono)
  qed
qed

lemma exec_call_identified:
  assumes "quiet K" and "world_ok K w" and "permitted K c w" and "exec_call K c w = Some (r, w')"
    and "\<And>e. e < MTCADUMMY_NR_DEVS \<Longrightarrow> identified K (regs (kern w) e)" and "e < MTCADUMMY_NR_DEVS"
  shows "identified K (regs (kern w') e)"
proof (cases "e \<in> written c w")
  case False
  from exec_call_ok [OF assms(2,3) quietD(1) [OF assms(1)]] assms(4) have "frame c w w'" by simp
  with False assms(5,6) show ?thesis by (simp add: frame_def)
next
  case True
  then obtain i buf count where c: "c = Write i buf count" and e: "e = fh_dev (files w ! i)"
    by (cases c) auto
  have p: "i < length (files w)" "unat count \<le> MAX_RW_COUNT" using assms(3) c by simp_all
  note h = world_okD(3) [OF assms(2) p(1)]
  note ops = world_okD(2) [OF assms(2) handle_device(1) [OF h]]
  have "ensures (exec_call K c w) (\<lambda>_ w'. identified K (regs (kern w') e))"
    unfolding c exec_call.simps Let_def ops
    using call_write_identified [OF assms(1) world_okD(1) [OF assms(2)] h p(2), of buf "fh_pos (files w ! i)"]
      assms(5,6) e
    by (auto simp: wp case_prod_beta elim!: ensures_mono)
  with assms(4) show ?thesis by simp
qed

lemma reachable_identified:
  assumes "reachable K s w" and "kmalloc_ok K" and "quiet K" and "held s = {}" and "registered s = {}"
  shows "\<forall>e < MTCADUMMY_NR_DEVS. identified K (regs (kern w) e)"
  using assms(1)
proof induction
  case (load t)
  with mtcaDummy_init_module_refines [OF assms(2,4,5)] have "loaded K s t" by simp
  then show ?case by (auto simp: loaded_def identified_def initial_regs_def size_defs register_defs)
next
  case (call w c r w')
  then have p: "permitted K c w" "exec_call K c w = Some (r, w')" by (auto elim: stepE)
  note w = reachable_world_ok [OF call.hyps(1) assms(2) quietD(1) [OF assms(3)] assms(4,5)]
  show ?case
    using exec_call_identified [OF assms(3) w p] call.IH by blast
qed

section \<open>Sequences of accesses\<close>

text \<open>
  A program that uses a \<open>ReaderWriter\<close> word by word and goes on after an exception, with the
  result or the exception of each access; and what the device makes of it. \<open>word_or_none\<close>
  forgets the message of an exception: the two classes use different messages (for a bar
  number above 5, one reports an error of reading, the other a number that is too large).
\<close>

datatype access = Get u32 u32 | Put u32 u32 u32

fun perform :: "reader_writer \<Rightarrow> access list \<Rightarrow> world \<Rightarrow> ((exn + u32) list \<times> world) option" where
  "perform rw [] w = Some ([], w)"
| "perform rw (Get off bar # as) w = do {
     (r, w) \<leftarrow> readSingle rw off bar w;
     (rs, w) \<leftarrow> perform rw as w;
     Some (r # rs, w)
   }"
| "perform rw (Put off bar v # as) w = do {
     (r, w) \<leftarrow> writeSingle rw off bar v w;
     (rs, w) \<leftarrow> perform rw as w;
     Some ((case r of Inl e \<Rightarrow> Inl e | Inr _ \<Rightarrow> Inr 0) # rs, w)
   }"

definition word_or_none :: "'e + u32 \<Rightarrow> u32 option" where
  "word_or_none r = (case r of Inl _ \<Rightarrow> None | Inr v \<Rightarrow> Some v)"

lemma word_or_none_simps [simp]:
  "word_or_none (Inl e) = None" "word_or_none (Inr v) = Some v"
  by (simp_all add: word_or_none_def)

fun spec_perform ::
    "kernel \<Rightarrow> bool \<Rightarrow> access list \<Rightarrow> u32 list \<Rightarrow> u32 list \<Rightarrow> u32 option list \<times> u32 list \<times> u32 list" where
  "spec_perform K f [] rs ds = ([], rs, ds)"
| "spec_perform K f (Get off bar # as) rs ds =
    (case spec_perform K f as rs ds of
       (res, b) \<Rightarrow> ((case spec_read bar off rs ds of Inl _ \<Rightarrow> None | Inr v \<Rightarrow> Some v) # res, b))"
| "spec_perform K f (Put off bar v # as) rs ds =
    (case spec_write K False f bar off v rs ds of
       (e, rs', ds') \<Rightarrow>
         case spec_perform K f as rs' ds' of (res, b) \<Rightarrow> ((if e = 0 then Some 0 else None) # res, b))"

context word_access
begin

lemma perform_refines:
  "connected serves K d fd w \<Longrightarrow> bars d w = (rs, ds) \<Longrightarrow>
    ensures (perform (make K stack fd) as w) (\<lambda>res w'.
      (map word_or_none res, bars d w') = spec_perform K (spi w) as rs ds)"
proof (induction as arbitrary: w rs ds)
  case Nil
  then show ?case by simp
next
  case (Cons a as)
  show ?case
  proof (cases a)
    case (Get off bar)
    show ?thesis
      unfolding Get perform.simps ensures_bind
    proof (rule ensures_mono [OF single_read [OF Cons.prems]], goal_cases)
      case (1 r u)
      then have u: "served K d w u" "bars d u = (rs, ds)" by simp_all
      show ?case
        by (rule ensures_mono [OF Cons.IH [OF connected_served [OF Cons.prems(1) u(1)] u(2)]])
          (use 1 in \<open>auto simp: served_spi [OF u(1)] isl_def split: sum.splits prod.split\<close>)
    qed
  next
    case (Put off bar v)
    obtain e rs' ds' where sw: "spec_write K False (spi w) bar off v rs ds = (e, rs', ds')"
      by (metis prod_cases3)
    show ?thesis
      unfolding Put perform.simps ensures_bind
    proof (rule ensures_mono [OF single_write [OF Cons.prems sw]], goal_cases)
      case (1 r u)
      then have u: "served K d w u" "bars d u = (rs', ds')" by simp_all
      show ?case
        by (rule ensures_mono [OF Cons.IH [OF connected_served [OF Cons.prems(1) u(1)] u(2)]])
          (use 1 sw in \<open>auto simp: served_spi [OF u(1)] isl_def split: if_splits prod.split\<close>)
    qed
  qed
qed

end

section \<open>The reference machine with an open file\<close>

lemma ref_opened_attached:
  assumes "d < MTCADUMMY_NR_DEVS" and "d \<noteq> 5"
  shows "attached ref_kernel d 3 (ref_opened d)"
proof -
  have "world_ok ref_kernel (ref_opened d)"
    by (rule reachable_world_ok [OF ref_opened_reachable [OF assms]]) simp_all
  with assms show ?thesis by (simp add: attached_iff file_index_def) (simp add: ref_opened_def)
qed

lemma ref_opened_bars:
  assumes "d < MTCADUMMY_NR_DEVS" and "e < MTCADUMMY_NR_DEVS"
  shows "bars e (ref_opened d) = (initial_regs ref_kernel, replicate DMA_WORDS 0)"
    and "spi (ref_opened d) = False"
proof -
  have "loaded ref_kernel ref_unloaded ref_loaded"
    using mtcaDummy_init_module_refines [OF ref_kmalloc_ok ref_unloaded_simps] by (simp add: ref_init)
  then have "bars e ref_world = (initial_regs ref_kernel, replicate DMA_WORDS 0)"
    using assms(2) by (simp add: loaded_def bars_def ref_world_def)
  moreover have "wf_sys (flag_read (kern ref_world))"
    using idle_wf flag_read_simps(10) [OF world_okD(1) [OF ref_world_ok]] by blast
  ultimately show "bars e (ref_opened d) = (initial_regs ref_kernel, replicate DMA_WORDS 0)"
    using assms by (simp add: ref_opened_def bars_def)
  show "spi (ref_opened d) = False" by (simp add: ref_opened_def spi_def)
qed

section \<open>The properties\<close>

text \<open>The devices that an implementation of the class can be used with.\<close>

definition implementation :: "(kernel \<Rightarrow> u64 \<Rightarrow> int \<Rightarrow> reader_writer) \<Rightarrow> nat \<Rightarrow> bool" where
  "implementation construct d \<longleftrightarrow>
    construct = StructReaderWriter \<and> d < 5 \<or> construct = NormalReaderWriter \<and> d = 6"

lemma implementationE:
  assumes "implementation construct d" and "quiet K" and "attached K d fd w"
  obtains serves where "reader_writer_class construct serves" and "connected serves K d fd w"
proof (cases "construct = StructReaderWriter \<and> d < 5")
  case True
  with assms that [of "\<lambda>d. d < 5"] struct_class.reader_writer_class_axioms show ?thesis
    by (simp add: connected_def)
next
  case False
  with assms that [of "\<lambda>d. d = 6"] normal_class.reader_writer_class_axioms show ?thesis
    by (auto simp: connected_def implementation_def)
qed

text \<open>
  C16. The contract of the class \<open>ReaderWriter\<close> for single words, which both implementations
  keep: reading gives the word of the bar, writing stores it with the action of the
  firmware, an access the device refuses (a bar that is missing, an offset outside of it or
  between two words, a broken register) ends in an exception, and in no case has anything
  but the bars of the device and the 24 bytes of the local variables changed.
\<close>

theorem reader_writer_words:
  assumes "implementation construct d" and "quiet K" and "attached K d fd w" and "bars d w = (rs, ds)"
  shows "ensures (readSingle (construct K stack fd) off bar w) (\<lambda>r w'.
      served K d w w' \<and> bars d w' = (rs, ds) \<and> kept [(stack, 24)] w w' \<and>
      (case spec_read bar off rs ds of Inl _ \<Rightarrow> isl r | Inr v \<Rightarrow> r = Inr v)) \<and>
    (case spec_write K False (spi w) bar off x rs ds of (e, b) \<Rightarrow>
      ensures (writeSingle (construct K stack fd) off bar x w) (\<lambda>r w'.
        served K d w w' \<and> bars d w' = b \<and> kept [(stack, 24)] w w' \<and>
        (if e = 0 then r = Inr () else isl r)))"
proof -
  obtain serves where c: "reader_writer_class construct serves" "connected serves K d fd w"
    using assms(1-3) by (rule implementationE)
  then have words: "word_access construct serves" by (simp add: reader_writer_class_def)
  obtain e rs' ds' where sw: "spec_write K False (spi w) bar off x rs ds = (e, rs', ds')"
    by (metis prod_cases3)
  from word_access.single_read [OF words c(2) assms(4)] word_access.single_write [OF words c(2) assms(4) sw]
  show ?thesis by (simp add: sw stack_of_def)
qed

theorem reader_writer_words_witness:
  "\<exists>w. readSingle (NormalReaderWriter ref_kernel 0x1000 3) 0x3C 0 (ref_opened 6) =
    Some (Inr MTCADUMMY_DMMY_AS_ASCII, w)"
proof -
  have six: "6 < MTCADUMMY_NR_DEVS" by (simp add: size_defs)
  have i: "implementation NormalReaderWriter 6" by (simp add: implementation_def)
  have v: "spec_read 0 0x3C (initial_regs ref_kernel) (replicate DMA_WORDS 0) = Inr MTCADUMMY_DMMY_AS_ASCII"
    by (simp add: ref_eval REG_def)
  note words = reader_writer_words [OF i ref_quiet ref_opened_attached [OF six] ref_opened_bars(1) [OF six six]]
  from words [THEN conjunct1, of "0x1000" "0x3C" 0] show ?thesis
    unfolding v ensures_iff by auto
qed

text \<open>
  C17. Areas: in both implementations, one of which transfers the words one by one, reading an
  area within a bar fills exactly the buffer with the words of the bar, and writing one has
  the effect of writing its words one after the other, each with its action, up to the first
  one that fails, which is an exception.
\<close>

theorem reader_writer_areas:
  assumes "implementation construct d" and "quiet K" and "attached K d fd w" and "bars d w = (rs, ds)"
    and "in_bar bar off (unat n) rs ds ws a" and "disjoint (stack, 24) (buf, 4 * unat n)"
  shows "(readable bar a (unat n) \<longrightarrow>
      ensures (readArea (construct K stack fd) off bar n buf w) (\<lambda>r w'.
        r = Inr () \<and> served K d w w' \<and> bars d w' = (rs, ds) \<and>
        kept [(stack, 24), (buf, 4 * unat n)] w w' \<and>
        get_memory buf (4 * unat n) w' = bytes_of_words (take (unat n) (drop a ws)))) \<and>
    (case spec_writes K (spi w) bar a (user_words (umem (kern w)) buf (unat n)) rs ds of (e, b) \<Rightarrow>
      ensures (writeArea (construct K stack fd) off bar n buf w) (\<lambda>r w'.
        served K d w w' \<and> bars d w' = b \<and> kept [(stack, 24)] w w' \<and>
        (if e = 0 then r = Inr () else isl r)))"
proof -
  obtain serves where c: "reader_writer_class construct serves" "connected serves K d fd w"
    using assms(1-3) by (rule implementationE)
  have dj: "disjoint (stack_of stack) (buf, 4 * unat n)" using assms(6) by (simp add: stack_of_def)
  obtain e rs' ds' where sw:
    "spec_writes K (spi w) bar a (user_words (umem (kern w)) buf (unat n)) rs ds = (e, rs', ds')"
    by (metis prod_cases3)
  note area = reader_writer_class.area_read [OF c(1) c(2) assms(4,5) _ dj]
    reader_writer_class.area_write [OF c(1) c(2) assms(4,5) dj sw]
  show ?thesis
    unfolding sw prod.case stack_of_def [symmetric]
    by (intro conjI impI area(2) ensures_mono [OF area(1)]) simp_all
qed

theorem reader_writer_areas_witness:
  "\<exists>w. readArea (StructReaderWriter ref_kernel 0x1000 3) 0x3C 0 2 0x2000 (ref_opened 1) = Some (Inr (), w) \<and>
    get_memory 0x2000 8 w = bytes_of_words [MTCADUMMY_DMMY_AS_ASCII, 1]"
proof -
  have one: "1 < MTCADUMMY_NR_DEVS" by (simp add: size_defs)
  have i: "implementation StructReaderWriter 1" by (simp add: implementation_def)
  have b: "in_bar 0 0x3C (unat (2 :: u32)) (initial_regs ref_kernel) (replicate DMA_WORDS 0)
      (initial_regs ref_kernel) 15"
    by (simp add: in_bar_def bar_words_def initial_regs_def size_defs)
  have dj: "disjoint (0x1000, 24) (0x2000, 4 * unat (2 :: u32))"
    by (rule apart_disjoint) (simp add: apart_def)
  have two: "unat (2 :: u32) = 2" by simp
  have words: "take 2 (drop 15 (initial_regs ref_kernel)) = [MTCADUMMY_DMMY_AS_ASCII, 1]"
    by (simp add: initial_regs_def size_defs numeral_eq_Suc)
  have r: "readable 0 15 (unat (2 :: u32))" by (simp add: readable_def)
  note areas = reader_writer_areas [OF i ref_quiet ref_opened_attached [OF one]
      ref_opened_bars(1) [OF one one] b dj]
  from areas [THEN conjunct1, THEN mp, OF _ r] show ?thesis
    unfolding ensures_iff two words by auto
qed

text \<open>
  C18. The two implementations agree up to the messages of their exceptions: if the bars of
  one of the first five devices and of the device 6 are equal at the start, a program that
  reads and writes words through \<open>StructReaderWriter\<close> on the one and the same program through
  \<open>NormalReaderWriter\<close> on the other get the same words, meet exceptions at the same accesses,
  and leave equal bars. The messages can differ and are not compared. The kernel neither
  interrupts a call nor fails to copy.
\<close>

theorem implementations_agree:
  assumes "quiet K" and "attached K d fd w" and "d < 5" and "attached K 6 fd' w'"
    and "bars d w = bars 6 w'" and "spi w = spi w'"
  shows "ensures (perform (StructReaderWriter K stack fd) as w) (\<lambda>res u.
    ensures (perform (NormalReaderWriter K stack' fd') as w') (\<lambda>res' u'.
      map word_or_none res = map word_or_none res' \<and> bars d u = bars 6 u'))"
proof -
  obtain rs ds where b: "bars d w = (rs, ds)" "bars 6 w' = (rs, ds)"
    using assms(5) by (metis surj_pair)
  have "connected (\<lambda>d. d < 5) K d fd w" "connected (\<lambda>d. d = 6) K 6 fd' w'"
    using assms(1-4) by (simp_all add: connected_def)
  note c = this
  show ?thesis
  proof (rule ensures_mono [OF struct_words.perform_refines [OF c(1) b(1)]])
    fix res u assume u: "(map word_or_none res, bars d u) = spec_perform K (spi w) as rs ds"
    show "ensures (perform (NormalReaderWriter K stack' fd') as w') (\<lambda>res' u'.
      map word_or_none res = map word_or_none res' \<and> bars d u = bars 6 u')"
      by (rule ensures_mono [OF normal_words.perform_refines [OF c(2) b(2)]])
        (use u [unfolded assms(6), symmetric] in simp)
  qed
qed

theorem implementations_agree_witness:
  "\<exists>res u. perform (StructReaderWriter ref_kernel 0x1000 3) [Put 0x0C 0 7, Get 0x48 0] (ref_opened 1) = Some (res, u) \<and>
    (\<exists>res' u'. perform (NormalReaderWriter ref_kernel 0x1000 3) [Put 0x0C 0 7, Get 0x48 0] (ref_opened 6) =
      Some (res', u') \<and> map word_or_none res = map word_or_none res')"
proof -
  have n: "1 < MTCADUMMY_NR_DEVS" "6 < MTCADUMMY_NR_DEVS" by (simp_all add: size_defs)
  have a: "attached ref_kernel 1 3 (ref_opened 1)" "attached ref_kernel 6 3 (ref_opened 6)"
    by (rule ref_opened_attached [OF n(1)], simp) (rule ref_opened_attached [OF n(2)], simp)
  have b: "bars 1 (ref_opened 1) = bars 6 (ref_opened 6)" "spi (ref_opened 1) = spi (ref_opened 6)"
    using ref_opened_bars [OF n(1) n(1)] ref_opened_bars [OF n(2) n(2)] by simp_all
  from implementations_agree [OF ref_quiet a(1) _ a(2) b] show ?thesis
    by (fastforce simp only: ensures_iff)
qed

text \<open>
  C19. In a kernel that never interrupts a call and never fails to copy, the registers that identify the firmware (its
  two version numbers and the constant of the dummy word) have their values in every
  reachable world, on every device, whatever processes have written.
\<close>

theorem identity_registers:
  assumes "reachable K s w" and "kmalloc_ok K" and "quiet K" and "held s = {}" and "registered s = {}"
    and "d < MTCADUMMY_NR_DEVS"
  shows "regs (kern w) d ! REG MTCADUMMY_WORD_FIRMWARE = VERSION_MAJ K \<and>
    regs (kern w) d ! REG MTCADUMMY_WORD_COMPILATION = VERSION_MIN K \<and>
    regs (kern w) d ! REG MTCADUMMY_WORD_DUMMY = MTCADUMMY_DMMY_AS_ASCII"
  using reachable_identified [OF assms(1-5)] assms(6) by (simp add: identified_def)

theorem identity_registers_witness:
  "\<exists>r w. exec_call ref_kernel (Write 0 0x2000 24) (ref_opened 6) = Some (r, w) \<and>
    regs (kern w) 6 ! 15 = MTCADUMMY_DMMY_AS_ASCII"
proof -
  have six: "6 < MTCADUMMY_NR_DEVS" by (simp add: size_defs)
  have o: "reachable ref_kernel ref_unloaded (ref_opened 6)" by (rule ref_opened_reachable [OF six]) simp
  have p: "permitted ref_kernel (Write 0 0x2000 24) (ref_opened 6)"
    by (simp add: ref_opened_def MAX_RW_COUNT_def)
  have "world_ok ref_kernel (ref_opened 6)" by (rule reachable_world_ok [OF o]) simp_all
  from exec_call_ok [OF this p ref_uaccess_ok] obtain r w where
    e: "exec_call ref_kernel (Write 0 0x2000 24) (ref_opened 6) = Some (r, w)"
    by (auto simp: ensures_iff)
  from identity_registers [OF reach_call [OF o p e] ref_kmalloc_ok ref_quiet ref_unloaded_simps six] e
  show ?thesis by auto
qed

lemma exec_close_files:
  "exec_call K (Close i) w = Some (r, w') \<Longrightarrow> files w' = remove_nth i (files w)"
  by (auto simp: bind_eq_Some_conv Let_def)

lemma exec_open:
  assumes "world_ok K w" and "d < MTCADUMMY_NR_DEVS"
  shows "ensures (exec_call K (Open d) w) (\<lambda>r w'.
    if d \<noteq> 5 \<and> (k_lock K (tick (kern w)) ControlMutex \<noteq> 0 \<or> open_error (control (kern w)))
    then r < 0 \<and> files w' = files w else r = 0 \<and> (\<exists>h. files w' = files w @ [h] \<and> fh_dev h = d))"
proof (cases "d = 5")
  case True
  then show ?thesis
    using assms(2) world_okD(2) [OF assms] by (simp add: call_open_def file_ops_cases)
next
  case False
  then show ?thesis
    using assms(2) world_okD(2) [OF assms]
    by (auto simp: call_open_def file_ops_cases wp errno_defs split: if_splits
        intro!: ensures_mono [OF mtcaDummy_open_refines [OF world_okD(1) [OF assms(1)] assms(2)]])
qed

lemma close_last:
  assumes "world_ok K w'" and "files w' = hs @ [h]"
  shows "ensures (ReaderWriter_close K (descriptor (length hs)) w') (\<lambda>_ w''. world_ok K w'' \<and> files w'' = hs)"
proof -
  have "length hs < length (files w')" by (simp add: assms(2))
  from close_ok [OF assms(1) this] obtain r w'' where
    e: "exec_call K (Close (length hs)) w' = Some (r, w'')" and w: "world_ok K w''"
    by (auto simp: ensures_iff simp del: exec_call.simps)
  from exec_close_files [OF e] assms(2) have "files w'' = hs" by (simp add: remove_nth_def)
  with e w show ?thesis
    by (simp add: ReaderWriter_close_def sys_close_def del: exec_call.simps)
qed

text \<open>
  C20. Opening a device through the class: a path without a device node, a signal and the error
  switch are exceptions that leave no file behind; otherwise the descriptor is that of a new
  file of the device the path names, and closing it leaves the files as they were.
\<close>

theorem ReaderWriter_open_close:
  assumes "world_ok K w"
  shows "ensures (ReaderWriter_open K path w) (\<lambda>r w'. world_ok K w' \<and>
    (case device_of_path path w of
       None \<Rightarrow> isl r \<and> w' = w
     | Some d \<Rightarrow>
         if d \<noteq> 5 \<and> (k_lock K (tick (kern w)) ControlMutex \<noteq> 0 \<or> open_error (control (kern w)))
         then isl r \<and> files w' = files w
         else \<exists>fd. r = Inr fd \<and> file_index fd < length (files w') \<and>
           fh_dev (files w' ! file_index fd) = d \<and>
           ensures (ReaderWriter_close K fd w') (\<lambda>_ w''. world_ok K w'' \<and> files w'' = files w)))"
proof (cases "device_of_path path w")
  case None
  with assms show ?thesis by (simp add: ReaderWriter_open_def sys_open_def)
next
  case (Some d)
  have d: "d < MTCADUMMY_NR_DEVS"
    using Some by (auto simp: device_of_path_def find_Some_iff)
  let ?fails = "d \<noteq> 5 \<and> (k_lock K (tick (kern w)) ControlMutex \<noteq> 0 \<or> open_error (control (kern w)))"
  obtain r w' where e: "exec_call K (Open d) w = Some (r, w')" and w: "world_ok K w'"
    and r: "if ?fails then r < 0 \<and> files w' = files w else r = 0 \<and> (\<exists>h. files w' = files w @ [h] \<and> fh_dev h = d)"
    using open_ok [OF assms d] exec_open [OF assms d] by (auto simp: ensures_iff simp del: exec_call.simps)
  show ?thesis
  proof (cases ?fails)
    case True
    with r w show ?thesis
      by (auto simp: ReaderWriter_open_def sys_open_def Some e simp del: exec_call.simps)
  next
    case False
    with r obtain h where h: "r = 0" "files w' = files w @ [h]" "fh_dev h = d" by auto
    let ?fd = "descriptor (length (files w))"
    have "ReaderWriter_open K path w = Some (Inr ?fd, w')"
      using h(1) by (simp add: ReaderWriter_open_def sys_open_def Some e give_def del: exec_call.simps)
    moreover have "file_index ?fd < length (files w')" "fh_dev (files w' ! file_index ?fd) = d"
      using h by simp_all
    ultimately show ?thesis using False w close_last [OF w h(2)] by (auto simp: Some)
  qed
qed

theorem ReaderWriter_open_close_witness:
  "\<exists>w. ReaderWriter_open ref_kernel ''/dev/null'' ref_world = Some (w, ref_world) \<and> isl w"
proof -
  have "device_of_path ''/dev/null'' ref_world = None"
    by (auto simp: device_of_path_def find_None_iff device_name_def MTCADUMMY_NAME_def
        LLRFDUMMY_NAME_def NOIOCTLDUMMY_NAME_def PCIEUNIDUMMY_NAME_def)
  with ReaderWriter_open_close [OF ref_world_ok, of "''/dev/null''"] show ?thesis
    by (auto simp: ensures_iff)
qed

text \<open>
  C14. The test program passes: in every world that processes can reach, in a kernel that does
  not disturb calls and while the error switches are off, the two suites open the devices 0
  and 6 and each of the twelve test cases ends without an exception and without a failed
  check. The state of the SPI switch, the contents of the bars and the files that are open
  do not matter. The vectors and the stack of the program must not overlap.
\<close>

theorem test_program_passes:
  assumes "reachable K s w" and "kmalloc_ok K" and "quiet K" and "held s = {}" and "registered s = {}"
    and "k_device_create K 0 = Created" and "k_device_create K 6 = Created" and "switches_off w"
    and "program_layout stack helix0 helix6 buffer expected"
  shows "ensures (test_program K stack helix0 helix6 buffer expected w) (\<lambda>rs w'. rs = replicate 12 (Inr 0))"
proof -
  note w = reachable_world_ok [OF assms(1,2) quietD(1) [OF assms(3)] assms(4,5)]
  have n: "0 < MTCADUMMY_NR_DEVS" "6 < MTCADUMMY_NR_DEVS" by (simp_all add: size_defs)
  have "DevNode 0 \<in> registered (kern w)" "DevNode 6 \<in> registered (kern w)"
    using w assms(6,7) n by (auto simp: world_ok_def module_resources_def resources_def)
  moreover have "identified K (regs (kern w) 0)" "identified K (regs (kern w) 6)"
    using reachable_identified [OF assms(1-5)] n by simp_all
  ultimately show ?thesis
    using test_program_ok [OF assms(3) w assms(8) _ _ _ _ assms(9)] by (simp add: identified_def)
qed

theorem test_program_passes_witness:
  "\<exists>w. test_program ref_kernel 0x1000 0x2000 0x4000 0x6000 0x8000 (ref_opened 2) = Some (replicate 12 (Inr 0), w)"
proof -
  have r: "reachable ref_kernel ref_unloaded (ref_opened 2)"
    by (rule ref_opened_reachable) (simp_all add: size_defs)
  have c: "k_device_create ref_kernel i = Created" for i by (simp add: ref_kernel_def)
  have off: "switches_off (ref_opened 2)" by (simp add: switches_off_def ref_opened_def)
  have lay: "program_layout 0x1000 0x2000 0x4000 0x6000 0x8000"
    by (simp add: program_layout_def apart_def stack_of_def vector_region_def)
  from test_program_passes [OF r ref_kmalloc_ok ref_quiet ref_unloaded_simps c c off lay] show ?thesis
    by (simp add: ensures_iff)
qed

end
