(* ===== verification/Manual_Test.thy ===== *)
theory Manual_Test
  imports Client_Properties
begin

text \<open>
  The interactive program \<open>test/testMtcaDummy.cpp\<close>: it starts the data acquisition of the
  device 0, resets the clocks, starts it again and stops it, and waits for the user before each
  step, who can look at the bars in \<open>/proc/mtcadummy\<close>. What the user sees is a list of
  messages, each with the world in which it was printed. The call of \<open>getchar\<close> and the text
  that asks for the key are left out.
\<close>

section \<open>The program\<close>

definition DEVICE_NAME :: string where "DEVICE_NAME = ''/dev/mtcadummys0''"

type_synonym screen = "(string \<times> world) list"

text \<open>\<open>pause\<close>: the message, and the world the user can look at before pressing Enter.\<close>

definition pause :: "string \<Rightarrow> screen \<Rightarrow> world \<Rightarrow> screen" where
  "pause message out w = out @ [(message, w)]"

text \<open>One \<open>write\<close> of the instruction; the result is whether the transfer was complete.\<close>

definition write_instruction :: "kernel \<Rightarrow> u64 \<Rightarrow> int \<Rightarrow> device_rw \<Rightarrow> world \<Rightarrow> (bool \<times> world) option" where
  "write_instruction K stack fileDescriptor instruction w = do {
     let w = put_memory stack (encode_device_rw instruction) w;
     (r, w) \<leftarrow> sys_write K fileDescriptor stack (of_nat sizeof_device_rw) w;
     Some (r = int sizeof_device_rw, w)
   }"

text \<open>The \<open>throw\<close> after a failed write and the \<open>catch\<close> at the end.\<close>

definition device_io_exception :: "screen \<Rightarrow> world \<Rightarrow> (screen \<times> world) option" where
  "device_io_exception out w =
     Some (out @ [(''Error writing to device'', w),
       (''Quitting execution due to IO exception when working with the device'', w)], w)"

text \<open>The \<open>try\<close> block. The instruction is one variable, and only some members change between writes.\<close>

definition instructions :: "kernel \<Rightarrow> u64 \<Rightarrow> int \<Rightarrow> screen \<Rightarrow> world \<Rightarrow> (screen \<times> world) option" where
  "instructions K stack fileDescriptor out w = do {
     let readWriteInstruction = \<lparr>offset_rw = MTCADUMMY_WORD_ADC_ENA, data_rw = 1, mode_rw = RW_D32,
       barx_rw = 0, size_rw = of_nat sizeof_device_rw, rsrvd_rw = 0\<rparr>;
     (ok, w) \<leftarrow> write_instruction K stack fileDescriptor readWriteInstruction w;
     if \<not> ok then device_io_exception out w else do {
       let out = pause ''started DAQ.'' out w;
       let readWriteInstruction = readWriteInstruction\<lparr>offset_rw := MTCADUMMY_WORD_CLK_RST\<rparr>;
       (ok, w) \<leftarrow> write_instruction K stack fileDescriptor readWriteInstruction w;
       if \<not> ok then device_io_exception out w else do {
         let out = pause ''reset the clock counter.'' out w;
         let readWriteInstruction = readWriteInstruction\<lparr>offset_rw := MTCADUMMY_WORD_ADC_ENA, data_rw := 1\<rparr>;
         (ok, w) \<leftarrow> write_instruction K stack fileDescriptor readWriteInstruction w;
         if \<not> ok then device_io_exception out w else do {
           let out = pause ''restarted the daq.'' out w;
           let readWriteInstruction = readWriteInstruction\<lparr>offset_rw := MTCADUMMY_WORD_ADC_ENA, data_rw := 0\<rparr>;
           (ok, w) \<leftarrow> write_instruction K stack fileDescriptor readWriteInstruction w;
           if \<not> ok then device_io_exception out w
           else Some (pause ''Turned off the daq.'' out w, w)
         }
       }
     }
   }"

definition manual_main :: "kernel \<Rightarrow> u64 \<Rightarrow> world \<Rightarrow> ((int \<times> screen) \<times> world) option" where
  "manual_main K stack w = do {
     (fileDescriptor, w) \<leftarrow> sys_open K DEVICE_NAME w;
     if fileDescriptor < 0
     then Some ((1, [(''Could not open file '' @ DEVICE_NAME @
       ''. Check that the udev rules are installed and the kernel module is loaded!'', w)]), w)
     else do {
       let out = pause
         ''Device file is opened. check /proc/mtcadummy for the status of the bar contents.'' [] w;
       (out, w) \<leftarrow> instructions K stack fileDescriptor out w;
       (_, w) \<leftarrow> sys_close K fileDescriptor w;
       Some ((0, out), w)
     }
   }"

section \<open>What its calls do\<close>

text \<open>The bars of the device 0 after each of the four writes.\<close>

definition daq_started :: "u32 list \<times> u32 list \<Rightarrow> u32 list \<times> u32 list" where
  "daq_started b = (case b of (rs, ds) \<Rightarrow> (rs[17 := 1, 4 := 25, 16 := 0], parabola ds))"

definition clocks_reset :: "u32 list \<times> u32 list \<Rightarrow> u32 list \<times> u32 list" where
  "clocks_reset b = (case b of (rs, ds) \<Rightarrow> (clear_clocks (rs[16 := 1]), ds))"

definition daq_stopped :: "u32 list \<times> u32 list \<Rightarrow> u32 list \<times> u32 list" where
  "daq_stopped b = (case b of (rs, ds) \<Rightarrow> (rs[17 := 0], ds))"

lemma write_instruction_linked:
  assumes "quiet K" and "linked K d fd w" and "d < 5"
    and "mode_rw rw = RW_D32" "barx_rw rw = 0"
    and "(if write_error (control (kern w)) then (- EFAULT, bars d w)
      else spec_write K False (spi w) 0 (offset_rw rw) (data_rw rw) (regs (kern w) d) (dma (kern w) d)) = (e, b)"
  shows "ensures (write_instruction K stack fd rw w) (\<lambda>ok w'. ok = (e = 0) \<and> served K d w w' \<and> bars d w' = b)"
proof -
  let ?w = "put_memory stack (encode_device_rw rw) w"
  obtain rs ds where b: "b = (rs, ds)" by fastforce
  have "linked K d fd ?w" using assms(2) by simp
  note call = sys_write_linked [OF assms(1) this assms(3), of rw stack e rs ds]
  have "rw = decode_device_rw (get_memory stack sizeof_device_rw ?w)"
    by (simp add: sizeof_device_rw_def)
  with call assms(4-6) have "ensures (sys_write K fd stack (of_nat sizeof_device_rw) ?w) (\<lambda>r w'.
      served K d w w' \<and> bars d w' = b \<and> r = (if e = 0 then int sizeof_device_rw else - 1))"
    by (auto simp: b bars_def elim!: ensures_mono split: if_splits)
  then show ?thesis
    by (auto simp: write_instruction_def Let_def ensures_iff sizeof_device_rw_def split: if_splits)
qed
lemma spec_write_daq:
  assumes "length rs = MTCADUMMY_N_REGISTERS"
  shows "spec_write K False b 0 MTCADUMMY_WORD_ADC_ENA 1 rs ds = (0, daq_started (rs, ds))"
    and "spec_write K False b 0 MTCADUMMY_WORD_CLK_RST 1 rs ds = (0, clocks_reset (rs, ds))"
    and "spec_write K False b 0 MTCADUMMY_WORD_ADC_ENA 0 rs ds = (0, daq_stopped (rs, ds))"
  using assms
  by (simp_all add: spec_write_def bar_words_def valid_offset_def spec_action_def daq_started_def
      clocks_reset_def daq_stopped_def MTCADUMMY_WORD_ADC_ENA_def MTCADUMMY_WORD_CLK_RST_def REG_def unat_div size_defs)

text \<open>Writing is allowed for a session.\<close>

definition writable :: "kernel \<Rightarrow> int \<Rightarrow> world \<Rightarrow> bool" where
  "writable K fd w \<longleftrightarrow> linked K 0 fd w \<and> \<not> write_error (control (kern w))"

lemma writable_served: "writable K fd w \<Longrightarrow> served K 0 w w' \<Longrightarrow> writable K fd w'"
  using served_linked [of K 0 fd w 0 w'] by (simp add: writable_def served_def)

lemma write_daq:
  assumes "quiet K" and "writable K fd w" and "bars 0 w = b" and "mode_rw rw = RW_D32" "barx_rw rw = 0"
  shows "offset_rw rw = MTCADUMMY_WORD_ADC_ENA \<Longrightarrow> data_rw rw = 1 \<Longrightarrow>
      ensures (write_instruction K stack fd rw w) (\<lambda>ok w'. ok \<and> served K 0 w w' \<and> bars 0 w' = daq_started b)"
    and "offset_rw rw = MTCADUMMY_WORD_CLK_RST \<Longrightarrow> data_rw rw = 1 \<Longrightarrow>
      ensures (write_instruction K stack fd rw w) (\<lambda>ok w'. ok \<and> served K 0 w w' \<and> bars 0 w' = clocks_reset b)"
    and "offset_rw rw = MTCADUMMY_WORD_ADC_ENA \<Longrightarrow> data_rw rw = 0 \<Longrightarrow>
      ensures (write_instruction K stack fd rw w) (\<lambda>ok w'. ok \<and> served K 0 w w' \<and> bars 0 w' = daq_stopped b)"
proof -
  have l: "linked K 0 fd w" and e: "\<not> write_error (control (kern w))" using assms(2) by (simp_all add: writable_def)
  have run: "ensures (write_instruction K stack fd rw w) (\<lambda>ok w'. ok \<and> served K 0 w w' \<and> bars 0 w' = b')"
    if "spec_write K False (spi w) 0 (offset_rw rw) (data_rw rw) (regs (kern w) 0) (dma (kern w) 0) = (0, b')" for b'
    using write_instruction_linked [OF assms(1) l _ assms(4,5), of 0 b' stack] that e by simp
  have b: "b = (regs (kern w) 0, dma (kern w) 0)" using assms(3) by (simp add: bars_def)
  note spec = spec_write_daq [OF linkedD(8) [OF l]]
  show "offset_rw rw = MTCADUMMY_WORD_ADC_ENA \<Longrightarrow> data_rw rw = 1 \<Longrightarrow>
      ensures (write_instruction K stack fd rw w) (\<lambda>ok w'. ok \<and> served K 0 w w' \<and> bars 0 w' = daq_started b)"
    by (rule run) (simp add: spec b)
  show "offset_rw rw = MTCADUMMY_WORD_CLK_RST \<Longrightarrow> data_rw rw = 1 \<Longrightarrow>
      ensures (write_instruction K stack fd rw w) (\<lambda>ok w'. ok \<and> served K 0 w w' \<and> bars 0 w' = clocks_reset b)"
    by (rule run) (simp add: spec b)
  show "offset_rw rw = MTCADUMMY_WORD_ADC_ENA \<Longrightarrow> data_rw rw = 0 \<Longrightarrow>
      ensures (write_instruction K stack fd rw w) (\<lambda>ok w'. ok \<and> served K 0 w w' \<and> bars 0 w' = daq_stopped b)"
    by (rule run) (simp add: spec b)
qed

definition session_ended :: "kernel \<Rightarrow> world \<Rightarrow> screen \<Rightarrow> screen \<Rightarrow> world \<Rightarrow> bool" where
  "session_ended K w out out' w' \<longleftrightarrow> served K 0 w w' \<and>
    (let b1 = daq_started (bars 0 w); b2 = clocks_reset b1; b3 = daq_started b2; b4 = daq_stopped b3 in
       bars 0 w' = b4 \<and>
       map (\<lambda>(m, u). (m, bars 0 u)) out' = map (\<lambda>(m, u). (m, bars 0 u)) out @
         [(''started DAQ.'', b1), (''reset the clock counter.'', b2), (''restarted the daq.'', b3),
          (''Turned off the daq.'', b4)])"

definition instruction :: "u32 \<Rightarrow> u32 \<Rightarrow> device_rw" where
  "instruction off v = \<lparr>offset_rw = off, data_rw = v, mode_rw = RW_D32, barx_rw = 0,
     size_rw = of_nat sizeof_device_rw, rsrvd_rw = 0\<rparr>"

lemma instruction_simps [simp]:
  "offset_rw (instruction off v) = off" "data_rw (instruction off v) = v"
  "mode_rw (instruction off v) = RW_D32" "barx_rw (instruction off v) = 0"
  "(instruction off v)\<lparr>offset_rw := off'\<rparr> = instruction off' v"
  "(instruction off v)\<lparr>data_rw := v'\<rparr> = instruction off v'"
  by (simp_all add: instruction_def)

lemma instructions_ok:
  assumes "quiet K" and "writable K fd w"
  shows "ensures (instructions K stack fd out w) (session_ended K w out)"
proof -
  note at = writable_served [OF assms(2)]
  obtain u1 where u1: "write_instruction K stack fd (instruction MTCADUMMY_WORD_ADC_ENA 1) w = Some (True, u1)"
    "served K 0 w u1" "bars 0 u1 = daq_started (bars 0 w)"
    using write_daq(1) [OF assms refl, of "instruction MTCADUMMY_WORD_ADC_ENA 1" stack] by (auto simp: ensures_iff)
  obtain u2 where u2: "write_instruction K stack fd (instruction MTCADUMMY_WORD_CLK_RST 1) u1 = Some (True, u2)"
    "served K 0 u1 u2" "bars 0 u2 = clocks_reset (bars 0 u1)"
    using write_daq(2) [OF assms(1) at [OF u1(2)] refl, of "instruction MTCADUMMY_WORD_CLK_RST 1" stack]
    by (auto simp: ensures_iff)
  note s2 = served_trans [OF u1(2) u2(2)]
  obtain u3 where u3: "write_instruction K stack fd (instruction MTCADUMMY_WORD_ADC_ENA 1) u2 = Some (True, u3)"
    "served K 0 u2 u3" "bars 0 u3 = daq_started (bars 0 u2)"
    using write_daq(1) [OF assms(1) at [OF s2] refl, of "instruction MTCADUMMY_WORD_ADC_ENA 1" stack]
    by (auto simp: ensures_iff)
  note s3 = served_trans [OF s2 u3(2)]
  obtain u4 where u4: "write_instruction K stack fd (instruction MTCADUMMY_WORD_ADC_ENA 0) u3 = Some (True, u4)"
    "served K 0 u3 u4" "bars 0 u4 = daq_stopped (bars 0 u3)"
    using write_daq(3) [OF assms(1) at [OF s3] refl, of "instruction MTCADUMMY_WORD_ADC_ENA 0" stack]
    by (auto simp: ensures_iff)
  show ?thesis
    unfolding instructions_def instruction_def [symmetric] Let_def
    by (simp add: u1(1) u2(1) u3(1) u4(1) pause_def session_ended_def served_trans [OF s3 u4(2)] u1(3) u2(3) u3(3) u4(3))
qed

text \<open>The attempt to open, whatever the switches are.\<close>

lemma sys_open_0:
  assumes "quiet K" and "world_ok K w" and "DevNode 0 \<in> registered (kern w)"
  shows "ensures (sys_open K DEVICE_NAME w) (\<lambda>fd w'.
    if open_error (control (kern w)) then fd = - 1 \<and> world_ok K w' \<and> files w' = files w \<and> bars 0 w' = bars 0 w
    else fd = descriptor (length (files w)) \<and> opens K 0 w w')"
proof -
  have zero: "0 < MTCADUMMY_NR_DEVS" by (simp add: size_defs)
  have path: "device_of_path DEVICE_NAME w = Some 0"
    using device_paths(1) [OF assms(3)] by (simp add: DEVICE_NAME_def MTCADUMMY_NAME_def)
  show ?thesis
  proof (cases "open_error (control (kern w))")
    case False
    from ReaderWriter_open_device [OF assms(1,2) False zero _ path] show ?thesis
      using False by (auto simp: ReaderWriter_open_def ensures_iff throw_def give_def split: if_splits Option.bind_splits)
  next
    case True
    obtain r w' where "exec_call K (Open 0) w = Some (r, w')" "world_ok K w'" "frame (Open 0) w w'"
      "r < 0" "files w' = files w"
      using open_ok [OF assms(2) zero] exec_open [OF assms(2) zero] True
      by (auto simp: ensures_iff simp del: exec_call.simps)
    then show ?thesis
      using True zero by (simp add: sys_open_def path frame_def bars_def del: exec_call.simps)
  qed
qed

text \<open>While writing is switched to fail, the first write already ends the session.\<close>

lemma instructions_refused:
  assumes "quiet K" and "linked K 0 fd w" and "write_error (control (kern w))"
  shows "ensures (instructions K stack fd out w) (\<lambda>out' w'. served K 0 w w' \<and> bars 0 w' = bars 0 w \<and>
    length out' = length out + 2 \<and> map fst out' = map fst out @ [''Error writing to device'',
      ''Quitting execution due to IO exception when working with the device''])"
proof -
  obtain u where u: "write_instruction K stack fd (instruction MTCADUMMY_WORD_ADC_ENA 1) w = Some (False, u)"
    "served K 0 w u" "bars 0 u = bars 0 w"
    using write_instruction_linked [OF assms(1,2), of "instruction MTCADUMMY_WORD_ADC_ENA 1" "- EFAULT" "bars 0 w" stack]
      assms(3) by (auto simp: ensures_iff errno_defs)
  then show ?thesis
    unfolding instructions_def instruction_def [symmetric] Let_def
    by (simp add: device_io_exception_def)
qed

lemma sys_close_last:
  assumes "world_ok K w" and "map fh_dev (files w) = ds @ [d]"
  shows "ensures (sys_close K (descriptor (length ds)) w) (\<lambda>_ w'.
    world_ok K w' \<and> map fh_dev (files w') = ds \<and> bars 0 w' = bars 0 w)"
proof -
  have l: "length (files w) = Suc (length ds)" using arg_cong [OF assms(2), of length] by simp
  then have i: "length ds < length (files w)" by simp
  have zero: "0 < MTCADUMMY_NR_DEVS" by (simp add: size_defs)
  from close_ok [OF assms(1) i] obtain r w' where e: "exec_call K (Close (length ds)) w = Some (r, w')"
    and w: "world_ok K w'" "frame (Close (length ds)) w w'"
    by (auto simp: ensures_iff simp del: exec_call.simps)
  have "map fh_dev (files w') = ds"
    using assms(2) l by (simp add: exec_close_files [OF e] remove_nth_def take_map [symmetric])
  with e w zero show ?thesis
    by (simp add: sys_close_def frame_def bars_def del: exec_call.simps)
qed

lemma opened_linked:
  assumes "opens K 0 w u"
  shows "linked K 0 (descriptor (length (files w))) u"
proof -
  have m: "map fh_dev (files u) = map fh_dev (files w) @ [0]" using assms by (simp add: opens_def)
  have "length (files u) = Suc (length (files w))" using arg_cong [OF m, of length] by simp
  then show ?thesis
    using arg_cong [OF m, of "\<lambda>xs. xs ! length (files w)"] assms
    by (simp add: nth_append linked_def opens_def size_defs)
qed

section \<open>What the user sees\<close>

text \<open>The messages, each with the bars of the device at that moment, and the bars at the end.\<close>

definition seen :: "world \<Rightarrow> screen \<Rightarrow> world \<Rightarrow> bool" where
  "seen w out w' \<longleftrightarrow>
    (if write_error (control (kern w))
     then length out = 3 \<and> last (map fst out) =
         ''Quitting execution due to IO exception when working with the device'' \<and> bars 0 w' = bars 0 w
     else let b1 = daq_started (bars 0 w); b2 = clocks_reset b1; b3 = daq_started b2; b4 = daq_stopped b3 in
       bars 0 w' = b4 \<and>
       map (\<lambda>(m, u). (m, bars 0 u)) out =
         [(''Device file is opened. check /proc/mtcadummy for the status of the bar contents.'', bars 0 w),
          (''started DAQ.'', b1), (''reset the clock counter.'', b2), (''restarted the daq.'', b3),
          (''Turned off the daq.'', b4)])"

text \<open>
  C15. The interactive program, in a kernel that does not disturb calls, in every
  reachable world. If opening is switched to fail, it ends with the exit code 1 and a message.
  If writing is switched to fail, the first instruction ends the session with two messages and
  the bars as they were. Otherwise the five pauses show the bars as they were found; sampled,
  with the counter at 25; with the counters cleared and the reset register set; sampled again;
  and with the ADC register at 0. In any case the files that were open before are open at the
  end, and no other.
\<close>

theorem manual_program_runs:
  assumes "reachable K s w" and "kmalloc_ok K" and "quiet K" and "held s = {}" and "registered s = {}"
    and "k_device_create K 0 = Created"
  shows "ensures (manual_main K stack w) (\<lambda>(code, out) w'.
    world_ok K w' \<and> map fh_dev (files w') = map fh_dev (files w) \<and>
    (if open_error (control (kern w)) then code = 1 \<and> length out = 1 \<and> bars 0 w' = bars 0 w
     else code = 0 \<and> seen w out w'))"
proof -
  have w: "world_ok K w" by (rule reachable_world_ok [OF assms(1,2) quietD(1) [OF assms(3)] assms(4,5)])
  have zero: "0 < MTCADUMMY_NR_DEVS" by (simp add: size_defs)
  have node: "DevNode 0 \<in> registered (kern w)"
    using w assms(6) zero by (auto simp: world_ok_def module_resources_def resources_def)
  let ?fd = "descriptor (length (files w))"
  obtain fd u where sys_op: "sys_open K DEVICE_NAME w = Some (fd, u)"
    and u: "if open_error (control (kern w)) then fd = - 1 \<and> world_ok K u \<and> files u = files w \<and> bars 0 u = bars 0 w
      else fd = ?fd \<and> opens K 0 w u"
    using sys_open_0 [OF assms(3) w node] by (auto simp: ensures_iff)
  show ?thesis
  proof (cases "open_error (control (kern w))")
    case True
    with sys_op u show ?thesis by (simp add: manual_main_def)
  next
    case False
    with u have o: "opens K 0 w u" and fd: "fd = ?fd" by simp_all
    let ?out = "pause ''Device file is opened. check /proc/mtcadummy for the status of the bar contents.'' [] u"
    note link = opened_linked [OF o]
    have same: "bars 0 u = bars 0 w" "write_error (control (kern u)) = write_error (control (kern w))"
      using o zero by (simp_all add: opens_def)
    have "ensures (instructions K stack ?fd ?out u) (\<lambda>out v. served K 0 u v \<and> seen w out v)"
    proof (cases "write_error (control (kern w))")
      case True
      with same have "write_error (control (kern u))" by simp
      from instructions_refused [OF assms(3) link this] show ?thesis
        by (rule ensures_mono) (use True same in \<open>auto simp: seen_def pause_def\<close>)
    next
      case False
      then have "writable K ?fd u" using link same by (simp add: writable_def)
      from instructions_ok [OF assms(3) this] show ?thesis
        by (rule ensures_mono) (use False same in \<open>auto simp: seen_def session_ended_def pause_def Let_def\<close>)
    qed
    then obtain out v where run: "instructions K stack ?fd ?out u = Some (out, v)" and v: "served K 0 u v"
      and seen: "seen w out v" by (auto simp: ensures_iff)
    have "world_ok K v" "map fh_dev (files v) = map fh_dev (files w) @ [0]"
      using v o by (simp_all add: served_def opens_def)
    from sys_close_last [OF this] obtain r x where sys_cl: "sys_close K ?fd v = Some (r, x)"
      and x: "world_ok K x" "map fh_dev (files x) = map fh_dev (files w)" "bars 0 x = bars 0 v"
      by (auto simp: ensures_iff)
    have "\<not> ?fd < 0" by (simp add: descriptor_def)
    then have "manual_main K stack w = Some ((0, out), x)"
      by (simp add: manual_main_def sys_op fd run sys_cl)
    with False x seen show ?thesis
      by (simp add: seen_def)
  qed
qed


theorem manual_program_runs_witness:
  "\<exists>out w'. manual_main ref_kernel 0x1000 (ref_opened 2) = Some ((0, out), w') \<and>
    map fst out = [''Device file is opened. check /proc/mtcadummy for the status of the bar contents.'',
      ''started DAQ.'', ''reset the clock counter.'', ''restarted the daq.'', ''Turned off the daq.''] \<and>
    fst (bars 0 w') ! 4 = 25 \<and> fst (bars 0 w') ! 17 = 0 \<and> snd (bars 0 w') ! 24 = 576"
proof -
  have n: "2 < MTCADUMMY_NR_DEVS" "0 < MTCADUMMY_NR_DEVS" by (simp_all add: size_defs)
  have r: "reachable ref_kernel ref_unloaded (ref_opened 2)" by (rule ref_opened_reachable [OF n(1)]) simp
  have c: "k_device_create ref_kernel 0 = Created" by (simp add: ref_kernel_def)
  have off: "\<not> open_error (control (kern (ref_opened 2)))" "\<not> write_error (control (kern (ref_opened 2)))"
    by (simp_all add: ref_opened_def)
  obtain out w' where m: "manual_main ref_kernel 0x1000 (ref_opened 2) = Some ((0, out), w')"
    and s: "seen (ref_opened 2) out w'"
    using manual_program_runs [OF r ref_kmalloc_ok ref_quiet ref_unloaded_simps c, of "0x1000"] off
    by (auto simp: ensures_iff)
  let ?t = "[''Device file is opened. check /proc/mtcadummy for the status of the bar contents.'',
      ''started DAQ.'', ''reset the clock counter.'', ''restarted the daq.'', ''Turned off the daq.'']"
  have "map fst (map (\<lambda>(m, u). (m, bars 0 u)) out) = ?t"
    using s off(2) unfolding seen_def Let_def by simp
  then have "map fst out = ?t" by (simp add: comp_def case_prod_beta)
  moreover have "bars 0 w' = daq_stopped (daq_started (clocks_reset (daq_started (bars 0 (ref_opened 2)))))"
    using s off(2) by (simp add: seen_def Let_def)
  then have "fst (bars 0 w') ! 4 = 25 \<and> fst (bars 0 w') ! 17 = 0 \<and> snd (bars 0 w') ! 24 = 576"
    by (simp add: ref_opened_bars [OF n] daq_stopped_def daq_started_def clocks_reset_def clear_clocks_def
        parabola_def nSamples_def nth_append size_defs)
  ultimately show ?thesis using m by (intro exI [of _ out] exI [of _ w']) simp
qed

end
