(* ===== verification/Spec2Isabelle.thy ===== *)
theory Spec2Isabelle
  imports Proc_Properties Interleaving Manual_Test
begin

text \<open>
  A verification library for the pciedummy driver (\<open>mtcadummy\<close>), a Linux kernel module that
  imitates PCI express boards in memory, so that programs can be tested without hardware.

  The program and its parts.
  The module creates seven devices. Each has two bars in kernel memory: 32 registers (bar 0)
  and a DMA area of 1024 words (bar 2). Writing to some registers runs an action, the
  simulated firmware. Processes reach the devices through tables of file operations: the
  devices 0 to 3 and 4 transfer single words described by a structure in the user buffer
  (4 has its own control commands), the device 6 transfers ranges of words by the position in
  the file, and the device 5 is meant to have no control commands. A proc file dumps the
  bars as text and takes commands that switch errors of opening, reading, writing and of the
  simulated SPI on and off. A mutex per device guards its bars and one more the switches.
  The directory \<open>automatic_test\<close> has a user space library for the devices, an abstract class
  with one implementation for each way of transferring words, and a test program over it;
  \<open>test\<close> has an interactive test program.

  The theories, in the order of their imports.
  \<^item> \<open>Prelude\<close>: word types, error numbers, calls that can fail (\<open>ensures\<close>), counting loops with
    an early return (\<open>for_loop\<close>, with the locale \<open>loop_body\<close> that carries every loop proof),
    words as bytes, and the collections \<open>exec\<close> and \<open>wp\<close> of execution and postcondition rules.
  \<^item> \<open>Driver_State\<close>: \<open>mtcadummy.h\<close> and the globals of \<open>mtcadummy_drv.c\<close>. \<open>mtcaDummyData\<close> and
    \<open>mtcaDummyControl\<close> are the structures of the code; \<open>sys\<close> holds the array of devices, the
    control record, kernel memory as a store of blocks of words, user memory, the mutexes that
    are held, what is registered with the kernel, and a ghost log of lock operations and
    accesses. The kernel is a record \<open>kernel\<close> of its answers, an argument everywhere;
    \<open>uaccess_ok\<close> and \<open>kmalloc_ok\<close> state what it documents.
  \<^item> \<open>Firmware\<close>: \<open>mtcadummy_firmware.c\<close>. \<open>Reference_Machine\<close>: one concrete kernel and state,
    for applications of the theorems.
  \<^item> \<open>Struct_Io\<close>: \<open>mtcaDummy_open\<close>, \<open>release\<close>, \<open>read\<close> and \<open>write\<close> of \<open>mtcadummy_drv.c\<close>.
  \<^item> \<open>No_Struct_Io\<close>: \<open>mtcadummy_rw_no_struct.c\<close>.
  \<^item> \<open>Ioctl\<close>: the three control handlers of \<open>mtcadummy_drv.c\<close> and the command numbers of
    \<open>pciedev_io.h\<close>, \<open>llrfdrv_io_compat.h\<close> and \<open>pcieuni_io_compat.h\<close>; the locale
    \<open>ioctl_handler\<close> is the contract the handlers share.
  \<^item> \<open>Proc\<close>: \<open>mtcadummy_proc.c\<close>.
  \<^item> \<open>Module_Init\<close>: \<open>mtcaDummy_init_module\<close> with its error exits, \<open>mtcaDummy_cleanup_module\<close>
    and the tables of file operations. \<open>module_resources\<close> is what the kernel has registered for a
    loaded module: the code does not notice a device node that is refused with an error pointer
    or a proc entry that is refused, and these are then missing.
  \<^item> \<open>System\<close>: the loaded module as a transition system of calls of processes, with the locales
    \<open>device_call\<close> (a call stays on its device) and \<open>reading_call\<close> (it changes no bar),
    interpreted for every handler, and the invariant \<open>world_ok\<close>.
  \<^item> \<open>Client\<close>: the system calls of a process on that transition system, and the library of
    \<open>automatic_test\<close>: \<open>ReaderWriter.cc\<close>, \<open>StructReaderWriter.cc\<close> and \<open>NormalReaderWriter.cc\<close>.
    Local variables and buffers are in user memory, exceptions are values of a sum type.
  \<^item> \<open>Reader_Writer\<close>: the contract of the class as the locales \<open>word_access\<close> and
    \<open>reader_writer_class\<close>, with an interpretation for each implementation.
  \<^item> \<open>Client_Tests\<close>: \<open>testMtcaDummy.cpp\<close>, test case by test case, and the proofs inside the
    locale that each of them passes. \<open>Manual_Test\<close>: the interactive program
    \<open>test/testMtcaDummy.cpp\<close>, with the bars the user can look at after each step.
  \<^item> \<open>Interleaving\<close>: schedules of the lock operations and accesses of many calls at the same
    time; the locale \<open>lock_discipline\<close> is what threads promise, with an interpretation on the
    calls of the module.
  \<^item> \<open>Transfer_Properties\<close>, \<open>Proc_Properties\<close>, \<open>System_Properties\<close> and \<open>Client_Properties\<close>: the
    properties, together with those at the ends of \<open>Interleaving\<close> and \<open>Manual_Test\<close>.

  How an operation is modelled.
  Every C function is a definition that takes the kernel, its arguments and the state, and
  returns \<open>Some\<close> of its result and the new state, with every early return in its place. \<open>None\<close>
  means that the C code has no defined behaviour: an access outside a block or through a null
  pointer, a mutex that is taken twice or given back without being held, a resource or block
  that is given back twice. A theorem that says \<open>ensures\<close> thus says that the call ends, is
  safe, and has the result that is stated.

  What the lemmas show.
  For every operation there is a lemma \<open>\<dots>_refines\<close>: it gives the result, the bars and the user
  memory of the call by the abstract functions of its theory (\<open>spec_write\<close>, \<open>spec_reply\<close>,
  \<open>spec_writes\<close>, \<open>ioctl_outcome\<close>, \<open>switch_all\<close>, \<open>dump_text\<close>, \<open>loaded\<close>), and that the call leaves
  a well-formed state in which no mutex is held. The invariant of the running module and the
  locking discipline are proved for all reachable worlds from these lemmas.
  For the library, the lemmas lift these contracts to the system calls (\<open>sys_read_word\<close>,
  \<open>sys_pwrite_words\<close> and the like), from there to the class, and from the contract of the
  class to the test program. The clients are followed in a kernel that does not interrupt
  calls and copies without faults (\<open>quiet\<close>); what happens on a signal or a fault is in the
  contracts of the handlers, and \<open>read_only_lost_on_signal\<close> and \<open>read_only_lost_on_fault\<close> show
  what it can do to the read-only registers.

  Words and bounds.
  Registers, offsets and sizes are 32 bit words and file positions 64 bit words, and all sums
  wrap around as in C. Two sums of the code do wrap around: the bound checks of the DMA
  requests. The calls that reach the copy with such a request are \<open>read_escapes\<close> and
  \<open>ioctl_escapes\<close>: the contracts say that these, and no others, have no defined result, they are
  the only calls within the limits of the kernel that \<open>permitted\<close> leaves out, and
  \<open>struct_read_dma_wrap\<close> and \<open>ioctl_dma_wrap\<close> show them. A third sum, in the check of a position,
  could wrap around only for counts that the kernel never hands to a driver
  (\<open>no_struct_in_bounds\<close>): the sizes of read and write calls are bounded by \<open>MAX_RW_COUNT\<close>.
  No definition has fuel: the loops over devices, registers, words and samples count to a
  bound, and the loop over the tokens of a command ends because \<open>strsep\<close> shortens the string.

  Concurrency.
  A call is one step of the transition system. This is what the mutexes are for: the
  locking discipline shows that every access to a bar or to a switch happens under its mutex.
  \<open>Interleaving\<close> takes the events of calls apart again and runs those of many processes in any
  order that the mutexes permit: no two processes are ever about to touch the same bars or
  the switches (\<open>no_data_race\<close>), and every such run can only end with all calls at their end
  (\<open>no_deadlock\<close>). The events of a call are those of its run alone, from any reachable world.
  A call has more than one critical section: the error switch is read before the mutex of the
  device is taken. That another call changes the switch or the bars between the two, so
  that the call goes on differently than it would alone, is not followed.

  Not modelled.
  \<^item> \<open>dbg_print\<close> and \<open>printk\<close>: they write to the log of the kernel only.
  \<^item> \<open>mtcadummy_proc_open\<close>, \<open>mtcadummy_seq_stop\<close> and the two tables of operations of the proc
    file: they connect the seq file library of the kernel, which is not part of the repository.
    How it walks through the devices, fills its buffer and shows again is not followed; \<open>Proc\<close>
    only shows which devices the iterator of the module visits.
  \<^item> The generated \<open>version.h\<close>: the two version numbers are fields of \<open>kernel\<close>.
  \<^item> The test framework Boost: its checks are modelled as the number of checks that failed, its
    main function as a run of the test cases in their order. Descriptors are numbered by the
    place of the file, which is right as long as files are closed last one first.
  \<^item> The build, packaging and configuration files.
\<close>

end
